(* ===== verification/Go_Prelude.thy ===== *)
theory Go_Prelude
  imports Main "HOL-Library.Char_ord" "HOL-Library.List_Lexorder" "HOL-Library.AList"
begin

text \<open>
  What the components share: the outcome of a Go call, Go maps, the string functions of the
  Go standard library the program uses, decimal conversion, 64-bit integers and time.

  A Go \<^verbatim>\<open>string\<close> is a list of bytes, so \<open>string\<close> (a list of 8-bit characters) models it and
  \<open>length\<close> is \<^verbatim>\<open>len\<close>. White space is ASCII white space.

  A Go \<^verbatim>\<open>map[string]T\<close> is an association list with distinct keys (\<open>gm_ok\<close>). The order of the
  list is the order an iteration happens to use; Go promises none, and every theorem holds
  for every list.
\<close>

section \<open>Collections of facts\<close>

named_theorems go_string_simps \<open>unfolding rules of the string functions\<close>
named_theorems go_map_simps \<open>lookup after update and delete on Go maps\<close>

section \<open>Outcomes\<close>

text \<open>A call returns a value, returns an error, or panics.\<close>

datatype 'a outcome = Ret 'a | Fail string | Panic

fun outcome_bind :: "'a outcome \<Rightarrow> ('a \<Rightarrow> 'b outcome) \<Rightarrow> 'b outcome" where
  "outcome_bind (Ret x) f = f x"
| "outcome_bind (Fail e) f = Fail e"
| "outcome_bind Panic f = Panic"

lemma outcome_bind_Ret_iff:
  "outcome_bind r f = Ret y \<longleftrightarrow> (\<exists>x. r = Ret x \<and> f x = Ret y)"
  by (cases r) auto

section \<open>Go maps\<close>

type_synonym 'v gomap = "(string \<times> 'v) list"

abbreviation gm_get :: "'v gomap \<Rightarrow> string \<Rightarrow> 'v option" where
  "gm_get m k \<equiv> map_of m k"

abbreviation gm_put :: "string \<Rightarrow> 'v \<Rightarrow> 'v gomap \<Rightarrow> 'v gomap" where
  "gm_put k v m \<equiv> AList.update k v m"

abbreviation gm_del :: "string \<Rightarrow> 'v gomap \<Rightarrow> 'v gomap" where
  "gm_del k m \<equiv> AList.delete k m"

abbreviation gm_keys :: "'v gomap \<Rightarrow> string list" where
  "gm_keys m \<equiv> map fst m"

abbreviation gm_ok :: "'v gomap \<Rightarrow> bool" where
  "gm_ok m \<equiv> distinct (map fst m)"

lemma gm_get_put [simp, go_map_simps]:
  "gm_get (gm_put k v m) k' = (if k' = k then Some v else gm_get m k')"
  by (simp add: update_conv')

lemma gm_get_del [simp, go_map_simps]:
  "gm_get (gm_del k m) k' = (if k' = k then None else gm_get m k')"
  by (simp add: delete_conv')

lemma gm_ok_put [simp, intro]: "gm_ok m \<Longrightarrow> gm_ok (gm_put k v m)"
  by (rule distinct_update)

lemma gm_ok_del [simp, intro]: "gm_ok m \<Longrightarrow> gm_ok (gm_del k m)"
  by (rule distinct_delete)

lemma gm_get_iff: "gm_ok m \<Longrightarrow> gm_get m k = Some v \<longleftrightarrow> (k, v) \<in> set m"
  by (simp add: map_of_eq_Some_iff)

lemma gm_get_None: "gm_get m k = None \<longleftrightarrow> k \<notin> set (gm_keys m)"
  by (force simp: map_of_eq_None_iff)

lemma gm_get_SomeD: "gm_get m k = Some v \<Longrightarrow> (k, v) \<in> set m"
  by (rule map_of_SomeD)

lemma gm_keys_put: "set (gm_keys (gm_put k v m)) = insert k (set (gm_keys m))"
  by (auto simp flip: dom_map_of_conv_image_fst simp: update_conv' image_image)

lemma gm_keys_del: "set (gm_keys (gm_del k m)) = set (gm_keys m) - {k}"
  by (simp add: delete_keys)

lemma fst_gm_put [simp]: "fst ` set (gm_put k v m) = insert k (fst ` set m)"
  using gm_keys_put [of k v m] by simp

lemma gm_get_fresh [simp]: "k \<notin> fst ` set m \<Longrightarrow> gm_get m k = None"
  by (simp add: gm_get_None)

lemma gm_put_new: "k \<notin> set (gm_keys m) \<Longrightarrow> gm_put k v m = m @ [(k, v)]"
  by (induction m) auto

lemma length_gm_keys: "gm_ok m \<Longrightarrow> length m = card (set (gm_keys m))"
  by (metis distinct_card length_map)

section \<open>Strings\<close>

abbreviation NL :: char where "NL \<equiv> CHR 0x0A"
abbreviation TAB :: char where "TAB \<equiv> CHR 0x09"
abbreviation QUOTE :: char where "QUOTE \<equiv> CHR 0x22"
abbreviation SLASH :: char where "SLASH \<equiv> CHR 0x2F"
abbreviation BSLASH :: char where "BSLASH \<equiv> CHR 0x5C"

definition hasPrefix :: "string \<Rightarrow> string \<Rightarrow> bool" where
  "hasPrefix s p = (take (length p) s = p)"

definition hasSuffix :: "string \<Rightarrow> string \<Rightarrow> bool" where
  "hasSuffix s p = hasPrefix (rev s) (rev p)"

definition trimPrefix :: "string \<Rightarrow> string \<Rightarrow> string" where
  "trimPrefix s p = (if hasPrefix s p then drop (length p) s else s)"

definition trimSuffix :: "string \<Rightarrow> string \<Rightarrow> string" where
  "trimSuffix s p = (if hasSuffix s p then take (length s - length p) s else s)"

fun strIndex :: "string \<Rightarrow> string \<Rightarrow> nat option" where
  "strIndex [] p = (if p = [] then Some 0 else None)"
| "strIndex (c # cs) p =
     (if hasPrefix (c # cs) p then Some 0 else map_option Suc (strIndex cs p))"

definition strContains :: "string \<Rightarrow> string \<Rightarrow> bool" where
  "strContains s p = (strIndex s p \<noteq> None)"

definition containsAny :: "string \<Rightarrow> string \<Rightarrow> bool" where
  "containsAny s chars = list_ex (\<lambda>c. c \<in> set chars) s"

fun splitBy :: "(char \<Rightarrow> bool) \<Rightarrow> string \<Rightarrow> string list" where
  "splitBy P [] = [[]]"
| "splitBy P (c # cs) =
     (if P c then [] # splitBy P cs
      else (case splitBy P cs of [] \<Rightarrow> [[c]] | w # ws \<Rightarrow> (c # w) # ws))"

definition strSplit :: "string \<Rightarrow> char \<Rightarrow> string list" where
  "strSplit s c = splitBy (\<lambda>x. x = c) s"

fun strJoin :: "string list \<Rightarrow> string \<Rightarrow> string" where
  "strJoin [] sep = []"
| "strJoin [w] sep = w"
| "strJoin (w # ws) sep = w @ sep @ strJoin ws sep"

text \<open>\<^verbatim>\<open>filepath.Join\<close>: the parts that are not empty, with a slash between, lexically cleaned.\<close>

definition cleanStep :: "bool \<Rightarrow> string list \<Rightarrow> string \<Rightarrow> string list" where
  "cleanStep rooted names c =
     (if c = '''' \<or> c = ''.'' then names
      else if c = ''..'' then
        (if names \<noteq> [] \<and> last names \<noteq> ''..'' then butlast names else if rooted then names else names @ [''..''])
      else names @ [c])"

definition filepathClean :: "string \<Rightarrow> string" where
  "filepathClean p =
     (let rooted = hasPrefix p ''/'';
          r = strJoin (foldl (cleanStep rooted) [] (strSplit p CHR ''/'')) ''/''
      in if rooted then ''/'' @ r else if r = '''' then ''.'' else r)"

definition filepathJoin :: "string list \<Rightarrow> string" where
  "filepathJoin ps =
     (case filter (\<lambda>p. p \<noteq> '''') ps of [] \<Rightarrow> '''' | qs \<Rightarrow> filepathClean (strJoin qs ''/''))"

text \<open>\<^verbatim>\<open>filepath.Dir\<close> and \<^verbatim>\<open>filepath.Base\<close>.\<close>

definition filepathDir :: "string \<Rightarrow> string" where
  "filepathDir p = filepathClean (rev (dropWhile (\<lambda>c. c \<noteq> CHR ''/'') (rev p)))"

definition filepathBase :: "string \<Rightarrow> string" where
  "filepathBase p =
     (if p = '''' then ''.''
      else let b = rev (takeWhile (\<lambda>c. c \<noteq> CHR ''/'') (dropWhile (\<lambda>c. c = CHR ''/'') (rev p)))
        in if b = '''' then ''/'' else b)"

text \<open>The name \<^verbatim>\<open>os.CreateTemp\<close> makes of a directory, what the pattern has before its star, and its random part.\<close>

definition createTempName :: "string \<Rightarrow> string \<Rightarrow> string \<Rightarrow> string" where
  "createTempName dir prefix rnd = (if hasSuffix dir ''/'' then dir else dir @ ''/'') @ prefix @ rnd"

definition isSpace :: "char \<Rightarrow> bool" where
  "isSpace c = (c \<in> {CHR 0x09, CHR 0x0A, CHR 0x0B, CHR 0x0C, CHR 0x0D, CHR 0x20})"

definition trimRightBy :: "(char \<Rightarrow> bool) \<Rightarrow> string \<Rightarrow> string" where
  "trimRightBy P s = rev (dropWhile P (rev s))"

definition trimBy :: "(char \<Rightarrow> bool) \<Rightarrow> string \<Rightarrow> string" where
  "trimBy P s = trimRightBy P (dropWhile P s)"

definition trimSpace :: "string \<Rightarrow> string" where
  "trimSpace s = trimBy isSpace s"

definition strFields :: "string \<Rightarrow> string list" where
  "strFields s = filter (\<lambda>w. w \<noteq> []) (splitBy isSpace s)"

text \<open>\<^verbatim>\<open>strings.Cut\<close> at the first separator.\<close>

definition strCut :: "string \<Rightarrow> char \<Rightarrow> string \<times> string \<times> bool" where
  "strCut t sep =
     (let i = length (takeWhile (\<lambda>c. c \<noteq> sep) t)
      in if i < length t then (take i t, drop (i + 1) t, True) else (t, '''', False))"

lemma hasPrefix_append [simp]: "hasPrefix (p @ s) p"
  by (simp add: hasPrefix_def)

lemma hasPrefix_Nil [simp]: "hasPrefix s []"
  by (simp add: hasPrefix_def)

lemma hasPrefix_iff: "hasPrefix s p \<longleftrightarrow> (\<exists>r. s = p @ r)"
  by (metis append_eq_conv_conj append_take_drop_id hasPrefix_def)

lemma trimPrefix_append [simp]: "trimPrefix (p @ s) p = s"
  by (simp add: trimPrefix_def)

lemma splitBy_not_Nil [simp]: "splitBy P s \<noteq> []"
  by (cases s) (auto split: list.splits)

lemma strSplit_not_Nil [simp]: "strSplit s c \<noteq> []"
  by (simp add: strSplit_def)

lemma splitBy_no_sep: "w \<in> set (splitBy P s) \<Longrightarrow> c \<in> set w \<Longrightarrow> \<not> P c"
proof (induction s arbitrary: w)
  case Nil
  then show ?case by simp
next
  case (Cons x xs)
  then show ?case by (fastforce split: if_splits list.splits)
qed

lemma splitBy_whole: "(\<forall>c \<in> set s. \<not> P c) \<Longrightarrow> splitBy P s = [s]"
  by (induction s) auto

lemma splitBy_append_sep:
  "P c \<Longrightarrow> splitBy P (s @ c # t) = splitBy P s @ splitBy P t"
proof (induction s)
  case Nil
  then show ?case by simp
next
  case (Cons x xs)
  then show ?case by (cases "splitBy P xs") (auto split: list.splits)
qed

lemma strSplit_append [simp]: "strSplit (s @ c # t) c = strSplit s c @ strSplit t c"
  by (simp add: strSplit_def splitBy_append_sep)

lemma strSplit_whole: "c \<notin> set s \<Longrightarrow> strSplit s c = [s]"
  by (auto simp: strSplit_def intro: splitBy_whole)

lemma strJoin_Cons: "ws \<noteq> [] \<Longrightarrow> strJoin (w # ws) sep = w @ sep @ strJoin ws sep"
  by (cases ws) auto

lemma strJoin_strSplit: "strJoin (strSplit s c) [c] = s"
proof -
  have "strJoin (splitBy (\<lambda>x. x = c) s) [c] = s"
  proof (induction s)
    case Nil
    then show ?case by simp
  next
    case (Cons x xs)
    then show ?case
      by (cases "splitBy (\<lambda>x. x = c) xs"; cases "tl (splitBy (\<lambda>x. x = c) xs)")
        (auto simp: strJoin_Cons)
  qed
  then show ?thesis by (simp add: strSplit_def)
qed

text \<open>A temporary file in the directory of a path, named after its last element, is not at the path itself.\<close>

lemma filepathBase_append:
  assumes "CHR ''/'' \<notin> set b" and "b \<noteq> ''''"
  shows "filepathBase (d @ ''/'' @ b) = b"
proof -
  obtain c r where r: "rev b = c # r" using assms(2) by (cases "rev b") auto
  have "dropWhile (\<lambda>c. c = CHR ''/'') (rev b @ ''/'' @ rev d) = rev b @ ''/'' @ rev d"
  proof -
    have "c \<noteq> CHR ''/''" using assms(1) r by (metis list.set_intros(1) set_rev)
    then show ?thesis by (simp add: r)
  qed
  moreover have "takeWhile (\<lambda>c. c \<noteq> CHR ''/'') (rev b @ ''/'' @ rev d) = rev b"
    using assms(1) by (subst takeWhile_append2) auto
  ultimately show ?thesis using assms(2) by (simp add: filepathBase_def Let_def)
qed

lemma createTempName_other:
  assumes "CHR ''/'' \<notin> set rnd"
  shows "createTempName (filepathDir p) (filepathBase p @ ''.'') rnd \<noteq> p"
proof
  let ?b = "filepathBase p"
  assume eq: "createTempName (filepathDir p) (?b @ ''.'') rnd = p"
  obtain d where d: "p = d @ ''/'' @ ?b @ ''.'' @ rnd"
  proof (cases "hasSuffix (filepathDir p) ''/''")
    case True
    then obtain r where "rev (filepathDir p) = ''/'' @ r" by (auto simp: hasSuffix_def hasPrefix_iff)
    then have "filepathDir p = rev r @ ''/''" by (simp add: rev_swap)
    with eq True that [of "rev r"] show ?thesis by (simp add: createTempName_def)
  next
    case False
    with eq that [of "filepathDir p"] show ?thesis by (simp add: createTempName_def)
  qed
  show False
  proof (cases "?b = ''/''")
    case True
    have "CHR ''.'' \<in> set p" by (subst d) simp
    then have drops: "dropWhile (\<lambda>c. c = CHR ''/'') (rev p) \<noteq> []" by (auto simp: dropWhile_eq_Nil_conv)
    let ?w = "takeWhile (\<lambda>c. c \<noteq> CHR ''/'') (dropWhile (\<lambda>c. c = CHR ''/'') (rev p))"
    have "hd (dropWhile (\<lambda>c. c = CHR ''/'') (rev p)) \<noteq> CHR ''/''" by (rule hd_dropWhile [OF drops])
    with drops have w: "?w \<noteq> []" unfolding takeWhile_eq_Nil_iff by blast
    from drops have "p \<noteq> []" by auto
    with w have "?b = rev ?w" by (simp only: filepathBase_def Let_def if_False rev_is_Nil_conv)
    with True have "CHR ''/'' \<in> set ?w" by (metis list.set_intros(1) set_rev)
    then show False by (auto dest: set_takeWhileD)
  next
    case False
    then have "?b = ''.'' \<or> (\<exists>w. ?b = rev (takeWhile (\<lambda>c. c \<noteq> CHR ''/'') w))"
      unfolding filepathBase_def Let_def by (metis (full_types))
    then have "CHR ''/'' \<notin> set ?b" by (auto dest: set_takeWhileD)
    with assms have "filepathBase (d @ ''/'' @ (?b @ ''.'' @ rnd)) = ?b @ ''.'' @ rnd"
      by (intro filepathBase_append) auto
    with d show False by (metis append_Cons append_Nil append_self_conv list.distinct(1))
  qed
qed

lemma strIndex_Some_append: "strIndex s p = Some i \<Longrightarrow> \<exists>r. s = take i s @ p @ r"
proof (induction s p arbitrary: i rule: strIndex.induct)
  case (1 p)
  then show ?case by (auto split: if_splits)
next
  case (2 c cs p)
  then show ?case by (fastforce simp: hasPrefix_iff split: if_splits)
qed

lemma strContains_infix: "strContains (a @ p @ b) p"
proof -
  have "strIndex (a @ p @ b) p \<noteq> None"
  proof (induction a)
    case Nil
    have "hasPrefix (p @ b) p" by simp
    then show ?case by (cases "p @ b") auto
  next
    case (Cons x xs)
    then show ?case by auto
  qed
  then show ?thesis by (simp add: strContains_def)
qed

lemma strContains_iff: "strContains s p \<longleftrightarrow> (\<exists>a b. s = a @ p @ b)"
  using strIndex_Some_append strContains_infix by (fastforce simp: strContains_def)

lemma strCut_found:
  assumes "sep \<notin> set a"
  shows "strCut (a @ sep # b) sep = (a, b, True)"
proof -
  have "takeWhile (\<lambda>c. c \<noteq> sep) (a @ sep # b) = a" using assms by (subst takeWhile_append2) auto
  then show ?thesis by (simp add: strCut_def Let_def)
qed

lemma strCut_missing:
  assumes "sep \<notin> set a"
  shows "strCut a sep = (a, [], False)"
proof -
  have "length (takeWhile (\<lambda>c. c \<noteq> sep) a) = length a"
    using assms by (subst takeWhile_eq_all_conv [THEN iffD2]) auto
  then show ?thesis by (simp add: strCut_def Let_def)
qed

section \<open>Decimal numbers and 64-bit integers\<close>

definition digit_char :: "nat \<Rightarrow> char" where
  "digit_char d = char_of (48 + d)"

fun digits_of :: "nat \<Rightarrow> string" where
  "digits_of n =
     (if n < 10 then [digit_char n] else digits_of (n div 10) @ [digit_char (n mod 10)])"

declare digits_of.simps [simp del]

definition itoa :: "int \<Rightarrow> string" where
  "itoa i = (if i < 0 then CHR ''-'' # digits_of (nat (- i)) else digits_of (nat i))"

definition isDigit :: "char \<Rightarrow> bool" where
  "isDigit c = (48 \<le> (of_char c :: nat) \<and> (of_char c :: nat) \<le> 57)"

fun parse_digits :: "nat \<Rightarrow> string \<Rightarrow> nat option" where
  "parse_digits acc [] = Some acc"
| "parse_digits acc (c # cs) =
     (if isDigit c then parse_digits (acc * 10 + (of_char c - 48)) cs else None)"

definition in_int64 :: "int \<Rightarrow> bool" where
  "in_int64 i = (- (2 ^ 63) \<le> i \<and> i < 2 ^ 63)"

definition wrap64 :: "int \<Rightarrow> int" where
  "wrap64 x = (x + 2 ^ 63) mod 2 ^ 64 - 2 ^ 63"

text \<open>\<^verbatim>\<open>strconv.Atoi\<close>: an optional sign, at least one digit, nothing else, 64-bit range.\<close>

definition atoi :: "string \<Rightarrow> int option" where
  "atoi s =
     (let neg = (case s of c # _ \<Rightarrow> c = CHR ''-'' | [] \<Rightarrow> False);
          body = (case s of c # cs \<Rightarrow> (if c = CHR ''-'' \<or> c = CHR ''+'' then cs else s) | [] \<Rightarrow> [])
      in if body = [] then None
         else (case parse_digits 0 body of
             None \<Rightarrow> None
           | Some n \<Rightarrow>
               (let v = (if neg then - int n else int n)
                in if in_int64 v then Some v else None)))"

lemma of_char_digit_char [simp]: "d < 10 \<Longrightarrow> (of_char (digit_char d) :: nat) = 48 + d"
  by (simp add: digit_char_def)

lemma isDigit_digit_char [simp]: "d < 10 \<Longrightarrow> isDigit (digit_char d)"
  by (simp add: isDigit_def)

lemma digits_of_not_Nil [simp]: "digits_of n \<noteq> []"
  by (subst digits_of.simps) simp

lemma digits_of_digits: "c \<in> set (digits_of n) \<Longrightarrow> isDigit c"
proof (induction n rule: digits_of.induct)
  case (1 n)
  show ?case
  proof (cases "n < 10")
    case True
    with "1.prems" show ?thesis by (simp add: digits_of.simps [of n])
  next
    case False
    with "1" show ?thesis by (auto simp: digits_of.simps [of n])
  qed
qed

lemma parse_digits_append:
  "parse_digits acc (xs @ ys) =
     (case parse_digits acc xs of None \<Rightarrow> None | Some a \<Rightarrow> parse_digits a ys)"
  by (induction acc xs rule: parse_digits.induct) auto

lemma parse_digits_of: "parse_digits 0 (digits_of n) = Some n"
proof (induction n rule: digits_of.induct)
  case (1 n)
  show ?case
  proof (cases "n < 10")
    case True
    then show ?thesis by (simp add: digits_of.simps [of n])
  next
    case False
    with "1" show ?thesis by (simp add: digits_of.simps [of n] parse_digits_append)
  qed
qed

lemma isDigit_not_sign: "isDigit c \<Longrightarrow> c \<noteq> CHR ''-'' \<and> c \<noteq> CHR ''+''"
  by (auto simp: isDigit_def)

lemma hd_digits_of: "digits_of n = c # cs \<Longrightarrow> c \<noteq> CHR ''-'' \<and> c \<noteq> CHR ''+''"
  by (metis digits_of_digits isDigit_not_sign list.set_intros(1))

lemma atoi_itoa: "in_int64 i \<Longrightarrow> atoi (itoa i) = Some i"
proof (cases "i < 0")
  case True
  assume "in_int64 i"
  with True show ?thesis
    by (simp add: itoa_def atoi_def parse_digits_of)
next
  case False
  assume r: "in_int64 i"
  obtain c cs where d: "digits_of (nat i) = c # cs"
    by (cases "digits_of (nat i)") auto
  from False r show ?thesis
    using hd_digits_of [OF d] parse_digits_of [of "nat i"]
    by (simp add: itoa_def atoi_def d)
qed

lemma itoa_inject: "in_int64 i \<Longrightarrow> in_int64 j \<Longrightarrow> itoa i = itoa j \<longleftrightarrow> i = j"
  by (metis atoi_itoa option.inject)

lemma wrap64_id: "in_int64 x \<Longrightarrow> wrap64 x = x"
  by (simp add: wrap64_def in_int64_def)

lemma wrap64_range: "in_int64 (wrap64 x)"
proof -
  have "0 \<le> (x + 2 ^ 63) mod 2 ^ 64" and "(x + 2 ^ 63) mod 2 ^ 64 < (2 ^ 64 :: int)"
    by simp_all
  then show ?thesis by (simp add: wrap64_def in_int64_def)
qed

section \<open>Time\<close>

text \<open>
  A \<^verbatim>\<open>time.Time\<close> counts nanoseconds since Go's zero time; a \<^verbatim>\<open>time.Duration\<close> is an int64 of
  nanoseconds. \<^verbatim>\<open>Time.Sub\<close> saturates.
\<close>

type_synonym gotime = int
type_synonym duration = int

definition nanosecond :: duration where "nanosecond = 1"
definition second :: duration where "second = 1000000000"
definition minute :: duration where "minute = 60 * second"
definition hour :: duration where "hour = 60 * minute"

lemmas time_units = nanosecond_def hour_def minute_def second_def

definition time_sub :: "gotime \<Rightarrow> gotime \<Rightarrow> duration" where
  "time_sub a b = max (- (2 ^ 63)) (min (2 ^ 63 - 1) (a - b))"

section \<open>Loaded data\<close>

text \<open>
  A value of Go type \<^verbatim>\<open>interface{}\<close> as the YAML and JSON decoders build it. A float is kept as
  its bit pattern, since nothing here computes with it; \<open>GOther\<close> is a value of any other Go
  type (a map with keys that are not strings, a date), known by its type name.
\<close>

datatype gv =
    GNull
  | GBool bool
  | GInt int
  | GFloat nat
  | GStr string
  | GMap "(string \<times> gv) list"
  | GArr "gv list"
  | GOther string

text \<open>
  Lines as \<^verbatim>\<open>bufio.Scanner\<close> delivers them: split at newlines, one trailing carriage return
  dropped, no empty last line, and an error at the first line that does not fit into the
  64 KiB buffer.
\<close>

definition maxScanTokenSize :: nat where "maxScanTokenSize = 65536"

definition dropCR :: "string \<Rightarrow> string" where
  "dropCR l = trimSuffix l [CHR 0x0D]"

definition raw_lines :: "string \<Rightarrow> string list" where
  "raw_lines s = (let ls = strSplit s NL in if last ls = [] then butlast ls else ls)"

definition scanLines :: "string \<Rightarrow> string list \<times> string option" where
  "scanLines s =
     (let ls = raw_lines s;
          ok = takeWhile (\<lambda>l. length l < maxScanTokenSize) ls
      in (map dropCR ok,
          if length ok < length ls then Some ''bufio.Scanner: token too long'' else None))"

section \<open>Sorted names\<close>

text \<open>\<^verbatim>\<open>sort.Strings\<close> is \<open>sort\<close> over the byte-wise order of strings.\<close>

lemma sort_keys_distinct: "gm_ok m \<Longrightarrow> distinct (sort (gm_keys m))"
  by simp

lemma filter_partition_length:
  "length (filter P xs) + length (filter (\<lambda>x. \<not> P x) xs) = length xs"
  by (rule sum_length_filter_compl)

end
