(* ===== verification/Query_Engine.thy ===== *)
theory Query_Engine
  imports Go_Prelude
begin

text \<open>
  The query engine, \<^verbatim>\<open>query/query.go\<close> and \<^verbatim>\<open>query/functions.go\<close>: the functions and data a
  filter expression sees, running it, and turning its value into a boolean.

  The zygomys interpreter and the regular expression engine are not part of the repository.
  They are the fields of the record \<open>zygo\<close>, an argument of every definition that uses them.
\<close>

section \<open>The interpreter as a parameter\<close>

text \<open>\<open>SexpGoNil\<close> is the Go nil interface, \<open>SexpOther\<close> a value the code never looks into.\<close>

datatype sexp =
    SexpBool bool
  | SexpStr string
  | SexpInt int
  | SexpFloat nat
  | SexpHash "(string \<times> sexp) list"
  | SexpArray "sexp list"
  | SexpSentinel
  | SexpOther string
  | SexpGoNil

type_synonym userfn = "sexp list \<Rightarrow> sexp outcome"

text \<open>
  A sandbox is the library packages imported into it and the functions added to it. \<open>z_load\<close> is
  \<^verbatim>\<open>LoadString\<close> in a sandbox, its result the error if there is one. \<open>z_run\<close> is \<^verbatim>\<open>Run\<close> with the global
  \<^verbatim>\<open>node\<close>: how often the pre-hook fired, and the outcome. \<open>z_typename\<close> renders \<^verbatim>\<open>%T\<close>, \<open>z_fmtv\<close> renders
  \<^verbatim>\<open>%+v\<close>. The random package makes a run depend on the numbers it draws: a \<open>zygo\<close> is the
  interpreter with the draws of one evaluation, and where several evaluations are compared each may
  have one of its own.
\<close>

datatype package = RegexPackage | RandomPackage

record sandbox =
  sb_imports :: "package list"
  sb_functions :: "(string \<times> userfn) list"

record zygo =
  z_goToSexp :: "gv \<Rightarrow> sexp \<times> string option"
  z_load :: "sandbox \<Rightarrow> string \<Rightarrow> string option"
  z_run :: "sandbox \<Rightarrow> sexp \<Rightarrow> string \<Rightarrow> nat \<times> sexp outcome"
  z_show :: "sexp \<Rightarrow> string"
  z_typename :: "sexp \<Rightarrow> string"
  z_fmtv :: "sexp list \<Rightarrow> string"
  z_regexp :: "string \<Rightarrow> string \<Rightarrow> string + bool"
  z_wrongNargs :: string
  z_builtins :: "string list"

section \<open>Errors\<close>

datatype query_err =
    FuzzyFirst string string
  | FuzzySecond string string
  | RegexpCompile string string
  | FuzzyUnsupported string
  | WrongArgument string string
  | EmptyPath string
  | Conversion string string
  | QueryParse string string
  | QueryIterations string nat
  | QueryRun string string
  | NotBoolean string string

fun query_errText :: "query_err \<Rightarrow> string" where
  "query_errText (FuzzyFirst name t) = name @ '' accepts string/int as first argument, not '' @ t"
| "query_errText (FuzzySecond name t) = name @ '' accepts string as second argument, not '' @ t"
| "query_errText (RegexpCompile re er) = ''compiling regexp ['' @ re @ ''] failed: '' @ er"
| "query_errText (FuzzyUnsupported name) = name @ '' is not a supported function''"
| "query_errText (WrongArgument t args) = ''wrong argument type '' @ t @ '' in the list '' @ args"
| "query_errText (EmptyPath args) = ''resulting parse got 0 elements: '' @ args"
| "query_errText (Conversion out er) = ''error converting ['' @ out @ ''] to Sexp: '' @ er"
| "query_errText (QueryParse q er) = ''error parsing query ['' @ q @ '']: '' @ er"
| "query_errText (QueryIterations q n) =
     ''query ['' @ q @ '']: iterations limit exceeded: '' @ itoa (int n)"
| "query_errText (QueryRun q er) = ''error running query ['' @ q @ '']: '' @ er"
| "query_errText (NotBoolean v t) =
     ''query return type '' @ v @ ''['' @ t
       @ ''] not supported, make your query return bool (or string/int > 0)''"

declare query_errText.simps [simp del]

section \<open>Functions available in a query\<close>

definition fuzzyArg1 :: "sexp \<Rightarrow> string option" where
  "fuzzyArg1 a = (case a of SexpInt v \<Rightarrow> Some (itoa v) | SexpStr s \<Rightarrow> Some s | _ \<Rightarrow> None)"

definition FuzzyCompareFunction :: "zygo \<Rightarrow> string \<Rightarrow> userfn" where
  "FuzzyCompareFunction z name args =
     (case args of
        [a1, a2] \<Rightarrow>
          (case fuzzyArg1 a1 of
             None \<Rightarrow> Fail (query_errText (FuzzyFirst name (z_typename z a1)))
           | Some arg1 \<Rightarrow>
             (case a2 of
                SexpStr arg2 \<Rightarrow>
                  if name = ''regexp'' \<or> name = ''regex'' then
                    (case z_regexp z arg2 arg1 of
                       Inl er \<Rightarrow> Fail (query_errText (RegexpCompile arg2 er))
                     | Inr b \<Rightarrow> Ret (SexpBool b))
                  else Fail (query_errText (FuzzyUnsupported name))
              | _ \<Rightarrow> Fail (query_errText (FuzzySecond name (z_typename z a2)))))
      | _ \<Rightarrow> Fail (z_wrongNargs z))"

text \<open>
  Walking a hash along a path. The bounds test adds one to the index in 64-bit arithmetic, and
  reading a slice past its end panics.
\<close>

fun traverseHash :: "string list \<Rightarrow> gv \<Rightarrow> gv outcome" where
  "traverseHash [] root = Ret root"
| "traverseHash (arg # args) root =
     (case root of
        GMap m \<Rightarrow>
          (case gm_get m arg of
             Some v \<Rightarrow> traverseHash args v
           | None \<Rightarrow> Ret GNull)
      | GArr v \<Rightarrow>
          (case atoi arg of
             None \<Rightarrow> Ret GNull
           | Some iarg \<Rightarrow>
               if iarg < 0 \<or> wrap64 (iarg + 1) > int (length v) then Ret GNull
               else if iarg \<ge> int (length v) then Panic
               else if args = [] then Ret (v ! nat iarg)
               else traverseHash args (v ! nat iarg))
      | _ \<Rightarrow> Ret GNull)"

fun sexpArrToStr :: "zygo \<Rightarrow> sexp list \<Rightarrow> string list" where
  "sexpArrToStr z vals =
     concat (map (\<lambda>arg. case arg of
         SexpArray v \<Rightarrow> sexpArrToStr z v
       | SexpStr s \<Rightarrow> [s]
       | SexpInt i \<Rightarrow> [itoa i]
       | _ \<Rightarrow> [''wrong type '' @ z_typename z arg @ '' in input '' @ z_fmtv z vals]) vals)"

declare sexpArrToStr.simps [simp del]

text \<open>The path loop of \<^verbatim>\<open>HashGet\<close>: \<open>all\<close> is the whole argument list, for the message.\<close>

fun hashPath :: "zygo \<Rightarrow> sexp list \<Rightarrow> sexp list \<Rightarrow> string list outcome" where
  "hashPath z all [] = Ret []"
| "hashPath z all (arg # args) =
     (case arg of
        SexpStr s \<Rightarrow> outcome_bind (hashPath z all args) (\<lambda>p. Ret (s # p))
      | SexpArray v \<Rightarrow> outcome_bind (hashPath z all args) (\<lambda>p. Ret (sexpArrToStr z v @ p))
      | SexpInt i \<Rightarrow> outcome_bind (hashPath z all args) (\<lambda>p. Ret (itoa i # p))
      | _ \<Rightarrow> Fail (query_errText (WrongArgument (z_typename z arg) (z_fmtv z all))))"

definition hashValue :: "zygo \<Rightarrow> gv \<Rightarrow> sexp outcome" where
  "hashValue z val =
     (case z_goToSexp z val of
        (out, Some er) \<Rightarrow> Fail (query_errText (Conversion (z_fmtv z [out]) er))
      | (out, None) \<Rightarrow> Ret out)"

definition HashGet :: "zygo \<Rightarrow> gv gomap \<Rightarrow> userfn" where
  "HashGet z hash args =
     (if args = [] then Fail (z_wrongNargs z)
      else outcome_bind (hashPath z args args) (\<lambda>path.
        if path = [] then Fail (query_errText (EmptyPath (z_fmtv z args)))
        else outcome_bind (traverseHash path (GMap hash)) (hashValue z)))"

definition zygoSpecialForms :: "string list" where
  "zygoSpecialForms = [''and'', ''or'', ''cond'', ''let'', ''begin'']"

definition Completions :: "zygo \<Rightarrow> string list" where
  "Completions z = sort (z_builtins z @ zygoSpecialForms @ [''regexp'', ''regex'', ''node''])"

section \<open>The engine\<close>

text \<open>
  A \<^verbatim>\<open>MapGetter\<close> is a reference to data that its owner reloads: here a function of the owner's
  state \<open>'s\<close>, applied when a query runs.
\<close>

record 's engine =
  e_nodeMeta :: "gv gomap"
  e_dataMap :: "('s \<Rightarrow> gv gomap) gomap"

definition NewQueryEngine :: "gv gomap \<Rightarrow> 's engine" where
  "NewQueryEngine nodeMeta = \<lparr>e_nodeMeta = nodeMeta, e_dataMap = []\<rparr>"

definition RegisterMap :: "string \<Rightarrow> ('s \<Rightarrow> gv gomap) \<Rightarrow> 's engine \<Rightarrow> 's engine" where
  "RegisterMap name m e = e\<lparr>e_dataMap := gm_put name m (e_dataMap e)\<rparr>"

definition DataMaps :: "'s engine \<Rightarrow> string list" where
  "DataMaps e = sort (gm_keys (e_dataMap e))"

record query_result =
  res_Bool :: bool
  res_Boolish :: bool
  res_Type :: string
  res_Display :: string
  res_raw :: sexp

definition newSandbox :: "zygo \<Rightarrow> 's engine \<Rightarrow> 's \<Rightarrow> sandbox" where
  "newSandbox z e s =
     \<lparr>sb_imports = [RegexPackage, RandomPackage],
      sb_functions =
        [(''regex'', FuzzyCompareFunction z ''regex''), (''regexp'', FuzzyCompareFunction z ''regexp'')]
        @ map (\<lambda>(n, m). (n, HashGet z (m s))) (e_dataMap e)\<rparr>"

definition newResult :: "zygo \<Rightarrow> sexp \<Rightarrow> query_result" where
  "newResult z expr =
     (let r = \<lparr>res_Bool = False, res_Boolish = False, res_Type = '''',
               res_Display = (if expr = SexpGoNil then '''' else z_show z expr), res_raw = expr\<rparr>
      in case expr of
           SexpBool v \<Rightarrow> r\<lparr>res_Type := ''bool'', res_Boolish := True, res_Bool := v\<rparr>
         | SexpStr v \<Rightarrow> r\<lparr>res_Type := ''string'', res_Boolish := True, res_Bool := (length v > 0)\<rparr>
         | SexpInt v \<Rightarrow> r\<lparr>res_Type := ''int'', res_Boolish := True, res_Bool := (v > 0)\<rparr>
         | SexpFloat v \<Rightarrow> r\<lparr>res_Type := ''float''\<rparr>
         | SexpHash v \<Rightarrow> r\<lparr>res_Type := ''hash''\<rparr>
         | SexpArray v \<Rightarrow> r\<lparr>res_Type := ''array''\<rparr>
         | SexpSentinel \<Rightarrow> r\<lparr>res_Type := ''nil''\<rparr>
         | _ \<Rightarrow> r\<lparr>res_Type := z_typename z expr\<rparr>)"

text \<open>
  A panic inside a query function leaves \<^verbatim>\<open>Run\<close> before the iteration count is looked at.
\<close>

definition engine_Parse :: "zygo \<Rightarrow> 's engine \<Rightarrow> 's \<Rightarrow> string \<Rightarrow> query_result outcome" where
  "engine_Parse z e s q =
     (let zg = newSandbox z e s in
      case z_goToSexp z (GMap (e_nodeMeta e)) of
        (_, Some er) \<Rightarrow> Fail er
      | (vars, None) \<Rightarrow>
        (case z_load z zg q of
           Some er \<Rightarrow> Fail (query_errText (QueryParse q er))
         | None \<Rightarrow>
           (case z_run z zg vars q of
              (_, Panic) \<Rightarrow> Panic
            | (iters, r) \<Rightarrow>
                if iters \<ge> 1000 then
                  Fail (query_errText (QueryIterations q iters))
                else (case r of
                    Fail er \<Rightarrow> Fail (query_errText (QueryRun q er))
                  | Ret expr \<Rightarrow> Ret (newResult z expr)
                  | Panic \<Rightarrow> Panic))))"

definition engine_ParseBool :: "zygo \<Rightarrow> 's engine \<Rightarrow> 's \<Rightarrow> string \<Rightarrow> bool outcome" where
  "engine_ParseBool z e s q =
     outcome_bind (engine_Parse z e s q) (\<lambda>res.
       if \<not> res_Boolish res then
         Fail (query_errText (NotBoolean (z_fmtv z [res_raw res]) (z_typename z (res_raw res))))
       else Ret (res_Bool res))"

definition CheckSyntax :: "zygo \<Rightarrow> string \<Rightarrow> string option" where
  "CheckSyntax z q =
     (case z_load z \<lparr>sb_imports = [RegexPackage, RandomPackage], sb_functions = []\<rparr> q of
        Some er \<Rightarrow> Some (query_errText (QueryParse q er))
      | None \<Rightarrow> None)"

section \<open>Lemmas\<close>

subsection \<open>Paths\<close>

lemma traverseHash_GNull [simp]: "traverseHash args GNull = Ret GNull"
  by (cases args) auto

text \<open>A path may be cut anywhere: the lookup of a concatenation is the lookup of its parts.\<close>

lemma traverseHash_append:
  "traverseHash (p @ q) root = outcome_bind (traverseHash p root) (traverseHash q)"
  by (induction p root rule: traverseHash.induct)
    (auto simp: Let_def split: gv.splits option.splits)

lemma atoi_in_int64: "atoi s = Some i \<Longrightarrow> in_int64 i"
  by (auto simp: atoi_def Let_def split: if_splits option.splits)

lemma wrap64_succ:
  "in_int64 i \<Longrightarrow> wrap64 (i + 1) = (if i = 2 ^ 63 - 1 then - (2 ^ 63) else i + 1)"
  by (auto simp: wrap64_def in_int64_def)

text \<open>The index test is the intended one except at the largest 64-bit integer.\<close>

lemma index_test:
  assumes "atoi arg = Some i" and "i \<noteq> 2 ^ 63 - 1"
  shows "wrap64 (i + 1) > int n \<longleftrightarrow> i \<ge> int n"
  using wrap64_succ [OF atoi_in_int64 [OF assms(1)]] assms(2) by auto

lemma traverseHash_Panic_index:
  "traverseHash args root = Panic \<Longrightarrow> \<exists>arg \<in> set args. atoi arg = Some (2 ^ 63 - 1)"
proof (induction args root rule: traverseHash.induct)
  case (1 root)
  then show ?case by simp
next
  case (2 arg args root)
  then show ?case
    by (fastforce simp: index_test split: gv.splits option.splits if_splits)
qed

subsection \<open>Arguments\<close>

lemma hashPath_strings [simp]: "hashPath z all (map SexpStr path) = Ret path"
  by (induction path) auto

lemma HashGet_strings:
  assumes "path \<noteq> []"
  shows "HashGet z hash (map SexpStr path) =
     outcome_bind (traverseHash path (GMap hash)) (hashValue z)"
  using assms by (simp add: HashGet_def)

subsection \<open>From a value to a boolean\<close>

text \<open>What counts as a boolean, and which values count as true.\<close>

fun truth :: "sexp \<Rightarrow> bool option" where
  "truth (SexpBool b) = Some b"
| "truth (SexpStr s) = Some (s \<noteq> [])"
| "truth (SexpInt i) = Some (0 < i)"
| "truth _ = None"

lemma newResult_truth:
  "res_Boolish (newResult z x) \<longleftrightarrow> truth x \<noteq> None"
  "truth x = Some b \<Longrightarrow> res_Bool (newResult z x) = b"
  "truth x = None \<Longrightarrow> \<not> res_Bool (newResult z x)"
  by (cases x; simp add: newResult_def)+

lemma newResult_raw [simp]: "res_raw (newResult z x) = x"
  by (cases x) (simp_all add: newResult_def)

lemma engine_Parse_Ret_iff:
  "engine_Parse z e s q = Ret r \<longleftrightarrow>
     (\<exists>vars iters x. z_goToSexp z (GMap (e_nodeMeta e)) = (vars, None)
        \<and> z_load z (newSandbox z e s) q = None
        \<and> z_run z (newSandbox z e s) vars q = (iters, Ret x)
        \<and> iters < 1000 \<and> r = newResult z x)"
  by (auto simp: engine_Parse_def Let_def split: prod.splits option.splits outcome.splits)

lemma engine_ParseBool_Ret_iff:
  "engine_ParseBool z e s q = Ret b \<longleftrightarrow>
     (\<exists>r. engine_Parse z e s q = Ret r \<and> res_Boolish r \<and> res_Bool r = b)"
  by (auto simp: engine_ParseBool_def outcome_bind_Ret_iff)

lemma newResult_decides:
  "res_Boolish (newResult z x) \<and> res_Bool (newResult z x) = b \<longleftrightarrow> truth x = Some b"
  using newResult_truth [where x = x and z = z] by (cases "truth x") auto

lemma engine_Parse_display: "engine_Parse z e s q = Ret r \<Longrightarrow> \<not> res_Boolish r \<Longrightarrow> \<not> res_Bool r"
  by (auto simp: engine_Parse_Ret_iff newResult_truth)

section \<open>A concrete interpreter\<close>

text \<open>
  An instance of the parameter, for the examples: it knows the programs \<^verbatim>\<open>true\<close>, \<^verbatim>\<open>false\<close> and
  \<^verbatim>\<open>(class "a")\<close>, which it runs with the function the sandbox registered.
\<close>

definition classProgram :: string where
  "classProgram = ''(class '' @ [QUOTE] @ ''a'' @ [QUOTE] @ '')''"

definition plainZygo :: zygo where
  "plainZygo =
     \<lparr>z_goToSexp = (\<lambda>v. (case v of GBool b \<Rightarrow> SexpBool b | GStr s \<Rightarrow> SexpStr s | _ \<Rightarrow> SexpSentinel, None)),
      z_load = (\<lambda>zg q. None),
      z_run = (\<lambda>zg vars q. (3,
        if q = ''true'' then Ret (SexpBool True)
        else if q = ''false'' then Ret (SexpBool False)
        else if q = classProgram then
          (case map_of (sb_functions zg) ''class'' of Some f \<Rightarrow> f [SexpStr ''a''] | None \<Rightarrow> Fail ''undefined'')
        else Fail ''undefined'')),
      z_show = (\<lambda>x. ''''), z_typename = (\<lambda>x. ''''), z_fmtv = (\<lambda>xs. ''''),
      z_regexp = (\<lambda>re s. Inr (re = s)), z_wrongNargs = ''wrong number of arguments'',
      z_builtins = []\<rparr>"

section \<open>Properties\<close>

text \<open>
  A filter decides yes or no exactly when the program parses, runs in fewer than 1000
  interpreter steps and ends in a boolean, a string or an integer; true is \<^verbatim>\<open>true\<close>, a non-empty
  string or a positive integer.
\<close>

theorem ParseBool_iff:
  "engine_ParseBool z e s q = Ret b \<longleftrightarrow>
     (\<exists>vars iters x. z_goToSexp z (GMap (e_nodeMeta e)) = (vars, None)
        \<and> z_load z (newSandbox z e s) q = None
        \<and> z_run z (newSandbox z e s) vars q = (iters, Ret x)
        \<and> iters < 1000 \<and> truth x = Some b)"
  by (auto simp: engine_ParseBool_Ret_iff engine_Parse_Ret_iff simp flip: newResult_decides [of z])

text \<open>
  C35: Looking a path up in the loaded data never crashes, unless a path segment is the
  decimal of the largest 64-bit integer.
\<close>

theorem HashGet_no_panic:
  assumes "path \<noteq> []" and "\<forall>seg \<in> set path. atoi seg \<noteq> Some (2 ^ 63 - 1)"
  shows "HashGet z hash (map SexpStr path) \<noteq> Panic"
proof
  assume "HashGet z hash (map SexpStr path) = Panic"
  then have "traverseHash path (GMap hash) = Panic"
    by (cases "traverseHash path (GMap hash)")
      (auto simp: HashGet_strings [OF assms(1)] hashValue_def split: prod.splits option.splits)
  with assms(2) show False using traverseHash_Panic_index by blast
qed

theorem HashGet_no_panic_witness:
  "HashGet plainZygo [(''os'', GMap [(''family'', GStr ''Debian'')])] (map SexpStr [''os'', ''family'']) \<noteq> Panic"
  by (rule HashGet_no_panic) (simp_all add: atoi_def isDigit_def)

end
