(* ===== verification/Puppet_Data.thy ===== *)
theory Puppet_Data
  imports Query_Engine
begin

text \<open>
  The puppet state a node holds: facts (\<^verbatim>\<open>plugin/puppet/facts.go\<close>), classes (\<^verbatim>\<open>classes.go\<close>), the
  last run summary (\<^verbatim>\<open>lastrun-schema.go\<close>), snapshots of them with the wire types
  (\<^verbatim>\<open>snapshot.go\<close>) and the offline query harness (\<^verbatim>\<open>query-harness.go\<close>).

  The files, and the YAML and JSON decoders, which are not part of the repository, are the
  fields of the record \<open>files\<close>.
\<close>

section \<open>Data\<close>

record LastRunVersion =
  lv_Config :: string
  lv_Puppet :: string

record LastRunTiming =
  lt_Duration :: "nat gomap"
  lt_LastRun :: int

record LastRunResources =
  lr_Changed :: int
  lr_CorrectiveChange :: int
  lr_Failed :: int
  lr_FailedToTestart :: int
  lr_OutOfSync :: int
  lr_Restarted :: int
  lr_Scheduled :: int
  lr_Skipped :: int
  lr_Total :: int

record LastRunEvents =
  le_Failure :: int
  le_Success :: int
  le_Total :: int

record LastRunSummary =
  lrs_Version :: LastRunVersion
  lrs_Timing :: LastRunTiming
  lrs_Resources :: LastRunResources
  lrs_Events :: LastRunEvents

definition zeroSummary :: LastRunSummary where
  "zeroSummary =
     \<lparr>lrs_Version = \<lparr>lv_Config = '''', lv_Puppet = ''''\<rparr>,
      lrs_Timing = \<lparr>lt_Duration = [], lt_LastRun = 0\<rparr>,
      lrs_Resources = \<lparr>lr_Changed = 0, lr_CorrectiveChange = 0, lr_Failed = 0,
        lr_FailedToTestart = 0, lr_OutOfSync = 0, lr_Restarted = 0, lr_Scheduled = 0,
        lr_Skipped = 0, lr_Total = 0\<rparr>,
      lrs_Events = \<lparr>le_Failure = 0, le_Success = 0, le_Total = 0\<rparr>\<rparr>"

record Facts =
  fa_facts :: "gv gomap"
  fa_path :: string

record Classes =
  cl_classes :: "gv gomap"
  cl_path :: string

text \<open>A nil map or slice is \<open>None\<close>; reading it is reading an empty one.\<close>

record Snapshot =
  sn_FQDN :: string
  sn_TS :: gotime
  sn_Source :: string
  sn_Facts :: "gv gomap option"
  sn_Classes :: "string list option"
  sn_LastRunSummary :: "LastRunSummary option"

definition or_empty :: "'a list option \<Rightarrow> 'a list" where
  "or_empty m = (case m of None \<Rightarrow> [] | Some x \<Rightarrow> x)"

lemma or_empty_simps [simp]: "or_empty None = []" "or_empty (Some xs) = xs"
  by (simp_all add: or_empty_def)

text \<open>
  \<open>f_open\<close> opens and reads a file. \<open>f_yaml\<close>, \<open>f_lastrun\<close> and \<open>f_snapshot\<close> decode its content,
  the left side of a sum being the error.
\<close>

record files =
  f_open :: "string \<Rightarrow> string + string"
  f_yaml :: "string \<Rightarrow> string + gv gomap"
  f_lastrun :: "string \<Rightarrow> string + LastRunSummary"
  f_snapshot :: "string \<Rightarrow> string + Snapshot"
  f_mtime :: "string \<Rightarrow> gotime option"

section \<open>Errors\<close>

datatype data_err =
    FactNoPath
  | FactOpen string string
  | FactParse string string
  | FactEmpty string
  | ClassNoPath
  | ClassOpen string string
  | ClassRead string string
  | ClassEmpty string
  | SummaryParse string
  | HarnessFacts string
  | HarnessNoFacts
  | HarnessClasses string
  | HarnessSummaryOpen string
  | HarnessSummaryParse string
  | SnapshotNoPath
  | SnapshotRead string
  | SnapshotParse string string
  | SnapshotEmpty string
  | SaveEncode string
  | SaveIO string
  | SavePermissions string

fun data_errText :: "data_err \<Rightarrow> string" where
  "data_errText FactNoPath = ''no fact file path, facts were loaded from memory''"
| "data_errText (FactOpen p er) = ''error opening fact file ['' @ p @ '']: '' @ er"
| "data_errText (FactParse p er) = ''error parsing fact file ['' @ p @ '']: '' @ er"
| "data_errText (FactEmpty p) = ''got empty fact YAML after decoding ['' @ p @ '']''"
| "data_errText ClassNoPath = ''no classfile path, classes were loaded from memory''"
| "data_errText (ClassOpen p er) = ''error opening classfile ['' @ p @ '']: '' @ er"
| "data_errText (ClassRead p er) = ''error reading classfile ['' @ p @ '']: '' @ er"
| "data_errText (ClassEmpty p) = ''got no classes after parsing classfile ['' @ p @ '']''"
| "data_errText (SummaryParse er) = ''error parsing puppet summary: '' @ er"
| "data_errText (HarnessFacts er) = ''error loading facts: '' @ er"
| "data_errText HarnessNoFacts = ''need either fact file path or fact data''"
| "data_errText (HarnessClasses er) = ''error loading classes: '' @ er"
| "data_errText (HarnessSummaryOpen er) = ''error opening last run summary: '' @ er"
| "data_errText (HarnessSummaryParse er) = ''error parsing last run summary: '' @ er"
| "data_errText SnapshotNoPath = ''fact file path is required''"
| "data_errText (SnapshotRead er) = ''error reading snapshot: '' @ er"
| "data_errText (SnapshotParse p er) = ''error parsing snapshot ['' @ p @ '']: '' @ er"
| "data_errText (SnapshotEmpty p) = ''snapshot ['' @ p @ ''] has neither facts nor classes''"
| "data_errText (SaveEncode er) = ''error encoding snapshot: '' @ er"
| "data_errText (SaveIO er) = ''error saving snapshot: '' @ er"
| "data_errText (SavePermissions er) = ''error setting snapshot permissions: '' @ er"

declare data_errText.simps [simp del]

section \<open>Facts\<close>

definition UpdateFacts :: "files \<Rightarrow> Facts \<Rightarrow> Facts \<times> string option" where
  "UpdateFacts fs f =
     (if fa_path f = [] then (f, Some (data_errText FactNoPath))
      else case f_open fs (fa_path f) of
        Inl er \<Rightarrow> (f, Some (data_errText (FactOpen (fa_path f) er)))
      | Inr content \<Rightarrow>
        (case f_yaml fs content of
           Inl er \<Rightarrow> (f, Some (data_errText (FactParse (fa_path f) er)))
         | Inr facts \<Rightarrow>
             if facts = [] then
               (f, Some (data_errText (FactEmpty (fa_path f))))
             else (f\<lparr>fa_facts := facts\<rparr>, None)))"

definition LoadFacts :: "files \<Rightarrow> string \<Rightarrow> Facts \<times> string option" where
  "LoadFacts fs path = UpdateFacts fs \<lparr>fa_facts = [], fa_path = path\<rparr>"

definition NewFactsFromMap :: "gv gomap option \<Rightarrow> Facts" where
  "NewFactsFromMap m = \<lparr>fa_facts = or_empty m, fa_path = ''''\<rparr>"

definition Facts_Map :: "Facts \<Rightarrow> gv gomap" where
  "Facts_Map f = fa_facts f"

section \<open>Classes\<close>

text \<open>The loop shared by both loaders: trimmed, blank entries skipped, each present once.\<close>

fun addClasses :: "gv gomap \<Rightarrow> string list \<Rightarrow> gv gomap" where
  "addClasses m [] = m"
| "addClasses m (l # ls) =
     (let class = trimSpace l
      in addClasses (if class = [] then m else gm_put class (GBool True) m) ls)"

definition NewClassesFromList :: "string list option \<Rightarrow> Classes" where
  "NewClassesFromList l = \<lparr>cl_classes = addClasses [] (or_empty l), cl_path = ''''\<rparr>"

definition UpdateClasses :: "files \<Rightarrow> Classes \<Rightarrow> Classes \<times> string option" where
  "UpdateClasses fs f =
     (if cl_path f = [] then (f, Some (data_errText ClassNoPath))
      else case f_open fs (cl_path f) of
        Inl er \<Rightarrow> (f, Some (data_errText (ClassOpen (cl_path f) er)))
      | Inr content \<Rightarrow>
        (case scanLines content of
           (ls, Some er) \<Rightarrow> (f, Some (data_errText (ClassRead (cl_path f) er)))
         | (ls, None) \<Rightarrow>
             (let classes = addClasses [] ls
              in if classes = [] then
                   (f, Some (data_errText (ClassEmpty (cl_path f))))
                 else (f\<lparr>cl_classes := classes\<rparr>, None))))"

definition LoadClasses :: "files \<Rightarrow> string \<Rightarrow> Classes \<times> string option" where
  "LoadClasses fs path = UpdateClasses fs \<lparr>cl_classes = [], cl_path = path\<rparr>"

definition Classes_List :: "Classes \<Rightarrow> string list" where
  "Classes_List f = sort (gm_keys (cl_classes f))"

definition Classes_Map :: "Classes \<Rightarrow> gv gomap" where
  "Classes_Map f = cl_classes f"

section \<open>Last run summary\<close>

definition ParseLastRunSummary :: "files \<Rightarrow> string \<Rightarrow> string + LastRunSummary" where
  "ParseLastRunSummary fs content =
     (case f_lastrun fs content of
        Inl er \<Rightarrow> Inl (data_errText (SummaryParse er))
      | Inr s \<Rightarrow> Inr s)"

section \<open>The query harness\<close>

record QueryHarness =
  h_Facts :: Facts
  h_Classes :: Classes
  h_LastRunSummary :: LastRunSummary
  h_Engine :: "(Facts \<times> Classes) engine"
  h_FQDN :: string
  h_Source :: string

record HarnessOptions =
  o_FactsPath :: string
  o_ClassesPath :: string
  o_LastRunSummaryPath :: string
  o_Facts :: "gv gomap option"
  o_Classes :: "string list option"
  o_NodeMeta :: "gv gomap option"
  o_Source :: string

fun gv_string :: "gv option \<Rightarrow> string option" where
  "gv_string (Some (GStr s)) = Some s"
| "gv_string _ = None"

definition networking_FQDN :: "gv gomap \<Rightarrow> string" where
  "networking_FQDN facts =
     (case gm_get facts ''networking'' of
        Some (GMap networking) \<Rightarrow>
          (case gv_string (gm_get networking ''fqdn'') of Some v \<Rightarrow> v | None \<Rightarrow> '''')
      | _ \<Rightarrow> '''')"

definition facts_FQDN :: "gv gomap \<Rightarrow> string" where
  "facts_FQDN facts =
     (case gv_string (gm_get facts ''fqdn'') of
        Some v \<Rightarrow> if length v > 0 then v else networking_FQDN facts
      | None \<Rightarrow> networking_FQDN facts)"

definition harness_FQDN :: "QueryHarness \<Rightarrow> string" where
  "harness_FQDN h = facts_FQDN (Facts_Map (h_Facts h))"

definition NodeMetaFromFacts :: "Facts \<Rightarrow> gv gomap" where
  "NodeMetaFromFacts f =
     (let facts = Facts_Map f; fqdn = facts_FQDN facts
      in fold (\<lambda>key meta. case gm_get facts key of Some v \<Rightarrow> gm_put key v meta | None \<Rightarrow> meta)
           [''site'', ''mq_group'', ''project'', ''accounting_project'']
           [(''fqdn'', GStr fqdn), (''certname'', GStr fqdn)])"

definition harness_facts :: "files \<Rightarrow> HarnessOptions \<Rightarrow> string + Facts" where
  "harness_facts fs opts =
     (if o_FactsPath opts \<noteq> [] then
        (case LoadFacts fs (o_FactsPath opts) of
           (f, Some er) \<Rightarrow> Inl (data_errText (HarnessFacts er))
         | (f, None) \<Rightarrow> Inr f)
      else if o_Facts opts \<noteq> None then Inr (NewFactsFromMap (o_Facts opts))
      else Inl (data_errText HarnessNoFacts))"

definition harness_classes :: "files \<Rightarrow> HarnessOptions \<Rightarrow> string + Classes" where
  "harness_classes fs opts =
     (if o_ClassesPath opts \<noteq> [] then
        (case LoadClasses fs (o_ClassesPath opts) of
           (c, Some er) \<Rightarrow> Inl (data_errText (HarnessClasses er))
         | (c, None) \<Rightarrow> Inr c)
      else if o_Classes opts \<noteq> None then Inr (NewClassesFromList (o_Classes opts))
      else Inr (NewClassesFromList None))"

definition harness_lastrun :: "files \<Rightarrow> HarnessOptions \<Rightarrow> string + LastRunSummary" where
  "harness_lastrun fs opts =
     (if o_LastRunSummaryPath opts \<noteq> [] then
        (case f_open fs (o_LastRunSummaryPath opts) of
           Inl er \<Rightarrow> Inl (data_errText (HarnessSummaryOpen er))
         | Inr content \<Rightarrow>
           (case ParseLastRunSummary fs content of
              Inl er \<Rightarrow> Inl (data_errText (HarnessSummaryParse er))
            | Inr s \<Rightarrow> Inr s))
      else Inr zeroSummary)"

definition harness_engine :: "gv gomap \<Rightarrow> (Facts \<times> Classes) engine" where
  "harness_engine nodeMeta =
     RegisterMap ''class'' (\<lambda>(f, c). Classes_Map c)
       (RegisterMap ''fact'' (\<lambda>(f, c). Facts_Map f) (NewQueryEngine nodeMeta))"

definition NewQueryHarnessOpts :: "files \<Rightarrow> HarnessOptions \<Rightarrow> string + QueryHarness" where
  "NewQueryHarnessOpts fs opts =
     (case harness_facts fs opts of
        Inl er \<Rightarrow> Inl er
      | Inr f \<Rightarrow>
     (case harness_classes fs opts of
        Inl er \<Rightarrow> Inl er
      | Inr c \<Rightarrow>
     (case harness_lastrun fs opts of
        Inl er \<Rightarrow> Inl er
      | Inr lr \<Rightarrow>
         (let nodeMeta = (case o_NodeMeta opts of None \<Rightarrow> NodeMetaFromFacts f | Some m \<Rightarrow> m);
              fqdn = (case gv_string (gm_get nodeMeta ''fqdn'') of Some s \<Rightarrow> s | None \<Rightarrow> '''')
          in Inr \<lparr>h_Facts = f, h_Classes = c, h_LastRunSummary = lr,
                  h_Engine = harness_engine nodeMeta, h_FQDN = fqdn,
                  h_Source = (if o_Source opts = [] then o_FactsPath opts else o_Source opts)\<rparr>))))"

definition harness_Parse :: "zygo \<Rightarrow> QueryHarness \<Rightarrow> string \<Rightarrow> query_result outcome" where
  "harness_Parse z h q = engine_Parse z (h_Engine h) (h_Facts h, h_Classes h) q"

definition harness_Query :: "zygo \<Rightarrow> QueryHarness \<Rightarrow> string \<Rightarrow> bool outcome" where
  "harness_Query z h q = engine_ParseBool z (h_Engine h) (h_Facts h, h_Classes h) q"

text \<open>The names of the files of a data directory.\<close>

definition HarnessFactsFile :: string where
  "HarnessFactsFile = ''facts.yaml''"

definition HarnessClassfile :: string where
  "HarnessClassfile = ''classes.txt''"

definition HarnessLastRunSummaryFile :: string where
  "HarnessLastRunSummaryFile = ''last_run_summary.yaml''"

definition NewQueryHarness :: "files \<Rightarrow> string \<Rightarrow> gv gomap option \<Rightarrow> string + QueryHarness" where
  "NewQueryHarness fs dir nodeMeta =
     NewQueryHarnessOpts fs
       \<lparr>o_FactsPath = filepathJoin [dir, HarnessFactsFile], o_ClassesPath = filepathJoin [dir, HarnessClassfile],
        o_LastRunSummaryPath = filepathJoin [dir, HarnessLastRunSummaryFile], o_Facts = None,
        o_Classes = None, o_NodeMeta = nodeMeta, o_Source = ''dir:'' @ dir\<rparr>"

section \<open>Snapshots\<close>

definition Snapshot_Harness :: "files \<Rightarrow> Snapshot \<Rightarrow> gv gomap option \<Rightarrow> string + QueryHarness" where
  "Snapshot_Harness fs s nodeMeta =
     (case NewQueryHarnessOpts fs
         \<lparr>o_FactsPath = '''', o_ClassesPath = '''', o_LastRunSummaryPath = '''',
          o_Facts = sn_Facts s, o_Classes = sn_Classes s, o_NodeMeta = nodeMeta,
          o_Source = sn_Source s\<rparr> of
        Inl er \<Rightarrow> Inl er
      | Inr h \<Rightarrow>
          Inr (case sn_LastRunSummary s of
                 Some lr \<Rightarrow> h\<lparr>h_LastRunSummary := lr\<rparr>
               | None \<Rightarrow> h))"

definition fileTime :: "files \<Rightarrow> gotime \<Rightarrow> string \<Rightarrow> gotime" where
  "fileTime fs now path = (case f_mtime fs path of Some t \<Rightarrow> t | None \<Rightarrow> now)"

definition LoadSnapshotFiles :: "files \<Rightarrow> gotime \<Rightarrow> string \<Rightarrow> string \<Rightarrow> string \<Rightarrow> string + Snapshot" where
  "LoadSnapshotFiles fs now factsPath classesPath lastRunSummaryPath =
     (if factsPath = [] then Inl (data_errText SnapshotNoPath)
      else case NewQueryHarnessOpts fs
          \<lparr>o_FactsPath = factsPath, o_ClassesPath = classesPath,
           o_LastRunSummaryPath = lastRunSummaryPath, o_Facts = None, o_Classes = None,
           o_NodeMeta = None, o_Source = ''files:'' @ factsPath\<rparr> of
        Inl er \<Rightarrow> Inl er
      | Inr h \<Rightarrow>
          Inr \<lparr>sn_FQDN = harness_FQDN h, sn_TS = fileTime fs now factsPath,
               sn_Source = h_Source h, sn_Facts = Some (Facts_Map (h_Facts h)),
               sn_Classes = Some (Classes_List (h_Classes h)),
               sn_LastRunSummary =
                 (if lastRunSummaryPath \<noteq> [] then Some (h_LastRunSummary h) else None)\<rparr>)"

record QueryReply =
  qr_FQDN :: string
  qr_Matched :: bool
  qr_Error :: string
  qr_Type :: string
  qr_Value :: string

record FactsReply =
  fr_FQDN :: string
  fr_TS :: gotime
  fr_Count :: int
  fr_Facts :: "gv gomap option"

record ClassesReply =
  cr_FQDN :: string
  cr_TS :: gotime
  cr_Classes :: "string list option"

definition zeroQueryReply :: QueryReply where
  "zeroQueryReply = \<lparr>qr_FQDN = '''', qr_Matched = False, qr_Error = '''', qr_Type = '''', qr_Value = ''''\<rparr>"

definition SnapshotFromReplies :: "FactsReply option \<Rightarrow> ClassesReply option \<Rightarrow> Snapshot" where
  "SnapshotFromReplies facts classes =
     (let s0 = \<lparr>sn_FQDN = '''', sn_TS = 0, sn_Source = '''', sn_Facts = None, sn_Classes = None,
                sn_LastRunSummary = None\<rparr>;
          s1 = (case facts of None \<Rightarrow> s0
                | Some f \<Rightarrow> s0\<lparr>sn_FQDN := fr_FQDN f, sn_TS := fr_TS f, sn_Facts := fr_Facts f\<rparr>);
          s2 = (case classes of None \<Rightarrow> s1
                | Some c \<Rightarrow>
                    s1\<lparr>sn_FQDN := (if sn_FQDN s1 = [] then cr_FQDN c else sn_FQDN s1),
                       sn_TS := (if sn_TS s1 = 0 then cr_TS c else sn_TS s1),
                       sn_Classes := cr_Classes c\<rparr>)
      in s2\<lparr>sn_Source := ''node:'' @ sn_FQDN s2\<rparr>)"

definition LoadSnapshotFile :: "files \<Rightarrow> string \<Rightarrow> string + Snapshot" where
  "LoadSnapshotFile fs path =
     (case f_open fs path of
        Inl er \<Rightarrow> Inl (data_errText (SnapshotRead er))
      | Inr raw \<Rightarrow>
        (case f_snapshot fs raw of
           Inl er \<Rightarrow> Inl (data_errText (SnapshotParse path er))
         | Inr s \<Rightarrow>
             if or_empty (sn_Facts s) = [] \<and> or_empty (sn_Classes s) = [] then
               Inl (data_errText (SnapshotEmpty path))
             else Inr (if sn_Source s = [] then s\<lparr>sn_Source := ''file:'' @ path\<rparr> else s)))"

text \<open>
  Saving writes a temporary file beside the target and renames it. The disk maps a path to
  content and permission bits; the result lists the disks an observer can see, one after each
  effect (the deferred removal of the temporary file last), and the error. A file that is being
  written grows: every prefix of its content can be seen. Any call can fail: \<open>fails\<close> says which one
  does and with what message, \<open>part\<close> how much a failed write leaves. \<open>rnd\<close> is the random part of
  the temporary file's name.
\<close>

type_synonym disk = "(string \<times> nat) gomap"

definition growing :: "string \<Rightarrow> nat \<Rightarrow> string \<Rightarrow> disk \<Rightarrow> disk list" where
  "growing path mode content d = map (\<lambda>n. gm_put path (take n content, mode) d) [0..<Suc (length content)]"

datatype save_call = S_CreateTemp | S_Chmod | S_Write | S_Close | S_Rename

definition ownerOnly :: nat where "ownerOnly = 384"

definition snapshotTmp :: "string \<Rightarrow> string \<Rightarrow> string" where
  "snapshotTmp path rnd = createTempName (filepathDir path) (filepathBase path @ ''.'') rnd"

definition Snapshot_Save ::
  "(Snapshot \<Rightarrow> string + string) \<Rightarrow> (save_call \<Rightarrow> string option) \<Rightarrow> nat \<Rightarrow> string \<Rightarrow> disk
     \<Rightarrow> string \<Rightarrow> Snapshot \<Rightarrow> disk list \<times> string option" where
  "Snapshot_Save marshal fails part rnd disk path s =
     (case marshal s of
        Inl er \<Rightarrow> ([disk], Some (data_errText (SaveEncode er)))
      | Inr out \<Rightarrow>
     (case fails S_CreateTemp of
        Some er \<Rightarrow> ([disk], Some (data_errText (SaveIO er)))
      | None \<Rightarrow>
     (let tmp = snapshotTmp path rnd;
          d1 = gm_put tmp ([], ownerOnly) disk
      in case fails S_Chmod of
        Some er \<Rightarrow> ([disk, d1, gm_del tmp d1], Some (data_errText (SavePermissions er)))
      | None \<Rightarrow>
     (case fails S_Write of
        Some er \<Rightarrow>
          (let ds = growing tmp ownerOnly (take part out) d1
           in (disk # ds @ [gm_del tmp (last ds)], Some (data_errText (SaveIO er))))
      | None \<Rightarrow>
     (let ds = growing tmp ownerOnly out d1; d2 = last ds
      in case fails S_Close of
        Some er \<Rightarrow> (disk # ds @ [gm_del tmp d2], Some (data_errText (SaveIO er)))
      | None \<Rightarrow>
     (case fails S_Rename of
        Some er \<Rightarrow> (disk # ds @ [gm_del tmp d2], Some (data_errText (SaveIO er)))
      | None \<Rightarrow>
          (let d3 = gm_put path (out, ownerOnly) (gm_del tmp d2)
           in (disk # ds @ [d3, gm_del tmp d3], None))))))))"

text \<open>
  What the JSON library makes of a snapshot that is written and read back. Text is coerced to valid
  UTF-8 (\<open>j_text\<close>), and a number in a value of no declared type comes back as a floating point
  number (\<open>j_float\<close> gives the bits of the nearest one), whatever it was before; values of other
  types become what \<open>j_other\<close> says.
\<close>

record jsonLib =
  j_text :: "string \<Rightarrow> string"
  j_float :: "int \<Rightarrow> nat"
  j_other :: "string \<Rightarrow> gv"

fun jsonValue :: "jsonLib \<Rightarrow> gv \<Rightarrow> gv" where
  "jsonValue j (GInt i) = GFloat (j_float j i)"
| "jsonValue j (GStr s) = GStr (j_text j s)"
| "jsonValue j (GMap m) = GMap (map (\<lambda>(k, v). (j_text j k, jsonValue j v)) m)"
| "jsonValue j (GArr vs) = GArr (map (jsonValue j) vs)"
| "jsonValue j (GOther t) = j_other j t"
| "jsonValue j v = v"

definition jsonMap :: "jsonLib \<Rightarrow> gv gomap \<Rightarrow> gv gomap" where
  "jsonMap j m = map (\<lambda>(k, v). (j_text j k, jsonValue j v)) m"

definition jsonSummary :: "jsonLib \<Rightarrow> LastRunSummary \<Rightarrow> LastRunSummary" where
  "jsonSummary j lr =
     lr\<lparr>lrs_Version := \<lparr>lv_Config = j_text j (lv_Config (lrs_Version lr)), lv_Puppet = j_text j (lv_Puppet (lrs_Version lr))\<rparr>,
        lrs_Timing := (lrs_Timing lr)\<lparr>lt_Duration := map (\<lambda>(k, v). (j_text j k, v)) (lt_Duration (lrs_Timing lr))\<rparr>\<rparr>"

definition jsonSnapshot :: "jsonLib \<Rightarrow> Snapshot \<Rightarrow> Snapshot" where
  "jsonSnapshot j s =
     s\<lparr>sn_FQDN := j_text j (sn_FQDN s), sn_Source := j_text j (sn_Source s),
       sn_Facts := map_option (jsonMap j) (sn_Facts s),
       sn_Classes := map_option (map (j_text j)) (sn_Classes s),
       sn_LastRunSummary := map_option (jsonSummary j) (sn_LastRunSummary s)\<rparr>"

definition json_ok :: "jsonLib \<Rightarrow> (Snapshot \<Rightarrow> string + string) \<Rightarrow> files \<Rightarrow> bool" where
  "json_ok j marshal fs \<longleftrightarrow> (\<forall>s out. marshal s = Inr out \<longrightarrow> f_snapshot fs out = Inr (jsonSnapshot j s))"

text \<open>The file system shows what the disk holds.\<close>

definition shows_file :: "files \<Rightarrow> disk \<Rightarrow> string \<Rightarrow> bool" where
  "shows_file fs d path \<longleftrightarrow> (\<forall>c m. gm_get d path = Some (c, m) \<longrightarrow> f_open fs path = Inr c)"

section \<open>The reload contract\<close>

text \<open>
  Facts and classes are reloaded once a minute from files puppet rewrites. Both promise that a
  failed reload leaves the loaded data alone and that a successful one never loads nothing.
\<close>

definition reloads :: "(files \<Rightarrow> 'd \<Rightarrow> 'd \<times> string option) \<Rightarrow> files list \<Rightarrow> 'd \<Rightarrow> 'd" where
  "reloads update fss d = fold (\<lambda>fs d. fst (update fs d)) fss d"

locale reloadable =
  fixes update :: "files \<Rightarrow> 'd \<Rightarrow> 'd \<times> string option"
    and data :: "'d \<Rightarrow> gv gomap"
  assumes failed_keeps: "update fs d = (d', Some e) \<Longrightarrow> d' = d"
    and loaded_nonempty: "update fs d = (d', None) \<Longrightarrow> data d' \<noteq> []"
begin

lemma update_data:
  "data (fst (update fs d)) = data d \<or> (snd (update fs d) = None \<and> data (fst (update fs d)) \<noteq> [])"
  using failed_keeps [of fs d] loaded_nonempty [of fs d]
  by (cases "update fs d"; cases "snd (update fs d)") auto

lemma reloads_keep_data: "data d \<noteq> [] \<Longrightarrow> data (reloads update fss d) \<noteq> []"
proof (induction fss arbitrary: d)
  case Nil
  then show ?case by (simp add: reloads_def)
next
  case (Cons fs fss)
  from Cons.prems have "data (fst (update fs d)) \<noteq> []" using update_data [of fs d] by auto
  from Cons.IH [OF this] show ?case by (simp add: reloads_def)
qed

lemma fst_update_failed: "snd (update fs d) \<noteq> None \<Longrightarrow> fst (update fs d) = d"
  by (cases "update fs d") (auto dest: failed_keeps)

lemma reloads_unavailable:
  "(\<forall>fs \<in> set fss. \<forall>d. snd (update fs d) \<noteq> None) \<Longrightarrow> reloads update fss d = d"
proof (induction fss arbitrary: d)
  case Nil
  then show ?case by (simp add: reloads_def)
next
  case (Cons fs fss)
  then have "fst (update fs d) = d" by (simp add: fst_update_failed)
  with Cons show ?case by (simp add: reloads_def)
qed

end

interpretation facts_reload: reloadable UpdateFacts Facts_Map
  by unfold_locales (auto simp: UpdateFacts_def Facts_Map_def split: if_splits sum.splits)

interpretation classes_reload: reloadable UpdateClasses Classes_Map
  by unfold_locales
    (auto simp: UpdateClasses_def Classes_Map_def Let_def
      split: if_splits sum.splits prod.splits option.splits)

section \<open>Lemmas\<close>

subsection \<open>Queries depend on lookups only\<close>

lemma traverseHash_cong:
  "path \<noteq> [] \<Longrightarrow> map_of m = map_of m' \<Longrightarrow> traverseHash path (GMap m) = traverseHash path (GMap m')"
  by (cases path) auto

lemma HashGet_cong: "map_of m = map_of m' \<Longrightarrow> HashGet z m = HashGet z m'"
proof
  fix args
  assume eq: "map_of m = map_of m'"
  show "HashGet z m args = HashGet z m' args"
    by (cases "hashPath z args args")
      (simp_all add: HashGet_def traverseHash_cong [OF _ eq])
qed

lemma harness_sandbox_cong:
  assumes "map_of (Facts_Map f) = map_of (Facts_Map f')"
    and "map_of (Classes_Map c) = map_of (Classes_Map c')"
  shows "newSandbox z (harness_engine m) (f, c) = newSandbox z (harness_engine m) (f', c')"
  by (simp add: newSandbox_def harness_engine_def RegisterMap_def NewQueryEngine_def
      HashGet_cong [OF assms(1), of z] HashGet_cong [OF assms(2), of z])

lemma harness_engine_Parse_cong:
  assumes "map_of (Facts_Map f) = map_of (Facts_Map f')"
    and "map_of (Classes_Map c) = map_of (Classes_Map c')"
  shows "engine_Parse z (harness_engine m) (f, c) q = engine_Parse z (harness_engine m) (f', c') q"
  by (simp add: engine_Parse_def harness_sandbox_cong [OF assms])

subsection \<open>Class lists\<close>

lemma trimBy_idem: "trimBy P (trimBy P s) = trimBy P s"
proof -
  define t where "t = dropWhile P s"
  define u where "u = rev (dropWhile P (rev t))"
  have pre: "\<exists>r. t = u @ r"
    unfolding u_def by (metis rev_append rev_rev_ident takeWhile_dropWhile_id)
  have "dropWhile P u = u"
  proof (cases u)
    case (Cons x xs)
    with pre have "\<not> P x" by (auto simp: t_def dropWhile_eq_Cons_conv)
    with Cons show ?thesis by simp
  qed simp
  moreover have "dropWhile P (rev u) = rev u" by (simp add: u_def dropWhile_idem)
  ultimately show ?thesis by (simp add: trimBy_def trimRightBy_def flip: t_def u_def)
qed

lemma trimSpace_idem [simp]: "trimSpace (trimSpace s) = trimSpace s"
  by (simp add: trimSpace_def trimBy_idem)

definition classes_wf :: "gv gomap \<Rightarrow> bool" where
  "classes_wf m = (gm_ok m \<and> (\<forall>(k, v) \<in> set m. v = GBool True \<and> trimSpace k = k \<and> k \<noteq> []))"

lemma gm_get_addClasses:
  "gm_get (addClasses m ls) k =
     (if k \<noteq> [] \<and> k \<in> trimSpace ` set ls then Some (GBool True) else gm_get m k)"
  by (induction m ls rule: addClasses.induct) (auto simp: Let_def)

lemma gm_ok_addClasses: "gm_ok m \<Longrightarrow> gm_ok (addClasses m ls)"
  by (induction m ls rule: addClasses.induct) (auto simp: Let_def)

lemma classes_wf_addClasses: "classes_wf (addClasses [] ls)"
proof -
  have ok: "gm_ok (addClasses [] ls)" by (rule gm_ok_addClasses) simp
  then show ?thesis
    by (auto simp: classes_wf_def gm_get_addClasses simp flip: gm_get_iff [OF ok] split: if_splits)
qed

lemma addClasses_sorted_keys:
  assumes "classes_wf m"
  shows "map_of (addClasses [] (sort (gm_keys m))) = map_of m"
proof
  fix k
  from assms have ok: "gm_ok m"
    and wf: "\<And>k v. (k, v) \<in> set m \<Longrightarrow> v = GBool True \<and> trimSpace k = k \<and> k \<noteq> []"
    by (auto simp: classes_wf_def)
  show "gm_get (addClasses [] (sort (gm_keys m))) k = gm_get m k"
  proof (cases "gm_get m k")
    case None
    then have "k \<notin> set (gm_keys m)" by (simp add: gm_get_None)
    moreover have "k \<in> trimSpace ` set (gm_keys m) \<longrightarrow> k \<in> set (gm_keys m)" using wf by force
    ultimately show ?thesis using None by (simp add: gm_get_addClasses)
  next
    case (Some v)
    then have "(k, v) \<in> set m" by (rule gm_get_SomeD)
    with wf [OF this] Some show ?thesis by (force simp: gm_get_addClasses)
  qed
qed

lemma UpdateClasses_wf:
  "classes_wf (cl_classes c) \<Longrightarrow> classes_wf (cl_classes (fst (UpdateClasses fs c)))"
  by (auto simp: UpdateClasses_def Let_def classes_wf_addClasses
      split: if_splits sum.splits prod.splits option.splits)

lemma classes_wf_Nil [simp]: "classes_wf []"
  by (simp add: classes_wf_def)

lemma harness_classes_wf: "harness_classes fs opts = Inr c \<Longrightarrow> classes_wf (cl_classes c)"
  using UpdateClasses_wf [of "\<lparr>cl_classes = [], cl_path = o_ClassesPath opts\<rparr>" fs]
  by (auto simp: harness_classes_def LoadClasses_def NewClassesFromList_def classes_wf_addClasses
      split: if_splits prod.splits option.splits)

subsection \<open>Files that grow\<close>

lemma growing_last: "last (growing path mode content d) = gm_put path (content, mode) d"
  by (simp add: growing_def last_map)

lemma growing_not_Nil [simp]: "growing path mode content d \<noteq> []"
  by (simp add: growing_def)

lemma growing_other: "\<lbrakk>d' \<in> set (growing path mode content d); p \<noteq> path\<rbrakk> \<Longrightarrow> gm_get d' p = gm_get d p"
  by (auto simp: growing_def)

lemma growing_prefix:
  "d' \<in> set (growing path mode content d) \<Longrightarrow> \<exists>n. gm_get d' path = Some (take n content, mode)"
  by (auto simp: growing_def intro: exI [of _ "length content"])

subsection \<open>Snapshots read back\<close>

lemma jsonMap_Nil [simp]: "jsonMap j m = [] \<longleftrightarrow> m = []"
  by (simp add: jsonMap_def)

lemma jsonSnapshot_simps [simp]:
  "sn_Facts (jsonSnapshot j s) = map_option (jsonMap j) (sn_Facts s)"
  "sn_Classes (jsonSnapshot j s) = map_option (map (j_text j)) (sn_Classes s)"
  "sn_LastRunSummary (jsonSnapshot j s) = map_option (jsonSummary j) (sn_LastRunSummary s)"
  "sn_TS (jsonSnapshot j s) = sn_TS s" "sn_FQDN (jsonSnapshot j s) = j_text j (sn_FQDN s)"
  by (simp_all add: jsonSnapshot_def)

lemma harness_facts_nonempty:
  "harness_facts fs opts = Inr f \<Longrightarrow> o_FactsPath opts \<noteq> [] \<Longrightarrow> Facts_Map f \<noteq> []"
  using facts_reload.loaded_nonempty [of fs "\<lparr>fa_facts = [], fa_path = o_FactsPath opts\<rparr>"]
  by (auto simp: harness_facts_def LoadFacts_def split: prod.splits option.splits)

text \<open>The harness of a snapshot that holds facts.\<close>

lemma Snapshot_Harness_parts:
  assumes "sn_Facts s = Some m"
  obtains h where "Snapshot_Harness fs s None = Inr h" "h_Facts h = NewFactsFromMap (Some m)"
    "h_Classes h = NewClassesFromList (sn_Classes s)"
    "h_Engine h = harness_engine (NodeMetaFromFacts (NewFactsFromMap (Some m)))"
  using assms
  by (cases "sn_LastRunSummary s"; cases "sn_Classes s")
    (auto simp: Snapshot_Harness_def NewQueryHarnessOpts_def harness_facts_def harness_classes_def
      harness_lastrun_def Let_def)

lemma Snapshot_Save_done:
  assumes "Snapshot_Save marshal fails part rnd disk path s = (disks, None)" and "CHR ''/'' \<notin> set rnd"
  obtains out where "marshal s = Inr out" "gm_get (last disks) path = Some (out, ownerOnly)"
proof -
  have "snapshotTmp path rnd \<noteq> path" unfolding snapshotTmp_def by (rule createTempName_other [OF assms(2)])
  then show ?thesis
    using assms(1) that by (auto simp: Snapshot_Save_def Let_def growing_last split: sum.splits option.splits)
qed

section \<open>Concrete files\<close>

definition plainFiles :: files where
  "plainFiles =
     \<lparr>f_open = (\<lambda>path. if path = ''missing'' then Inl ''no such file'' else Inr path),
      f_yaml = (\<lambda>s. Inr [(''fqdn'', GStr ''n1'')]), f_lastrun = (\<lambda>s. Inr zeroSummary),
      f_snapshot = (\<lambda>s. Inl ''not a snapshot''), f_mtime = (\<lambda>p. None)\<rparr>"

definition plainFacts :: Facts where
  "plainFacts = \<lparr>fa_facts = [(''fqdn'', GStr ''n1'')], fa_path = ''f''\<rparr>"

definition plainClasses :: Classes where
  "plainClasses = \<lparr>cl_classes = [(''a'', GBool True)], cl_path = ''a''\<rparr>"

lemma plain_loads:
  "LoadFacts plainFiles ''f'' = (plainFacts, None)" "LoadClasses plainFiles ''a'' = (plainClasses, None)"
proof -
  have "scanLines ''a'' = ([''a''], None)"
    by (simp add: scanLines_def raw_lines_def strSplit_def maxScanTokenSize_def dropCR_def
        trimSuffix_def hasSuffix_def hasPrefix_def Let_def)
  moreover have "trimSpace ''a'' = ''a''"
    by (simp add: trimSpace_def trimBy_def trimRightBy_def isSpace_def)
  ultimately show "LoadFacts plainFiles ''f'' = (plainFacts, None)"
    "LoadClasses plainFiles ''a'' = (plainClasses, None)"
    by (simp_all add: LoadFacts_def LoadClasses_def UpdateFacts_def UpdateClasses_def plainFiles_def
        plainFacts_def plainClasses_def Let_def)
qed

section \<open>Properties\<close>

text \<open>
  C25: A snapshot of a node's files that was saved and read back answers every query as the files
  would if their facts were what JSON makes of them: numbers are floating point, text is valid UTF-8.
  Where that changes nothing it answers exactly as the files did, errors included. A saved
  snapshot always loads.
\<close>

theorem reopened_snapshot_answers_like_files:
  assumes "LoadSnapshotFiles fs now fp cp lp = Inr s"
    and "NewQueryHarnessOpts fs
      \<lparr>o_FactsPath = fp, o_ClassesPath = cp, o_LastRunSummaryPath = lp, o_Facts = None,
       o_Classes = None, o_NodeMeta = None, o_Source = ''files:'' @ fp\<rparr> = Inr h"
    and "Snapshot_Save marshal fails part rnd disk path s = (disks, None)" and "CHR ''/'' \<notin> set rnd"
    and "json_ok j marshal fs'" and "shows_file fs' (last disks) path"
  shows "\<exists>s' h'. LoadSnapshotFile fs' path = Inr s' \<and> sn_TS s' = sn_TS s \<and> Snapshot_Harness fs' s' None = Inr h'
    \<and> (let f = NewFactsFromMap (Some (jsonMap j (Facts_Map (h_Facts h))));
           c = NewClassesFromList (Some (map (j_text j) (Classes_List (h_Classes h))))
       in harness_Parse z h' q = engine_Parse z (harness_engine (NodeMetaFromFacts f)) (f, c) q)
    \<and> (jsonMap j (Facts_Map (h_Facts h)) = Facts_Map (h_Facts h)
         \<and> map (j_text j) (Classes_List (h_Classes h)) = Classes_List (h_Classes h)
       \<longrightarrow> harness_Parse z h' q = harness_Parse z h q \<and> harness_FQDN h' = sn_FQDN s)"
proof -
  let ?opts = "\<lparr>o_FactsPath = fp, o_ClassesPath = cp, o_LastRunSummaryPath = lp, o_Facts = None,
       o_Classes = None, o_NodeMeta = None, o_Source = ''files:'' @ fp\<rparr>"
  from assms(2) have f: "harness_facts fs ?opts = Inr (h_Facts h)" and wf: "classes_wf (cl_classes (h_Classes h))"
    and h: "h_Engine h = harness_engine (NodeMetaFromFacts (h_Facts h))"
    by (auto simp: NewQueryHarnessOpts_def Let_def dest: harness_classes_wf split: sum.splits)
  have "fp \<noteq> []" using assms(1) by (auto simp: LoadSnapshotFiles_def)
  with harness_facts_nonempty [OF f] have ne: "Facts_Map (h_Facts h) \<noteq> []" by simp
  from assms(1,2) have s: "sn_Facts s = Some (Facts_Map (h_Facts h))" "sn_Classes s = Some (Classes_List (h_Classes h))"
    "sn_FQDN s = harness_FQDN h"
    by (auto simp: LoadSnapshotFiles_def split: if_splits)
  obtain out where out: "marshal s = Inr out" "gm_get (last disks) path = Some (out, ownerOnly)"
    using Snapshot_Save_done [OF assms(3,4)] by blast
  have "f_open fs' path = Inr out" "f_snapshot fs' out = Inr (jsonSnapshot j s)"
    using assms(5,6) out by (simp_all add: shows_file_def json_ok_def)
  then obtain s' where s': "LoadSnapshotFile fs' path = Inr s'" "sn_TS s' = sn_TS s"
    "sn_Facts s' = Some (jsonMap j (Facts_Map (h_Facts h)))"
    "sn_Classes s' = Some (map (j_text j) (Classes_List (h_Classes h)))"
    using ne by (simp add: LoadSnapshotFile_def s)
  define f' where "f' = NewFactsFromMap (Some (jsonMap j (Facts_Map (h_Facts h))))"
  define c' where "c' = NewClassesFromList (Some (map (j_text j) (Classes_List (h_Classes h))))"
  obtain h' where h': "Snapshot_Harness fs' s' None = Inr h'" "h_Facts h' = f'" "h_Classes h' = c'"
    "h_Engine h' = harness_engine (NodeMetaFromFacts f')"
    by (rule Snapshot_Harness_parts [OF s'(3), of fs']) (simp add: f'_def c'_def s'(4))
  have parse: "harness_Parse z h' q = engine_Parse z (harness_engine (NodeMetaFromFacts f')) (f', c') q"
    by (simp add: harness_Parse_def h')
  have "harness_Parse z h' q = harness_Parse z h q \<and> harness_FQDN h' = sn_FQDN s"
    if "jsonMap j (Facts_Map (h_Facts h)) = Facts_Map (h_Facts h)"
      "map (j_text j) (Classes_List (h_Classes h)) = Classes_List (h_Classes h)"
  proof -
    have ff: "Facts_Map f' = Facts_Map (h_Facts h)" by (simp add: f'_def that NewFactsFromMap_def Facts_Map_def [of "Facts_ext _ _ _"])
    have cc: "map_of (Classes_Map c') = map_of (Classes_Map (h_Classes h))"
      unfolding c'_def that(2)
      by (simp add: NewClassesFromList_def Classes_Map_def Classes_List_def addClasses_sorted_keys [OF wf])
    have "NodeMetaFromFacts f' = NodeMetaFromFacts (h_Facts h)" by (simp add: NodeMetaFromFacts_def ff)
    then show ?thesis
      by (simp add: parse harness_Parse_def [of z h] h s harness_FQDN_def h' ff harness_engine_Parse_cong [OF _ cc])
  qed
  with s' h'(1) parse show ?thesis unfolding Let_def f'_def c'_def by blast
qed

text \<open>
  An integer fact does not survive: in the reopened snapshot it is a floating point number, and a
  query that returns it, which was a verdict on the node, is no boolean any more.
\<close>

lemma reopened_integers_are_no_verdict:
  assumes "gm_get m k = Some (GInt i)" and "\<forall>x \<in> set (gm_keys m). j_text j x = x"
    and "z_goToSexp z (GInt i) = (SexpInt i, None)" and "\<And>f. z_goToSexp z (GFloat f) = (SexpFloat f, None)"
  shows "HashGet z m [SexpStr k] = Ret (SexpInt i) \<and> res_Boolish (newResult z (SexpInt i))
    \<and> HashGet z (jsonMap j m) [SexpStr k] = Ret (SexpFloat (j_float j i)) \<and> \<not> res_Boolish (newResult z (SexpFloat f))"
proof -
  have "gm_get (jsonMap j m) k = Some (GFloat (j_float j i))"
    using assms(1,2) by (induction m) (auto simp: jsonMap_def split: if_splits)
  then show ?thesis using assms by (simp add: HashGet_def hashValue_def newResult_def)
qed


lemma snapshotTmp_snap: "snapshotTmp ''snap'' ''123'' = ''./snap.123''"
  by code_simp

definition plainJSON :: jsonLib where
  "plainJSON = \<lparr>j_text = (\<lambda>s. s), j_float = nat, j_other = GOther\<rparr>"

definition plainSnapshot :: Snapshot where
  "plainSnapshot = \<lparr>sn_FQDN = ''n1'', sn_TS = 0, sn_Source = ''files:f'', sn_Facts = Some (Facts_Map plainFacts),
     sn_Classes = Some [''a''], sn_LastRunSummary = None\<rparr>"

definition plainMarshal :: "Snapshot \<Rightarrow> string + string" where
  "plainMarshal s = (if s = plainSnapshot then Inr ''js'' else Inl ''unsupported'')"

theorem reopened_snapshot_answers_like_files_witness:
  "\<exists>s h h'. LoadSnapshotFiles plainFiles 0 ''f'' ''a'' [] = Inr s
     \<and> (let fs' = plainFiles\<lparr>f_open := (\<lambda>p. Inr ''js''), f_snapshot := (\<lambda>c. Inr s)\<rparr>
        in \<exists>s'. LoadSnapshotFile fs' ''snap'' = Inr s' \<and> Snapshot_Harness fs' s' None = Inr h'
             \<and> harness_Parse plainZygo h' classProgram = harness_Parse plainZygo h classProgram)"
proof -
  let ?fs = "plainFiles\<lparr>f_open := (\<lambda>p. Inr ''js''), f_snapshot := (\<lambda>c. Inr plainSnapshot)\<rparr>"
  obtain h where h: "NewQueryHarnessOpts plainFiles
      \<lparr>o_FactsPath = ''f'', o_ClassesPath = ''a'', o_LastRunSummaryPath = [], o_Facts = None,
       o_Classes = None, o_NodeMeta = None, o_Source = ''files:'' @ ''f''\<rparr> = Inr h"
    "h_Facts h = plainFacts" "h_Classes h = plainClasses" "h_Source h = ''files:f''"
    by (simp add: NewQueryHarnessOpts_def harness_facts_def harness_classes_def
        harness_lastrun_def plain_loads Let_def)
  have s: "LoadSnapshotFiles plainFiles 0 ''f'' ''a'' [] = Inr plainSnapshot"
    using h by (simp add: LoadSnapshotFiles_def plainSnapshot_def fileTime_def harness_FQDN_def facts_FQDN_def
        Facts_Map_def plainFacts_def plainFiles_def Classes_List_def plainClasses_def)
  have id: "jsonSnapshot plainJSON plainSnapshot = plainSnapshot"
    by (simp add: jsonSnapshot_def plainJSON_def plainSnapshot_def jsonMap_def Facts_Map_def plainFacts_def)
  then have j: "json_ok plainJSON plainMarshal ?fs" by (simp add: json_ok_def plainMarshal_def)
  obtain disks where d: "Snapshot_Save plainMarshal (\<lambda>c. None) 0 ''123'' [] ''snap'' plainSnapshot = (disks, None)"
    by (simp add: Snapshot_Save_def plainMarshal_def Let_def)
  have "CHR ''/'' \<notin> set ''123''" by simp
  note saved = Snapshot_Save_done [OF d this]
  have "shows_file ?fs (last disks) ''snap''"
    by (rule saved) (simp add: shows_file_def plainMarshal_def)
  from reopened_snapshot_answers_like_files [OF s h(1) d _ j this, of plainZygo classProgram] s
  show ?thesis
    by (auto simp: h jsonMap_def plainJSON_def Facts_Map_def plainFacts_def)
qed


end
