(* ===== verification/Wire.thy ===== *)
theory Wire
  imports Puppet_Data
begin

text \<open>
  What travels between \<^verbatim>\<open>rv\<close> and \<^verbatim>\<open>rvd\<close> and the runtime both send it with: event records, the
  puppet command and its options (\<^verbatim>\<open>plugin/puppet/puppet.go\<close>, \<^verbatim>\<open>run.go\<close>, \<^verbatim>\<open>snapshot.go\<close>), replying
  to an event, random identifiers and topic names (\<^verbatim>\<open>common/runtime.go\<close>, \<^verbatim>\<open>common/mq.go\<close>,
  \<^verbatim>\<open>common/rpc.go\<close>, \<^verbatim>\<open>common/util.go\<close>).

  The message queue library and the CBOR library are not part of the repository. A node of the
  queue library is the record \<open>zn\<close>, the encoders and decoders are the record \<open>codec\<close>; \<open>'b\<close> is
  the type of encoded bodies. What the program needs of a codec is \<open>codec_ok\<close>: the commands and the
  replies of declared fields one side encodes the other side decodes. It says nothing of the values
  of facts, which have no declared type: the decoder may deliver other numbers and maps than were sent.
\<close>

section \<open>Events\<close>

text \<open>A header value is an \<^verbatim>\<open>interface{}\<close>; the code only looks into strings.\<close>

datatype hval = HStr string | HOther

record 'b event =
  ev_NodeName :: string
  ev_RoutingKey :: string
  ev_ReplyTo :: string
  ev_Headers :: "hval gomap"
  ev_Body :: 'b

definition set_header :: "string \<Rightarrow> hval \<Rightarrow> 'b event \<Rightarrow> 'b event" where
  "set_header k v ev = ev\<lparr>ev_Headers := gm_put k v (ev_Headers ev)\<rparr>"

definition header_string :: "'b event \<Rightarrow> string \<Rightarrow> string option" where
  "header_string ev k = (case gm_get (ev_Headers ev) k of Some (HStr s) \<Rightarrow> Some s | _ \<Rightarrow> None)"

record 'b zn =
  zn_Name :: string
  zn_UUID :: string
  zn_NewEvent :: "'b event"
  zn_PrepareReply :: "'b event \<Rightarrow> 'b event"
  zn_SendEvent :: "string \<Rightarrow> 'b event \<Rightarrow> string option"

section \<open>Names on the wire\<close>

definition rpc_Error :: string where "rpc_Error = ''Error''"
definition rpc_PuppetRunStatus :: string where "rpc_PuppetRunStatus = ''PuppetRunStatus''"
definition rpc_PuppetRunSummary :: string where "rpc_PuppetRunSummary = ''PuppetRunSummary''"
definition rpc_PuppetFact :: string where "rpc_PuppetFact = ''PuppetFact''"
definition rpc_PuppetFacts :: string where "rpc_PuppetFacts = ''PuppetFacts''"
definition rpc_PuppetClasses :: string where "rpc_PuppetClasses = ''PuppetClasses''"
definition rpc_PuppetQuery :: string where "rpc_PuppetQuery = ''PuppetQuery''"
definition rpc_PuppetNoMatch :: string where "rpc_PuppetNoMatch = ''PuppetNoMatch''"

lemmas rpc_defs = rpc_Error_def rpc_PuppetRunStatus_def rpc_PuppetRunSummary_def
  rpc_PuppetFact_def rpc_PuppetFacts_def rpc_PuppetClasses_def rpc_PuppetQuery_def
  rpc_PuppetNoMatch_def

definition cmd_Status :: string where "cmd_Status = ''status''"
definition cmd_Run :: string where "cmd_Run = ''run''"
definition cmd_Fact :: string where "cmd_Fact = ''fact''"
definition cmd_Query :: string where "cmd_Query = ''query''"
definition cmd_FactList :: string where "cmd_FactList = ''facts''"
definition cmd_ClassList :: string where "cmd_ClassList = ''classes''"
definition FeatureAnswerAlways :: string where "FeatureAnswerAlways = ''answer-always''"

lemmas cmd_defs = cmd_Status_def cmd_Run_def cmd_Fact_def cmd_Query_def cmd_FactList_def
  cmd_ClassList_def

definition Features :: "string list" where
  "Features = [cmd_Status, cmd_Run, cmd_Fact, cmd_Query, cmd_FactList, cmd_ClassList,
     FeatureAnswerAlways]"

lemma rpc_distinct [simp]:
  "rpc_PuppetNoMatch \<noteq> rpc_Error" "rpc_PuppetQuery \<noteq> rpc_Error" "rpc_PuppetQuery \<noteq> rpc_PuppetNoMatch"
  "rpc_PuppetRunSummary \<noteq> rpc_Error" "rpc_PuppetRunSummary \<noteq> rpc_PuppetNoMatch"
  "rpc_PuppetFacts \<noteq> rpc_Error" "rpc_PuppetFacts \<noteq> rpc_PuppetNoMatch"
  "rpc_PuppetClasses \<noteq> rpc_Error" "rpc_PuppetClasses \<noteq> rpc_PuppetNoMatch"
  "rpc_PuppetFact \<noteq> rpc_Error" "rpc_PuppetFact \<noteq> rpc_PuppetNoMatch"
  "rpc_PuppetRunStatus \<noteq> rpc_Error" "rpc_PuppetRunStatus \<noteq> rpc_PuppetNoMatch"
  by (simp_all add: rpc_defs)

lemma cmd_distinct [simp]:
  "cmd_Status \<noteq> cmd_Query" "cmd_Run \<noteq> cmd_Query" "cmd_Fact \<noteq> cmd_Query"
  "cmd_FactList \<noteq> cmd_Query" "cmd_ClassList \<noteq> cmd_Query"
  "cmd_Run \<noteq> cmd_Status" "cmd_Fact \<noteq> cmd_Status" "cmd_FactList \<noteq> cmd_Status"
  "cmd_ClassList \<noteq> cmd_Status" "cmd_Fact \<noteq> cmd_Run" "cmd_FactList \<noteq> cmd_Run"
  "cmd_ClassList \<noteq> cmd_Run" "cmd_FactList \<noteq> cmd_Fact" "cmd_ClassList \<noteq> cmd_Fact"
  "cmd_ClassList \<noteq> cmd_FactList"
  by (simp_all add: cmd_defs)

section \<open>Commands and replies\<close>

record RunStatus =
  rs_Scheduled :: bool
  rs_Busy :: bool
  rs_Downtime :: bool
  rs_Started :: bool
  rs_Applying :: bool

definition zeroRunStatus :: RunStatus where
  "zeroRunStatus = \<lparr>rs_Scheduled = False, rs_Busy = False, rs_Downtime = False,
     rs_Started = False, rs_Applying = False\<rparr>"

record RunOptions =
  ro_Delay :: duration
  ro_RandomizeDelay :: bool
  ro_Noop :: bool

datatype params =
    NoParams
  | RunParams RunOptions
  | FactParams string
  | FactListParams "string list"

record PuppetCmdSend =
  ps_Command :: string
  ps_Filter :: string
  ps_AnswerAlways :: bool
  ps_Parameters :: params

record 'b PuppetCmdRecv =
  pr_Command :: string
  pr_Filter :: string
  pr_AnswerAlways :: bool
  pr_Parameters :: 'b

text \<open>The reply bodies the puppet module marshals.\<close>

datatype payload =
    PMsg string
  | PQuery QueryReply
  | PFacts FactsReply
  | PClasses ClassesReply
  | PSummary LastRunSummary
  | PRunStatus RunStatus
  | PFact "gv gomap"

record 'b codec =
  c_encode :: "payload \<Rightarrow> string + 'b"
  c_encodeCmd :: "PuppetCmdSend \<Rightarrow> string + 'b"
  c_decodeCmd :: "'b \<Rightarrow> string + 'b PuppetCmdRecv"
  c_isEmpty :: "'b \<Rightarrow> bool"
  c_decodeRun :: "'b \<Rightarrow> string + RunOptions"
  c_decodeFactName :: "'b \<Rightarrow> string + string"
  c_decodeKeys :: "'b \<Rightarrow> string + string list"
  c_decodeMsg :: "'b \<Rightarrow> string + string"
  c_decodeQuery :: "'b \<Rightarrow> string + QueryReply"
  c_decodeFacts :: "'b \<Rightarrow> string + FactsReply"
  c_decodeClasses :: "'b \<Rightarrow> string + ClassesReply"
  c_decodeSummary :: "'b \<Rightarrow> string + LastRunSummary"
  c_decodeFact :: "'b \<Rightarrow> string + gv gomap"
  c_text :: "'b \<Rightarrow> string"

definition params_ok :: "'b codec \<Rightarrow> params \<Rightarrow> 'b \<Rightarrow> bool" where
  "params_ok cd ps b =
     (case ps of
        NoParams \<Rightarrow> c_isEmpty cd b \<or> c_decodeKeys cd b = Inr []
      | RunParams r \<Rightarrow> c_decodeRun cd b = Inr r
      | FactParams n \<Rightarrow> c_decodeFactName cd b = Inr n
      | FactListParams ks \<Rightarrow>
          (if ks = [] then c_isEmpty cd b \<or> c_decodeKeys cd b = Inr []
           else \<not> c_isEmpty cd b \<and> c_decodeKeys cd b = Inr ks))"

text \<open>
  Strings, booleans and lists of strings come back as they were, but an empty list may come back nil.
  Nothing is required of times, of the numbers of a run summary and of fact values.
\<close>

definition reply_ok :: "'b codec \<Rightarrow> payload \<Rightarrow> 'b \<Rightarrow> bool" where
  "reply_ok cd p b =
     (case p of
        PMsg m \<Rightarrow> c_decodeMsg cd b = Inr m
      | PQuery r \<Rightarrow> c_decodeQuery cd b = Inr r
      | PFacts r \<Rightarrow> (\<forall>r'. c_decodeFacts cd b = Inr r' \<longrightarrow> fr_FQDN r' = fr_FQDN r)
      | PClasses r \<Rightarrow> (\<exists>r'. c_decodeClasses cd b = Inr r' \<and> cr_FQDN r' = cr_FQDN r
          \<and> or_empty (cr_Classes r') = or_empty (cr_Classes r))
      | PSummary r \<Rightarrow> True
      | PRunStatus r \<Rightarrow> True
      | PFact m \<Rightarrow> True)"

definition codec_ok :: "'b codec \<Rightarrow> bool" where
  "codec_ok cd =
     ((\<forall>p. \<exists>b. c_encode cd p = Inr b \<and> reply_ok cd p b)
      \<and> (\<forall>c. \<exists>b r. c_encodeCmd cd c = Inr b \<and> c_decodeCmd cd b = Inr r
           \<and> pr_Command r = ps_Command c \<and> pr_Filter r = ps_Filter c
           \<and> pr_AnswerAlways r = ps_AnswerAlways c \<and> params_ok cd (ps_Parameters c) (pr_Parameters r)))"

section \<open>Replying\<close>

datatype wire_err =
    NoReplyTo
  | NoTransport
  | NodeNameRequired
  | NoAddress

fun wire_errText :: "wire_err \<Rightarrow> string" where
  "wire_errText NoReplyTo = ''no reply-to in event, can not answer it''"
| "wire_errText NoTransport = ''no transport, this runtime can not subscribe''"
| "wire_errText NodeNameRequired = ''node name required''"
| "wire_errText NoAddress = ''no MQ address configured''"

declare wire_errText.simps [simp del]

text \<open>The events sent (topic and event), and the error.\<close>

definition runtime_Reply ::
  "'b zn \<Rightarrow> 'b event \<Rightarrow> 'b event \<Rightarrow> (string \<times> 'b event) list \<times> string option" where
  "runtime_Reply n ev reply =
     (if ev_ReplyTo ev = [] then ([], Some (wire_errText NoReplyTo))
      else
        let reply' = (case gm_get (ev_Headers ev) ''correlation-id'' of
                        Some cid \<Rightarrow> set_header ''correlation-id'' cid reply
                      | None \<Rightarrow> reply)
        in case zn_SendEvent n (ev_ReplyTo ev) reply' of
             None \<Rightarrow> ([(ev_ReplyTo ev, reply')], None)
           | Some er \<Rightarrow> ([], Some er))"

section \<open>Topics\<close>

definition EventRoot :: "string \<Rightarrow> string" where
  "EventRoot prefix = trimSuffix prefix [SLASH]"

definition rawTopic :: "string \<Rightarrow> string \<Rightarrow> string" where
  "rawTopic mqPrefix topic = EventRoot mqPrefix @ [SLASH] @ topic"

definition SubscribeRaw :: "bool \<Rightarrow> (string \<Rightarrow> string option) \<Rightarrow> string \<Rightarrow> string \<Rightarrow> string + string" where
  "SubscribeRaw hasTransport subscribe mqPrefix topic =
     (if \<not> hasTransport then Inl (wire_errText NoTransport)
      else case subscribe (rawTopic mqPrefix topic) of
        Some er \<Rightarrow> Inl er
      | None \<Rightarrow> Inr (rawTopic mqPrefix topic))"

section \<open>Random identifiers\<close>

text \<open>
  \<open>reads\<close> is what successive calls of the random source deliver, the empty string a failed
  read. The counter is checked before each further read, so the loop makes at most ten.
\<close>

function RngBlob_loop :: "nat \<Rightarrow> nat \<Rightarrow> string \<Rightarrow> string list \<Rightarrow> string outcome" where
  "RngBlob_loop bytes errctr rnd reads =
     (if errctr + 1 > 10 then Panic
      else let i = take (bytes - length rnd) (case reads of [] \<Rightarrow> [] | r # _ \<Rightarrow> r);
               rnd' = rnd @ i
           in if length rnd' \<ge> bytes then Ret rnd'
              else RngBlob_loop bytes (errctr + 1) rnd' (tl reads))"
  by pat_completeness auto
termination
  by (relation "measure (\<lambda>(bytes, errctr, rnd, reads). 11 - errctr)") auto

declare RngBlob_loop.simps [simp del]

definition RngBlob :: "nat \<Rightarrow> string list \<Rightarrow> string outcome" where
  "RngBlob bytes reads =
     (let i = take bytes (case reads of [] \<Rightarrow> [] | r # _ \<Rightarrow> r)
      in if length i = bytes then Ret i else RngBlob_loop bytes 0 i (tl reads))"

text \<open>
  The seed of a generator: eight random bytes, most significant first, read as a signed number.
\<close>

definition beUint64 :: "string \<Rightarrow> int" where
  "beUint64 blob = foldl (\<lambda>n c. n * 256 + of_char c) 0 (take 8 blob)"

definition SeededPRNG :: "string list \<Rightarrow> int outcome" where
  "SeededPRNG reads =
     outcome_bind (RngBlob 8 reads) (\<lambda>blob. if length blob < 8 then Panic else Ret (wrap64 (beUint64 blob)))"

text \<open>Base64 without its padding, with the two characters MQTT topics dislike replaced.\<close>

definition b64_alphabet :: string where
  "b64_alphabet = ''ABCDEFGHIJKLMNOPQRSTUVWXYZabcdefghijklmnopqrstuvwxyz0123456789+/''"

fun b64_sextets :: "nat list \<Rightarrow> nat list" where
  "b64_sextets [] = []"
| "b64_sextets [a] = [a div 4, (a mod 4) * 16]"
| "b64_sextets [a, b] = [a div 4, (a mod 4) * 16 + b div 16, (b mod 16) * 4]"
| "b64_sextets (a # b # c # xs) =
     [a div 4, (a mod 4) * 16 + b div 16, (b mod 16) * 4 + c div 64, c mod 64] @ b64_sextets xs"

definition b64_padding :: "nat list \<Rightarrow> string" where
  "b64_padding xs = replicate ((3 - length xs mod 3) mod 3) (CHR ''='')"

definition base64_EncodeToString :: "string \<Rightarrow> string" where
  "base64_EncodeToString data =
     (let xs = map of_char data
      in map (\<lambda>i. b64_alphabet ! i) (b64_sextets xs) @ b64_padding xs)"

definition base64Replacer :: "string \<Rightarrow> string" where
  "base64Replacer s =
     map (\<lambda>c. if c = CHR ''+'' then CHR ''_'' else if c = SLASH then CHR ''-'' else c) s"

definition MapBytesToTopicTitle :: "string \<Rightarrow> string" where
  "MapBytesToTopicTitle data =
     base64Replacer (trimBy (\<lambda>c. c = CHR ''='') (base64_EncodeToString data))"

section \<open>Lemmas\<close>

lemma header_string_set [simp]:
  "header_string (set_header k v ev) k' =
     (if k' = k then (case v of HStr s \<Rightarrow> Some s | _ \<Rightarrow> None) else header_string ev k')"
  by (auto simp: header_string_def set_header_def split: hval.splits)

lemma set_header_simps [simp]:
  "ev_NodeName (set_header k v ev) = ev_NodeName ev"
  "ev_RoutingKey (set_header k v ev) = ev_RoutingKey ev"
  "ev_ReplyTo (set_header k v ev) = ev_ReplyTo ev"
  "ev_Body (set_header k v ev) = ev_Body ev"
  "ev_Headers (set_header k v ev) = gm_put k v (ev_Headers ev)"
  by (simp_all add: set_header_def)

lemma header_string_body [simp]: "header_string (ev\<lparr>ev_Body := b\<rparr>) k = header_string ev k"
  by (simp add: header_string_def)

lemma header_string_route [simp]: "header_string (ev\<lparr>ev_RoutingKey := b\<rparr>) k = header_string ev k"
  by (simp add: header_string_def)

lemma header_string_replyto [simp]: "header_string (ev\<lparr>ev_ReplyTo := b\<rparr>) k = header_string ev k"
  by (simp add: header_string_def)

lemma codec_ok_reply: "codec_ok cd \<Longrightarrow> \<exists>b. c_encode cd p = Inr b \<and> reply_ok cd p b"
  by (simp add: codec_ok_def)

lemma codec_ok_cmd:
  "codec_ok cd \<Longrightarrow> \<exists>b r. c_encodeCmd cd c = Inr b \<and> c_decodeCmd cd b = Inr r
     \<and> pr_Command r = ps_Command c \<and> pr_Filter r = ps_Filter c
     \<and> pr_AnswerAlways r = ps_AnswerAlways c \<and> params_ok cd (ps_Parameters c) (pr_Parameters r)"
  by (simp add: codec_ok_def)

subsection \<open>Random blobs\<close>

lemma RngBlob_loop_length:
  "RngBlob_loop bytes errctr rnd reads = Ret b \<Longrightarrow> length rnd \<le> bytes \<Longrightarrow> length b = bytes"
proof (induction bytes errctr rnd reads rule: RngBlob_loop.induct)
  case (1 bytes errctr rnd reads)
  show ?case
    using "1.prems" "1.IH" [OF _ refl refl]
    by (subst (asm) RngBlob_loop.simps) (auto simp: Let_def split: if_splits)
qed

lemma RngBlob_length: "RngBlob bytes reads = Ret b \<Longrightarrow> length b = bytes"
  by (auto simp: RngBlob_def Let_def split: if_splits dest!: RngBlob_loop_length)

subsection \<open>Seeds\<close>

lemma of_char_bound: "\<forall>x \<in> set (map of_char (s :: string)). x < (256 :: nat)"
  by auto

lemma byte_bound: "0 \<le> (of_char c :: int) \<and> (of_char c :: int) < 256"
proof -
  have "(of_char c :: int) = int (of_char c)" by (simp only: of_nat_of_char)
  moreover have "(of_char c :: nat) < 256" using of_char_bound [of "[c]"] by simp
  ultimately show ?thesis by linarith
qed

lemma bytes_bound: "0 \<le> foldl (\<lambda>n c. n * 256 + of_char c) (0 :: int) s \<and> foldl (\<lambda>n c. n * 256 + of_char c) (0 :: int) s < 256 ^ length s"
proof (induction s rule: rev_induct)
  case (snoc c s)
  with byte_bound [of c] show ?case by (simp add: algebra_simps)
qed simp

lemma bytes_inj:
  "length s = length t \<Longrightarrow> foldl (\<lambda>n c. n * 256 + of_char c) (0 :: int) s = foldl (\<lambda>n c. n * 256 + of_char c) 0 t \<Longrightarrow> s = t"
proof (induction s arbitrary: t rule: rev_induct)
  case (snoc c s)
  from snoc.prems(1) obtain t' d where t: "t = t' @ [d]" by (cases t rule: rev_cases) auto
  let ?f = "\<lambda>xs. foldl (\<lambda>n c. n * 256 + of_char c) (0 :: int) xs"
  have e: "?f s * 256 + of_char c = ?f t' * 256 + of_char d" using snoc.prems(2) t by simp
  from e byte_bound [of c] byte_bound [of d] have "?f s = ?f t'" by linarith
  moreover from this e have "(of_char c :: int) = of_char d" by linarith
  ultimately show ?case using snoc.IH [of t'] snoc.prems(1) t by simp
qed simp

lemma wrap64_inj: "\<lbrakk>0 \<le> x; x < 2 ^ 64; 0 \<le> y; y < 2 ^ 64; wrap64 x = wrap64 y\<rbrakk> \<Longrightarrow> x = y"
proof -
  assume b: "0 \<le> x" "x < 2 ^ 64" "0 \<le> y" "y < 2 ^ 64" and "wrap64 x = wrap64 y"
  then have "(x + 2 ^ 63) mod 2 ^ 64 = (y + 2 ^ 63) mod 2 ^ 64" by (simp only: wrap64_def diff_left_imp_eq eq_diff_eq diff_add_cancel)
  then have "(2 ^ 64 :: int) dvd x - y" by (simp only: mod_eq_dvd_iff add_diff_cancel_right)
  then show ?thesis using b dvd_imp_le_int [of "x - y" "2 ^ 64"] by (cases "x = y") auto
qed

text \<open>A generator is always seeded, unless the random source fails, and different blobs give different seeds.\<close>

lemma SeededPRNG_seeds: "RngBlob 8 reads = Ret blob \<Longrightarrow> SeededPRNG reads = Ret (wrap64 (beUint64 blob))"
  using RngBlob_length [of 8 reads blob] by (simp add: SeededPRNG_def)

lemma seeds_differ:
  assumes "RngBlob 8 reads = Ret a" and "RngBlob 8 reads' = Ret b" and "SeededPRNG reads = SeededPRNG reads'"
  shows "a = b"
proof -
  have l: "length a = 8" "length b = 8" using assms(1,2) RngBlob_length by blast+
  have "wrap64 (beUint64 a) = wrap64 (beUint64 b)" using assms by (simp add: SeededPRNG_seeds)
  moreover have "0 \<le> beUint64 c \<and> beUint64 c < 2 ^ 64" if "length c = 8" for c
    using bytes_bound [of c] that by (simp add: beUint64_def)
  ultimately have "beUint64 a = beUint64 b" using l wrap64_inj by blast
  then show ?thesis using l bytes_inj [of a b] by (simp add: beUint64_def)
qed

subsection \<open>Topic titles\<close>

fun unsextets :: "nat list \<Rightarrow> nat list" where
  "unsextets [] = []"
| "unsextets [a] = []"
| "unsextets [a, b] = [a * 4 + b div 16]"
| "unsextets [a, b, c] = [a * 4 + b div 16, (b mod 16) * 16 + c div 4]"
| "unsextets (a # b # c # d # xs) =
     [a * 4 + b div 16, (b mod 16) * 16 + c div 4, (c mod 4) * 64 + d] @ unsextets xs"

lemma sextets_bound: "(\<forall>x \<in> set xs. x < 256) \<Longrightarrow> (\<forall>i \<in> set (b64_sextets xs). i < 64)"
  by (induction xs rule: b64_sextets.induct) auto

lemmas data_sextets_bound = sextets_bound [OF of_char_bound]

lemma unsextets_sextets: "(\<forall>x \<in> set xs. x < 256) \<Longrightarrow> unsextets (b64_sextets xs) = xs"
  by (induction xs rule: b64_sextets.induct) auto

lemma sextets_inj:
  "(\<forall>x \<in> set xs. x < 256) \<Longrightarrow> (\<forall>x \<in> set ys. x < 256) \<Longrightarrow> b64_sextets xs = b64_sextets ys \<Longrightarrow> xs = ys"
  by (metis unsextets_sextets)

definition title_alphabet :: string where
  "title_alphabet = ''ABCDEFGHIJKLMNOPQRSTUVWXYZabcdefghijklmnopqrstuvwxyz0123456789_-''"

lemma title_alphabet_eq: "title_alphabet = base64Replacer b64_alphabet"
  by (simp add: title_alphabet_def b64_alphabet_def base64Replacer_def)

lemma title_alphabet_distinct: "distinct title_alphabet" "length title_alphabet = 64"
  by (simp_all add: title_alphabet_def)

lemma no_padding_char: "CHR ''='' \<notin> set b64_alphabet" "length b64_alphabet = 64"
  by (simp_all add: b64_alphabet_def)

lemma trimBy_padding:
  assumes "c \<notin> set w"
  shows "trimBy (\<lambda>x. x = c) (w @ replicate n c) = w"
proof -
  have d: "dropWhile (\<lambda>x. x = c) (rev w) = rev w"
    using assms by (cases w rule: rev_cases) auto
  have r: "dropWhile (\<lambda>x. x = c) (replicate n c @ v) = dropWhile (\<lambda>x. x = c) v" for v
    by (induction n) auto
  show ?thesis
  proof (cases w)
    case Nil
    then show ?thesis using r [of "[]"] by (simp add: trimBy_def trimRightBy_def)
  next
    case (Cons x xs)
    with assms have "dropWhile (\<lambda>x. x = c) (w @ replicate n c) = w @ replicate n c" by auto
    then show ?thesis using d r [of "rev w"] by (simp add: trimBy_def trimRightBy_def)
  qed
qed

lemma MapBytesToTopicTitle_eq:
  "MapBytesToTopicTitle data = map (\<lambda>i. title_alphabet ! i) (b64_sextets (map of_char data))"
proof -
  let ?s = "b64_sextets (map of_char data)"
  have b: "\<forall>i \<in> set ?s. i < 64" by (rule data_sextets_bound)
  then have "CHR ''='' \<notin> set (map (\<lambda>i. b64_alphabet ! i) ?s)"
    using no_padding_char by (metis (no_types, lifting) imageE list.set_map nth_mem)
  then have "MapBytesToTopicTitle data = base64Replacer (map (\<lambda>i. b64_alphabet ! i) ?s)"
    by (simp add: MapBytesToTopicTitle_def base64_EncodeToString_def b64_padding_def Let_def
        trimBy_padding)
  also have "\<dots> = map (\<lambda>i. title_alphabet ! i) ?s"
    using b no_padding_char(2) by (simp add: title_alphabet_eq base64Replacer_def)
  finally show ?thesis .
qed

lemma MapBytesToTopicTitle_chars:
  "c \<in> set (MapBytesToTopicTitle data) \<Longrightarrow> c \<in> set title_alphabet"
proof -
  assume "c \<in> set (MapBytesToTopicTitle data)"
  then obtain i where "i \<in> set (b64_sextets (map of_char data))" "c = title_alphabet ! i"
    by (auto simp: MapBytesToTopicTitle_eq)
  then show ?thesis using data_sextets_bound [of data] by (simp add: title_alphabet_distinct(2))
qed

lemma title_no_slash: "SLASH \<notin> set (MapBytesToTopicTitle data)"
proof
  assume "SLASH \<in> set (MapBytesToTopicTitle data)"
  then have "SLASH \<in> set title_alphabet" by (rule MapBytesToTopicTitle_chars)
  then show False by (simp add: title_alphabet_def)
qed

lemma title_not_Nil: "data \<noteq> [] \<Longrightarrow> MapBytesToTopicTitle data \<noteq> []"
  by (cases "map of_char data :: nat list" rule: b64_sextets.cases)
    (auto simp: MapBytesToTopicTitle_eq)

lemma title_inj: "inj_on (\<lambda>i. title_alphabet ! i) {..<64}"
  using inj_on_nth [OF title_alphabet_distinct(1)] title_alphabet_distinct(2) by simp

section \<open>A concrete codec and node\<close>

text \<open>Bodies that are their content: the free instance of the codec parameter.\<close>

datatype plainBody = BReply payload | BCmd PuppetCmdSend | BParams params

definition plainCodec :: "plainBody codec" where
  "plainCodec =
     \<lparr>c_encode = (\<lambda>p. Inr (BReply p)),
      c_encodeCmd = (\<lambda>c. Inr (BCmd c)),
      c_decodeCmd = (\<lambda>b. case b of
          BCmd c \<Rightarrow> Inr \<lparr>pr_Command = ps_Command c, pr_Filter = ps_Filter c,
                        pr_AnswerAlways = ps_AnswerAlways c, pr_Parameters = BParams (ps_Parameters c)\<rparr>
        | _ \<Rightarrow> Inl ''not a command''),
      c_isEmpty = (\<lambda>b. b = BParams NoParams),
      c_decodeRun = (\<lambda>b. case b of BParams (RunParams r) \<Rightarrow> Inr r | _ \<Rightarrow> Inl ''type''),
      c_decodeFactName = (\<lambda>b. case b of BParams (FactParams n) \<Rightarrow> Inr n | _ \<Rightarrow> Inl ''type''),
      c_decodeKeys = (\<lambda>b. case b of BParams (FactListParams ks) \<Rightarrow> Inr ks | _ \<Rightarrow> Inl ''type''),
      c_decodeMsg = (\<lambda>b. case b of BReply (PMsg m) \<Rightarrow> Inr m | _ \<Rightarrow> Inl ''type''),
      c_decodeQuery = (\<lambda>b. case b of BReply (PQuery q) \<Rightarrow> Inr q | _ \<Rightarrow> Inl ''type''),
      c_decodeFacts = (\<lambda>b. case b of BReply (PFacts q) \<Rightarrow> Inr q | _ \<Rightarrow> Inl ''type''),
      c_decodeClasses = (\<lambda>b. case b of BReply (PClasses q) \<Rightarrow> Inr q | _ \<Rightarrow> Inl ''type''),
      c_decodeSummary = (\<lambda>b. case b of BReply (PSummary q) \<Rightarrow> Inr q | _ \<Rightarrow> Inl ''type''),
      c_decodeFact = (\<lambda>b. case b of BReply (PFact m) \<Rightarrow> Inr m | _ \<Rightarrow> Inl ''type''),
      c_text = (\<lambda>b. '''')\<rparr>"

lemma plainCodec_ok: "codec_ok plainCodec"
  by (auto simp: codec_ok_def plainCodec_def reply_ok_def params_ok_def split: payload.splits params.splits)

definition plainEvent :: "plainBody \<Rightarrow> plainBody event" where
  "plainEvent b = \<lparr>ev_NodeName = '''', ev_RoutingKey = ''rv/puppet'', ev_ReplyTo = ''reply/1'',
     ev_Headers = [(''correlation-id'', HStr ''1'')], ev_Body = b\<rparr>"

definition plainNode :: "string \<Rightarrow> plainBody zn" where
  "plainNode name =
     \<lparr>zn_Name = name, zn_UUID = ''uuid-'' @ name,
      zn_NewEvent = (plainEvent (BParams NoParams))\<lparr>ev_NodeName := name, ev_Headers := []\<rparr>,
      zn_PrepareReply = (\<lambda>ev. (plainEvent (BParams NoParams))\<lparr>ev_NodeName := name, ev_Headers := []\<rparr>),
      zn_SendEvent = (\<lambda>t ev. None)\<rparr>"

section \<open>Properties\<close>

text \<open>
  Different random blobs give different call identifiers, and an identifier is one topic
  level: it contains none of the characters that mean something in a topic.
\<close>

theorem topic_titles_unique_and_safe:
  "inj MapBytesToTopicTitle \<and>
   set (MapBytesToTopicTitle data) \<inter> {SLASH, CHR ''+'', CHR ''#'', CHR ''=''} = {}"
proof
  show "inj MapBytesToTopicTitle"
  proof (rule injI)
    fix x y :: string
    let ?x = "map of_char x :: nat list" and ?y = "map of_char y :: nat list"
    assume eq: "MapBytesToTopicTitle x = MapBytesToTopicTitle y"
    from eq have "map (\<lambda>i. title_alphabet ! i) (b64_sextets ?x) = map (\<lambda>i. title_alphabet ! i) (b64_sextets ?y)"
      by (simp only: MapBytesToTopicTitle_eq)
    moreover have "inj_on (\<lambda>i. title_alphabet ! i) (set (b64_sextets ?x) \<union> set (b64_sextets ?y))"
      by (rule inj_on_subset [OF title_inj]) (use data_sextets_bound in auto)
    ultimately have "b64_sextets ?x = b64_sextets ?y" by (rule map_inj_on)
    then have "?x = ?y" by (rule sextets_inj [OF of_char_bound of_char_bound])
    then show "x = y" by (metis (no_types, lifting) char_of_char map_idI map_map comp_apply)
  qed
  have "set (MapBytesToTopicTitle data) \<subseteq> set title_alphabet"
    using MapBytesToTopicTitle_chars by blast
  moreover have "set title_alphabet \<inter> {SLASH, CHR ''+'', CHR ''#'', CHR ''=''} = {}"
    by (simp add: title_alphabet_def)
  ultimately show "set (MapBytesToTopicTitle data) \<inter> {SLASH, CHR ''+'', CHR ''#'', CHR ''=''} = {}"
    by blast
qed

end
