(* ===== verification/Rpc_Session.thy ===== *)
theory Rpc_Session
  imports Wire "HOL-Library.Sublist"
begin

text \<open>
  The RPC session of the client, \<^verbatim>\<open>client/session.go\<close>: any number of calls over one reply
  subscription. A call is numbered; \<open>s_chans\<close> holds the buffered replies of each call,
  \<open>s_got\<close> the replies its callback has seen, \<open>s_ids\<close> its identifier. \<open>s_calls\<close> is the map the
  router looks identifiers up in. \<open>s_log\<close> records the events the router has read.

  The router, the callers and \<^verbatim>\<open>Close\<close> run in goroutines of their own: \<open>session_step\<close> interleaves
  them freely. Identifiers are random, so a collision is possible and is modelled.
\<close>

section \<open>Replies\<close>

record Request =
  rq_Topic :: string
  rq_Command :: string
  rq_Filter :: string
  rq_Params :: params
  rq_AnswerAlways :: bool

record 'b Reply =
  rp_FQDN :: string
  rp_ReplyType :: string
  rp_Body :: 'b
  rp_NodeErr :: "string option"
  rp_NoMatch :: bool

definition callID :: "'b event \<Rightarrow> string" where
  "callID ev =
     (case header_string ev ''correlation-id'' of
        Some cid \<Rightarrow> if length cid > 0 then cid else last (strSplit (ev_RoutingKey ev) SLASH)
      | None \<Rightarrow> last (strSplit (ev_RoutingKey ev) SLASH))"

datatype session_err =
    SE_Subscribe string
  | SE_Closed
  | SE_Marshal string string
  | SE_Send string string
  | NodeReported string

fun session_errText :: "session_err \<Rightarrow> string" where
  "session_errText (SE_Subscribe er) = ''can't subscribe for replies: '' @ er"
| "session_errText SE_Closed = ''session is closed''"
| "session_errText (SE_Marshal c er) = ''error marshalling '' @ c @ '' command: '' @ er"
| "session_errText (SE_Send c er) = ''error sending '' @ c @ '' command: '' @ er"
| "session_errText (NodeReported body) = ''node reported an error: '' @ body"

declare session_errText.simps [simp del]

definition nodeError :: "'b codec \<Rightarrow> 'b \<Rightarrow> string" where
  "nodeError cd body =
     (case c_decodeMsg cd body of
        Inr msg \<Rightarrow> if length msg > 0 then msg else session_errText (NodeReported (c_text cd body))
      | Inl _ \<Rightarrow> session_errText (NodeReported (c_text cd body)))"

definition newReply :: "'b codec \<Rightarrow> 'b event \<Rightarrow> 'b Reply" where
  "newReply cd ev =
     (let replyType = (case header_string ev ''reply-type'' of Some t \<Rightarrow> t | None \<Rightarrow> '''')
      in \<lparr>rp_FQDN = (case header_string ev ''fqdn'' of Some f \<Rightarrow> f | None \<Rightarrow> ev_NodeName ev),
          rp_ReplyType = replyType,
          rp_Body = ev_Body ev,
          rp_NodeErr = (if replyType = rpc_Error then Some (nodeError cd (ev_Body ev)) else None),
          rp_NoMatch = (replyType = rpc_PuppetNoMatch)\<rparr>)"

section \<open>The session\<close>

definition replyBuffer :: nat where "replyBuffer = 512"

definition DefaultQueryTimeout :: duration where "DefaultQueryTimeout = 4 * second"

record 'b session =
  s_replyPath :: string
  s_calls :: "nat gomap"
  s_chans :: "'b Reply list list"
  s_got :: "'b Reply list list"
  s_ids :: "string list"
  s_live :: "nat list"
  s_closed :: bool
  s_log :: "'b event list"

definition NewSession :: "string + string \<Rightarrow> string + 'b session" where
  "NewSession replyChan =
     (case replyChan of
        Inl er \<Rightarrow> Inl (session_errText (SE_Subscribe er))
      | Inr path \<Rightarrow> Inr \<lparr>s_replyPath = path, s_calls = [], s_chans = [], s_got = [], s_ids = [],
                         s_live = [], s_closed = False, s_log = []\<rparr>)"

text \<open>One turn of the router: an unknown call and a full buffer both drop the reply.\<close>

definition route :: "'b codec \<Rightarrow> 'b event \<Rightarrow> 'b session \<Rightarrow> 'b session" where
  "route cd ev s0 =
     (let s = s0\<lparr>s_log := s_log s0 @ [ev]\<rparr> in
      case gm_get (s_calls s) (callID ev) of
        None \<Rightarrow> s
      | Some c \<Rightarrow>
          if length (s_chans s ! c) < replyBuffer then
            s\<lparr>s_chans := (s_chans s)[c := s_chans s ! c @ [newReply cd ev]]\<rparr>
          else s)"

text \<open>The start of a call: its number and the new state, or the error.\<close>

definition Call_begin :: "string \<Rightarrow> 'b session \<Rightarrow> string + nat \<times> 'b session" where
  "Call_begin cid s =
     (if s_closed s then Inl (session_errText SE_Closed)
      else let c = length (s_chans s)
           in Inr (c, s\<lparr>s_calls := gm_put cid c (s_calls s), s_chans := s_chans s @ [[]],
                        s_got := s_got s @ [[]], s_ids := s_ids s @ [cid],
                        s_live := c # s_live s\<rparr>))"

definition Call_event :: "'b codec \<Rightarrow> 'b zn \<Rightarrow> 'b session \<Rightarrow> string \<Rightarrow> Request \<Rightarrow> string + 'b event" where
  "Call_event cd n s cid req =
     (case c_encodeCmd cd \<lparr>ps_Command = rq_Command req, ps_Filter = rq_Filter req,
                           ps_AnswerAlways = rq_AnswerAlways req, ps_Parameters = rq_Params req\<rparr> of
        Inl er \<Rightarrow> Inl (session_errText (SE_Marshal (rq_Command req) er))
      | Inr b \<Rightarrow>
          Inr (set_header ''correlation-id'' (HStr cid)
            ((zn_NewEvent n)\<lparr>ev_Body := b, ev_ReplyTo := s_replyPath s @ [SLASH] @ cid\<rparr>)))"

definition Call_send :: "'b zn \<Rightarrow> Request \<Rightarrow> 'b event \<Rightarrow> string option" where
  "Call_send n req ev =
     (case zn_SendEvent n (rq_Topic req) ev of
        None \<Rightarrow> None
      | Some er \<Rightarrow> Some (session_errText (SE_Send (rq_Command req) er)))"

text \<open>When a call begun at \<open>now\<close> is over: the deadline of its context, or one of its own.\<close>

definition Call_deadline :: "gotime \<Rightarrow> gotime option \<Rightarrow> gotime" where
  "Call_deadline now deadline = (case deadline of Some t \<Rightarrow> t | None \<Rightarrow> now + DefaultQueryTimeout)"

text \<open>The call's loop takes the oldest buffered reply and hands it to the callback.\<close>

definition Call_take :: "nat \<Rightarrow> 'b session \<Rightarrow> 'b session" where
  "Call_take c s =
     (case s_chans s ! c of
        [] \<Rightarrow> s
      | r # rs \<Rightarrow> s\<lparr>s_chans := (s_chans s)[c := rs], s_got := (s_got s)[c := s_got s ! c @ [r]]\<rparr>)"

text \<open>
  The deferred deletion when a call returns, for whatever reason: callback done, deadline,
  marshalling or sending failed.
\<close>

definition Call_end :: "nat \<Rightarrow> 'b session \<Rightarrow> 'b session" where
  "Call_end c s =
     s\<lparr>s_calls := gm_del (s_ids s ! c) (s_calls s), s_live := removeAll c (s_live s)\<rparr>"

definition ReplyPath :: "'b session \<Rightarrow> string" where
  "ReplyPath s = s_replyPath s"

definition Session_Close :: "'b session \<Rightarrow> 'b session" where
  "Session_Close s = (if s_closed s then s else s\<lparr>s_closed := True, s_calls := []\<rparr>)"

text \<open>
  The callback loop as a function of the replies that arrive before the deadline: it stops at
  the first one for which the callback returns false.
\<close>

fun Call_loop :: "('s \<Rightarrow> 'b Reply \<Rightarrow> 's \<times> bool) \<Rightarrow> 's \<Rightarrow> 'b Reply list \<Rightarrow> 's" where
  "Call_loop onReply st [] = st"
| "Call_loop onReply st (r # rs) =
     (case onReply st r of (st', True) \<Rightarrow> Call_loop onReply st' rs | (st', False) \<Rightarrow> st')"

definition CallCollect :: "'b Reply list \<Rightarrow> 'b Reply list" where
  "CallCollect arrived = Call_loop (\<lambda>replies r. (replies @ [r], True)) [] arrived"

inductive session_step :: "'b codec \<Rightarrow> 'b session \<Rightarrow> 'b session \<Rightarrow> bool" for cd where
  ss_route: "session_step cd s (route cd ev s)"
| ss_begin: "Call_begin cid s = Inr (c, s') \<Longrightarrow> session_step cd s s'"
| ss_take: "c \<in> set (s_live s) \<Longrightarrow> session_step cd s (Call_take c s)"
| ss_end: "c \<in> set (s_live s) \<Longrightarrow> session_step cd s (Call_end c s)"
| ss_close: "session_step cd s (Session_Close s)"

inductive session_reachable :: "'b codec \<Rightarrow> 'b session \<Rightarrow> bool" for cd where
  sr_new: "NewSession rc = Inr s \<Longrightarrow> session_reachable cd s"
| sr_step: "session_reachable cd s \<Longrightarrow> session_step cd s s' \<Longrightarrow> session_reachable cd s'"

section \<open>Lemmas\<close>

lemma Call_loop_all: "Call_loop (\<lambda>st r. (f st r, True)) st rs = foldl f st rs"
  by (induction rs arbitrary: st) auto

lemma CallCollect_id: "CallCollect rs = rs"
proof -
  have "foldl (\<lambda>replies r. replies @ [r]) acc rs = acc @ rs" for acc :: "'a Reply list"
    by (induction rs arbitrary: acc) auto
  then show ?thesis by (simp add: CallCollect_def Call_loop_all)
qed

text \<open>
  The topic a reply is sent to ends with the call's identifier, so the router finds the call
  with or without the header.
\<close>

lemma callID_topic:
  assumes "SLASH \<notin> set cid" and "header_string ev ''correlation-id'' = None"
    and "ev_RoutingKey ev = path @ SLASH # cid"
  shows "callID ev = cid"
  using assms by (simp add: callID_def strSplit_whole)

lemma callID_header:
  "header_string ev ''correlation-id'' = Some cid \<Longrightarrow> cid \<noteq> [] \<Longrightarrow> callID ev = cid"
  by (simp add: callID_def)

text \<open>The replies meant for a call, in the order the router read them.\<close>

definition addressed :: "'b codec \<Rightarrow> 'b event list \<Rightarrow> string \<Rightarrow> 'b Reply list" where
  "addressed cd evs cid = map (newReply cd) (filter (\<lambda>ev. callID ev = cid) evs)"

lemma addressed_snoc:
  "addressed cd (evs @ [ev]) cid =
     addressed cd evs cid @ (if callID ev = cid then [newReply cd ev] else [])"
  by (simp add: addressed_def)

lemma subseq_addressed_mono:
  "subseq xs (addressed cd evs cid) \<Longrightarrow> subseq xs (addressed cd (evs @ [ev]) cid)"
  by (auto simp: addressed_snoc intro: subseq_rev_drop_many)

lemma subseq_addressed_snoc:
  "subseq xs (addressed cd evs cid) \<Longrightarrow> callID ev = cid \<Longrightarrow>
     subseq (xs @ [newReply cd ev]) (addressed cd (evs @ [ev]) cid)"
  by (simp add: addressed_snoc)

text \<open>
  The invariant: the tables have one entry per call (\<open>shape_inv\<close>), the map points a call's own
  identifier at it (\<open>calls_inv\<close>), and what a call got and still has waiting are replies meant
  for it, in order (\<open>call_inv\<close>).
\<close>

definition shape_inv :: "'b session \<Rightarrow> bool" where
  "shape_inv s \<longleftrightarrow> length (s_got s) = length (s_chans s) \<and> length (s_ids s) = length (s_chans s)
     \<and> (\<forall>c \<in> set (s_live s). c < length (s_chans s)) \<and> (s_closed s \<longrightarrow> s_calls s = [])"

definition calls_inv :: "'b session \<Rightarrow> bool" where
  "calls_inv s \<longleftrightarrow>
     (\<forall>cid c. gm_get (s_calls s) cid = Some c \<longrightarrow> c < length (s_chans s) \<and> s_ids s ! c = cid)"

definition call_inv :: "'b codec \<Rightarrow> 'b session \<Rightarrow> nat \<Rightarrow> bool" where
  "call_inv cd s c \<longleftrightarrow>
     subseq (s_got s ! c @ s_chans s ! c) (addressed cd (s_log s) (s_ids s ! c))
     \<and> length (s_chans s ! c) \<le> replyBuffer"

definition session_inv :: "'b codec \<Rightarrow> 'b session \<Rightarrow> bool" where
  "session_inv cd s \<longleftrightarrow> shape_inv s \<and> calls_inv s \<and> (\<forall>c < length (s_chans s). call_inv cd s c)"

lemma session_invI:
  "shape_inv s \<Longrightarrow> calls_inv s \<Longrightarrow> (\<And>c. c < length (s_chans s) \<Longrightarrow> call_inv cd s c) \<Longrightarrow> session_inv cd s"
  by (simp add: session_inv_def)

lemma session_invD:
  assumes "session_inv cd s"
  shows "shape_inv s" "calls_inv s" "c < length (s_chans s) \<Longrightarrow> call_inv cd s c"
  using assms by (simp_all add: session_inv_def)

lemma session_inv_new: "NewSession rc = Inr s \<Longrightarrow> session_inv cd s"
  by (auto simp: NewSession_def session_inv_def shape_inv_def calls_inv_def split: sum.splits)

lemma call_inv_log: "call_inv cd s c \<Longrightarrow> call_inv cd (s\<lparr>s_log := s_log s @ [ev]\<rparr>) c"
  by (simp add: call_inv_def subseq_addressed_mono)

text \<open>What a turn of the router does to the state.\<close>

lemma route_cases:
  assumes "calls_inv s"
  obtains "route cd ev s = s\<lparr>s_log := s_log s @ [ev]\<rparr>"
  | c where "c < length (s_chans s)" "s_ids s ! c = callID ev" "length (s_chans s ! c) < replyBuffer"
      "route cd ev s = s\<lparr>s_log := s_log s @ [ev],
         s_chans := (s_chans s)[c := s_chans s ! c @ [newReply cd ev]]\<rparr>"
proof (cases "gm_get (s_calls s) (callID ev)")
  case None
  then show thesis by (intro that(1)) (simp add: route_def Let_def)
next
  case (Some c)
  with assms have c: "c < length (s_chans s)" "s_ids s ! c = callID ev"
    unfolding calls_inv_def by blast+
  show thesis
  proof (cases "length (s_chans s ! c) < replyBuffer")
    case True
    with c Some show thesis by (intro that(2) [of c]) (simp_all add: route_def Let_def)
  next
    case False
    with Some show thesis by (intro that(1)) (simp add: route_def Let_def)
  qed
qed

lemma route_inv:
  assumes "session_inv cd s"
  shows "session_inv cd (route cd ev s)"
proof (rule route_cases [OF session_invD(2) [OF assms], of cd ev])
  assume r: "route cd ev s = s\<lparr>s_log := s_log s @ [ev]\<rparr>"
  show ?thesis unfolding r
  proof (rule session_invI)
    show "call_inv cd (s\<lparr>s_log := s_log s @ [ev]\<rparr>) c" if "c < length (s_chans (s\<lparr>s_log := s_log s @ [ev]\<rparr>))" for c
      using session_invD(3) [OF assms, of c] that by (simp add: call_inv_log)
  qed (use session_invD(1,2) [OF assms] in \<open>simp_all add: shape_inv_def calls_inv_def\<close>)
next
  fix c
  let ?s = "s\<lparr>s_log := s_log s @ [ev], s_chans := (s_chans s)[c := s_chans s ! c @ [newReply cd ev]]\<rparr>"
  assume c: "c < length (s_chans s)" "s_ids s ! c = callID ev" "length (s_chans s ! c) < replyBuffer"
    and r: "route cd ev s = ?s"
  show ?thesis unfolding r
  proof (rule session_invI)
    fix d
    assume d: "d < length (s_chans ?s)"
    have cd: "call_inv cd s d" using session_invD(3) [OF assms] d by simp
    show "call_inv cd ?s d"
    proof (cases "d = c")
      case True
      have "subseq ((s_got s ! c @ s_chans s ! c) @ [newReply cd ev])
          (addressed cd (s_log s @ [ev]) (s_ids s ! c))"
        by (rule subseq_addressed_snoc) (use cd True c(2) in \<open>simp_all add: call_inv_def\<close>)
      with True c(1,3) show ?thesis by (simp add: call_inv_def)
    next
      case False
      with cd show ?thesis by (simp add: call_inv_def subseq_addressed_mono)
    qed
  qed (use session_invD(1,2) [OF assms] in \<open>simp_all add: shape_inv_def calls_inv_def\<close>)
qed

lemma Call_begin_inv:
  assumes "session_inv cd s" and "Call_begin cid s = Inr (c, s')"
  shows "session_inv cd s'"
proof -
  let ?n = "length (s_chans s)"
  from assms(2) have o: "\<not> s_closed s" and s': "s' = s\<lparr>s_calls := gm_put cid ?n (s_calls s),
      s_chans := s_chans s @ [[]], s_got := s_got s @ [[]], s_ids := s_ids s @ [cid],
      s_live := ?n # s_live s\<rparr>"
    by (auto simp: Call_begin_def Let_def split: if_splits)
  note sh = session_invD(1) [OF assms(1), unfolded shape_inv_def]
  show ?thesis
  proof (rule session_invI)
    show "shape_inv s'" using sh o by (auto simp: shape_inv_def s')
    show "calls_inv s'"
      unfolding calls_inv_def
    proof (intro allI impI)
      fix k d
      assume g: "gm_get (s_calls s') k = Some d"
      show "d < length (s_chans s') \<and> s_ids s' ! d = k"
      proof (cases "k = cid")
        case True
        with g sh show ?thesis by (simp add: s' nth_append)
      next
        case False
        with g have "gm_get (s_calls s) k = Some d" by (simp add: s')
        with session_invD(2) [OF assms(1)] have "d < ?n \<and> s_ids s ! d = k"
          unfolding calls_inv_def by blast
        with sh show ?thesis by (simp add: s' nth_append)
      qed
    qed
    fix d
    assume "d < length (s_chans s')"
    then consider "d < ?n" | "d = ?n" by (simp add: s' less_Suc_eq) blast
    then show "call_inv cd s' d"
    proof cases
      case 1
      with session_invD(3) [OF assms(1), of d] sh show ?thesis by (simp add: call_inv_def s' nth_append)
    next
      case 2
      with sh show ?thesis by (simp add: call_inv_def s' nth_append)
    qed
  qed
qed

lemma Call_take_inv:
  assumes "session_inv cd s" and "c \<in> set (s_live s)"
  shows "session_inv cd (Call_take c s)"
proof (cases "s_chans s ! c")
  case Nil
  with assms(1) show ?thesis by (simp add: Call_take_def)
next
  case (Cons r rs)
  let ?s = "s\<lparr>s_chans := (s_chans s)[c := rs], s_got := (s_got s)[c := s_got s ! c @ [r]]\<rparr>"
  note sh = session_invD(1) [OF assms(1), unfolded shape_inv_def]
  have t: "Call_take c s = ?s" using Cons by (simp add: Call_take_def)
  show ?thesis unfolding t
  proof (rule session_invI)
    fix d
    assume "d < length (s_chans ?s)"
    then have cd: "call_inv cd s d" "d < length (s_got s)" "d < length (s_chans s)"
      using session_invD(3) [OF assms(1)] sh by simp_all
    then show "call_inv cd ?s d"
      using Cons by (cases "d = c") (simp_all add: call_inv_def)
  qed (use session_invD(1,2) [OF assms(1)] in \<open>simp_all add: shape_inv_def calls_inv_def\<close>)
qed

lemma Call_end_inv:
  assumes "session_inv cd s"
  shows "session_inv cd (Call_end c s)"
proof (rule session_invI)
  show "call_inv cd (Call_end c s) d" if "d < length (s_chans (Call_end c s))" for d
    using session_invD(3) [OF assms, of d] that by (simp add: call_inv_def Call_end_def)
qed (use session_invD(1,2) [OF assms] in
  \<open>auto simp: shape_inv_def calls_inv_def Call_end_def split: if_splits\<close>)

lemma Session_Close_inv:
  assumes "session_inv cd s"
  shows "session_inv cd (Session_Close s)"
proof (rule session_invI)
  show "call_inv cd (Session_Close s) d" if "d < length (s_chans (Session_Close s))" for d
    using session_invD(3) [OF assms, of d] that
    by (simp add: call_inv_def Session_Close_def split: if_splits)
qed (use session_invD(1,2) [OF assms] in
  \<open>simp_all add: shape_inv_def calls_inv_def Session_Close_def\<close>)

lemma session_step_inv: "session_step cd s s' \<Longrightarrow> session_inv cd s \<Longrightarrow> session_inv cd s'"
  by (induction rule: session_step.induct)
    (simp_all add: route_inv Call_begin_inv Call_take_inv Call_end_inv Session_Close_inv)

lemma session_reachable_inv: "session_reachable cd s \<Longrightarrow> session_inv cd s"
proof (induction rule: session_reachable.induct)
  case (sr_new rc s)
  then show ?case by (rule session_inv_new)
next
  case (sr_step s s')
  then show ?case by (simp add: session_step_inv)
qed

subsection \<open>No reply is lost while there is room\<close>

lemma route_registered:
  assumes "gm_get (s_calls s) cid = Some c" and "c < length (s_chans s)"
    and "\<forall>k. gm_get (s_calls s) k = Some c \<longrightarrow> k = cid"
  shows "s_calls (route cd ev s) = s_calls s" "length (s_chans (route cd ev s)) = length (s_chans s)"
    and "length (s_chans s ! c) < replyBuffer \<Longrightarrow>
      s_chans (route cd ev s) ! c = s_chans s ! c @ addressed cd [ev] cid"
proof -
  show "s_calls (route cd ev s) = s_calls s" "length (s_chans (route cd ev s)) = length (s_chans s)"
    by (simp_all add: route_def Let_def split: option.splits)
  assume room: "length (s_chans s ! c) < replyBuffer"
  show "s_chans (route cd ev s) ! c = s_chans s ! c @ addressed cd [ev] cid"
  proof (cases "callID ev = cid")
    case True
    with assms(1,2) room show ?thesis by (simp add: route_def Let_def addressed_def)
  next
    case False
    with assms(3) have "gm_get (s_calls s) (callID ev) \<noteq> Some c" by blast
    with False show ?thesis
      by (auto simp: route_def Let_def addressed_def split: option.splits)
  qed
qed

lemma routes_registered:
  assumes "gm_get (s_calls s) cid = Some c" and "c < length (s_chans s)"
    and "\<forall>k. gm_get (s_calls s) k = Some c \<longrightarrow> k = cid"
    and "length (s_chans s ! c) + length evs \<le> replyBuffer"
  shows "s_chans (fold (route cd) evs s) ! c = s_chans s ! c @ addressed cd evs cid"
  using assms
proof (induction evs arbitrary: s)
  case Nil
  show ?case by (simp add: addressed_def)
next
  case (Cons ev evs)
  note r = route_registered [OF Cons.prems(1-3), of cd ev]
  have room: "length (s_chans s ! c) < replyBuffer" using Cons.prems(4) by simp
  have "length (addressed cd [ev] cid) \<le> 1" by (simp add: addressed_def)
  then have fits: "length (s_chans (route cd ev s) ! c) + length evs \<le> replyBuffer"
    using Cons.prems(4) by (simp add: r(3) [OF room])
  have "s_chans (fold (route cd) evs (route cd ev s)) ! c
      = s_chans (route cd ev s) ! c @ addressed cd evs cid"
    by (rule Cons.IH [of "route cd ev s", unfolded r(1,2), OF Cons.prems(1-3) fits])
  then show ?case by (simp add: r(3) [OF room] addressed_def)
qed

lemma Call_begin_registered:
  assumes "session_inv cd s" and "Call_begin cid s = Inr (c, s')"
  shows "gm_get (s_calls s') cid = Some c" "c < length (s_chans s')" "s_chans s' ! c = []"
    and "\<forall>k. gm_get (s_calls s') k = Some c \<longrightarrow> k = cid"
proof -
  note inv = Call_begin_inv [OF assms]
  from assms(2) have s': "c = length (s_chans s)" "s_chans s' = s_chans s @ [[]]"
    "s_ids s' = s_ids s @ [cid]" "s_calls s' = gm_put cid c (s_calls s)"
    by (auto simp: Call_begin_def Let_def split: if_splits)
  then show "gm_get (s_calls s') cid = Some c" "c < length (s_chans s')" "s_chans s' ! c = []" by simp_all
  have "s_ids s' ! c = cid"
    using session_invD(1) [OF assms(1)] by (simp add: s' nth_append shape_inv_def)
  with session_invD(2) [OF inv] show "\<forall>k. gm_get (s_calls s') k = Some c \<longrightarrow> k = cid"
    unfolding calls_inv_def by blast
qed

lemma session_step_closed:
  assumes "session_step cd s s'" and "s_closed s"
  shows "s_closed s'"
  using assms
proof (induction rule: session_step.induct)
  case (ss_route s ev)
  then show ?case by (simp add: route_def Let_def split: option.splits)
next
  case (ss_begin cid s c s')
  then show ?case by (simp add: Call_begin_def)
next
  case (ss_take c s)
  then show ?case by (simp add: Call_take_def split: list.splits)
qed (simp_all add: Call_end_def Session_Close_def)

section \<open>Properties\<close>

text \<open>
  C5: However calls, replies and closing interleave, and even when two calls drew the same
  identifier, a call only ever sees replies addressed to it, each at most once and in the order
  they arrived, and never has more than the buffer's 512 waiting.
\<close>

theorem calls_never_mix_replies:
  assumes "session_reachable cd s" and "c < length (s_chans s)"
  shows "subseq (s_got s ! c @ s_chans s ! c) (addressed cd (s_log s) (s_ids s ! c))
    \<and> length (s_chans s ! c) \<le> 512"
  using session_invD(3) [OF session_reachable_inv [OF assms(1)] assms(2)]
  by (simp add: call_inv_def replyBuffer_def)

text \<open>
  From the moment a call begins it misses nothing: as long as no more than 512 replies
  arrive before it reads any, it gets every reply addressed to it, in order, and none of the
  others.
\<close>

theorem call_gets_its_replies:
  assumes "session_reachable cd s" and "Call_begin cid s = Inr (c, s')" and "length evs \<le> 512"
  shows "s_chans (fold (route cd) evs s') ! c = addressed cd evs cid"
proof -
  note reg = Call_begin_registered [OF session_reachable_inv [OF assms(1)] assms(2)]
  have "s_chans (fold (route cd) evs s') ! c = s_chans s' ! c @ addressed cd evs cid"
    by (rule routes_registered [OF reg(1,2,4)]) (simp add: reg(3) replyBuffer_def assms(3))
  then show ?thesis by (simp add: reg(3))
qed

text \<open>
  A closed session stays closed: it refuses new calls and drops every reply, for all that
  can still happen.
\<close>

theorem closed_session_is_inert:
  assumes "session_reachable cd s" and "s_closed s"
  shows "Call_begin cid s = Inl (session_errText SE_Closed)
    \<and> s_chans (route cd ev s) = s_chans s \<and> Session_Close s = s
    \<and> (session_step cd s s' \<longrightarrow> s_closed s')"
proof -
  from session_reachable_inv [OF assms(1)] assms(2) have "s_calls s = []"
    by (simp add: session_inv_def shape_inv_def)
  then show ?thesis
    using assms(2) session_step_closed [of cd s s']
    by (simp add: Call_begin_def route_def Session_Close_def Let_def)
qed

section \<open>The properties at concrete inputs\<close>

definition plainSession :: "plainBody session" where
  "plainSession = \<lparr>s_replyPath = ''reply'', s_calls = [], s_chans = [], s_got = [], s_ids = [],
     s_live = [], s_closed = False, s_log = []\<rparr>"

definition plainCall :: "plainBody session" where
  "plainCall = \<lparr>s_replyPath = ''reply'', s_calls = [(''1'', 0)], s_chans = [[]], s_got = [[]],
     s_ids = [''1''], s_live = [0], s_closed = False, s_log = []\<rparr>"

lemma plainSession_new: "session_reachable cd plainSession"
  by (rule sr_new [of "Inr ''reply''"]) (simp add: NewSession_def plainSession_def)

lemma plainCall_begin: "Call_begin ''1'' plainSession = Inr (0, plainCall)"
  by (simp add: Call_begin_def plainSession_def plainCall_def)

theorem calls_never_mix_replies_witness:
  "subseq (s_got plainCall ! 0 @ s_chans plainCall ! 0)
     (addressed plainCodec (s_log plainCall) (s_ids plainCall ! 0))"
  using calls_never_mix_replies [where cd = plainCodec and c = 0,
      OF sr_step [OF plainSession_new ss_begin [OF plainCall_begin]]]
  by (simp add: plainCall_def)

theorem call_gets_its_replies_witness:
  "s_chans (fold (route plainCodec) [plainEvent (BReply (PMsg ''x''))] plainCall) ! 0
    = [newReply plainCodec (plainEvent (BReply (PMsg ''x'')))]"
  using call_gets_its_replies [where cd = plainCodec and evs = "[plainEvent (BReply (PMsg ''x''))]",
      OF plainSession_new plainCall_begin]
  by (simp add: addressed_def callID_def plainEvent_def header_string_def)

theorem closed_session_is_inert_witness:
  "Call_begin ''2'' (Session_Close plainCall) = Inl (session_errText SE_Closed)"
proof -
  have "session_reachable plainCodec (Session_Close plainCall)"
    by (rule sr_step [OF sr_step [OF plainSession_new ss_begin [OF plainCall_begin]] ss_close])
  then show ?thesis
    using closed_session_is_inert [of plainCodec "Session_Close plainCall"]
    by (simp add: Session_Close_def plainCall_def)
qed

end
