(* ===== verification/Puppet_Server.thy ===== *)
theory Puppet_Server
  imports Wire
begin

text \<open>
  The puppet module of the daemon: construction and the background refresh
  (\<^verbatim>\<open>plugin/puppet/puppet.go\<close>, \<^verbatim>\<open>server.go\<close>), the command handler (\<^verbatim>\<open>server.go\<close>) and puppet runs
  (\<^verbatim>\<open>run.go\<close>). Handling an event returns the events sent, the outcome and the new state. A run is
  a goroutine, here a \<open>runner\<close> in the list \<open>p_runners\<close> that moves by \<open>runner_move\<close>; the
  semaphore \<open>p_runLock\<close> counts its holders.
\<close>

section \<open>State\<close>

record PuppetConfig =
  pc_LastRunSummaryYAML :: string
  pc_LastRunReportYAML :: string
  pc_FactsYAML :: string
  pc_ClassfilePath :: string
  pc_RefreshInterval :: duration

datatype runner =
    RBegin RunOptions
  | RSleep duration bool
  | RReady bool
  | RMarked bool
  | RRunning bool
  | RReset

record 'b puppet =
  p_node :: "'b zn"
  p_fqdn :: string
  p_facts :: Facts
  p_classes :: Classes
  p_lastRunSummary :: LastRunSummary
  p_runStatus :: RunStatus
  p_runLock :: nat
  p_runners :: "runner list"
  p_spawned :: "string list list"
  p_query :: "(Facts \<times> Classes) engine"
  p_cfg :: PuppetConfig

section \<open>Construction\<close>

definition DefaultPuppetConfig :: PuppetConfig where
  "DefaultPuppetConfig =
     \<lparr>pc_LastRunSummaryYAML = ''/var/lib/puppet/state/last_run_summary.yaml'',
      pc_LastRunReportYAML = ''/var/lib/puppet/state/last_run_report.yaml'',
      pc_FactsYAML = ''/var/lib/puppet/facts.yaml'',
      pc_ClassfilePath = ''/var/lib/puppet/state/classes.txt'',
      pc_RefreshInterval = minute\<rparr>"

definition or_default :: "'a list \<Rightarrow> 'a list \<Rightarrow> 'a list" where
  "or_default x d = (if x = [] then d else x)"

definition puppetDefaults :: "PuppetConfig \<Rightarrow> PuppetConfig" where
  "puppetDefaults cfg =
     \<lparr>pc_LastRunSummaryYAML = or_default (pc_LastRunSummaryYAML cfg) (pc_LastRunSummaryYAML DefaultPuppetConfig),
      pc_LastRunReportYAML = or_default (pc_LastRunReportYAML cfg) (pc_LastRunReportYAML DefaultPuppetConfig),
      pc_FactsYAML = or_default (pc_FactsYAML cfg) (pc_FactsYAML DefaultPuppetConfig),
      pc_ClassfilePath = or_default (pc_ClassfilePath cfg) (pc_ClassfilePath DefaultPuppetConfig),
      pc_RefreshInterval =
        (if pc_RefreshInterval cfg = 0 then pc_RefreshInterval DefaultPuppetConfig
         else pc_RefreshInterval cfg)\<rparr>"

datatype server_err =
    NoPuppetBinary
  | PuppetErr string
  | EventNoReplyTo
  | ShortPath
  | ReplyMarshal string string
  | FilterMsg string
  | RemoteQuery string
  | ParamDecode string
  | UnknownCommand string
  | DumpRefused string
  | EmptyQuery
  | NotABoolean string

definition puppetErr :: "string \<Rightarrow> string list \<Rightarrow> string" where
  "puppetErr er msg = (if length msg \<noteq> 0 then strJoin msg '' '' @ er else ''puppet error: '' @ er)"

fun server_errText :: "server_err \<Rightarrow> string" where
  "server_errText NoPuppetBinary = ''can't find puppet in PATH or in /usr/local/bin''"
| "server_errText (PuppetErr er) = puppetErr er []"
| "server_errText EventNoReplyTo = ''no reply-to in incoming event, aborting''"
| "server_errText ShortPath = ''too short path, ignoring''"
| "server_errText (ReplyMarshal c er) = ''error marshalling '' @ c @ '' reply: '' @ er"
| "server_errText (FilterMsg er) = ''filter error: '' @ er"
| "server_errText (RemoteQuery er) = ''remote query error: '' @ er"
| "server_errText (ParamDecode er) = ''error unmarshalling: '' @ er"
| "server_errText (UnknownCommand c) = ''unknown command '' @ c"
| "server_errText (DumpRefused c) =
     c @ '' needs to be addressed at a node (send it to puppet/<fqdn>) or narrowed down with a filter''"
| "server_errText EmptyQuery = ''empty query''"
| "server_errText (NotABoolean t) = ''query returned '' @ t @ '', not a boolean''"

lemma server_errText_not_Nil [simp]:
  "server_errText (FilterMsg er) \<noteq> []" "server_errText (UnknownCommand c) \<noteq> []"
  "server_errText (DumpRefused c) \<noteq> []" "server_errText EmptyQuery \<noteq> []"
  "server_errText (NotABoolean t) \<noteq> []"
  by simp_all

declare server_errText.simps [simp del]

text \<open>
  \<open>inPath\<close> says whether \<^verbatim>\<open>LookPath\<close> finds puppet, \<open>localExec\<close> whether the fallback binary is there
  and executable by its owner. Facts and classes that fail to load leave an empty set behind.
\<close>

definition NewPuppet ::
  "files \<Rightarrow> bool \<Rightarrow> bool \<Rightarrow> 'b zn \<Rightarrow> string \<Rightarrow> gv gomap \<Rightarrow> PuppetConfig \<Rightarrow> string + 'b puppet" where
  "NewPuppet fs inPath localExec node fqdn nodeMeta cfg0 =
     (let cfg = puppetDefaults cfg0 in
      if \<not> inPath \<and> \<not> localExec then Inl (server_errText NoPuppetBinary)
      else Inr \<lparr>p_node = node, p_fqdn = fqdn,
                p_facts = fst (LoadFacts fs (pc_FactsYAML cfg)),
                p_classes = fst (LoadClasses fs (pc_ClassfilePath cfg)),
                p_lastRunSummary = zeroSummary, p_runStatus = zeroRunStatus,
                p_runLock = 0, p_runners = [], p_spawned = [],
                p_query = RegisterMap ''class'' (\<lambda>(f, c). Classes_Map c)
                  (RegisterMap ''fact'' (\<lambda>(f, c). Facts_Map f) (NewQueryEngine nodeMeta)),
                p_cfg = cfg\<rparr>)"

section \<open>Background refresh\<close>

definition updateLastRunSummary :: "files \<Rightarrow> 'b puppet \<Rightarrow> 'b puppet" where
  "updateLastRunSummary fs p =
     (case f_open fs (pc_LastRunSummaryYAML (p_cfg p)) of
        Inl er \<Rightarrow> p
      | Inr content \<Rightarrow>
        (case ParseLastRunSummary fs content of
           Inl er \<Rightarrow> p
         | Inr summary \<Rightarrow> p\<lparr>p_lastRunSummary := summary\<rparr>))"

definition updateFacts :: "files \<Rightarrow> 'b puppet \<Rightarrow> 'b puppet" where
  "updateFacts fs p = p\<lparr>p_facts := fst (UpdateFacts fs (p_facts p))\<rparr>"

definition updateClasses :: "files \<Rightarrow> 'b puppet \<Rightarrow> 'b puppet" where
  "updateClasses fs p = p\<lparr>p_classes := fst (UpdateClasses fs (p_classes p))\<rparr>"

text \<open>One round of the background worker's loop.\<close>

definition backgroundWorker :: "files \<Rightarrow> 'b puppet \<Rightarrow> 'b puppet" where
  "backgroundWorker fs p = updateClasses fs (updateFacts fs (updateLastRunSummary fs p))"

section \<open>Puppet runs\<close>

text \<open>
  \<open>puppet_Run\<close> schedules and reads the status in one go. Between the two the code lets go of the
  lock, so other goroutines may get in between: \<open>Run_reports\<close> below is all it may then report.
\<close>

definition puppet_Run :: "RunOptions \<Rightarrow> 'b puppet \<Rightarrow> RunStatus \<times> 'b puppet" where
  "puppet_Run opt p =
     (if p_runLock p \<ge> 1 then (p_runStatus p, p)
      else let p' = p\<lparr>p_runLock := p_runLock p + 1,
                      p_runStatus := (p_runStatus p)\<lparr>rs_Scheduled := True\<rparr>,
                      p_runners := p_runners p @ [RBegin opt]\<rparr>
           in (p_runStatus p', p'))"

definition maxDelay :: duration where "maxDelay = 24 * hour"

definition cappedDelay :: "RunOptions \<Rightarrow> duration" where
  "cappedDelay opt = (if ro_Delay opt > maxDelay then maxDelay else ro_Delay opt)"

definition puppetArgs :: "bool \<Rightarrow> string list" where
  "puppetArgs noop =
     [''agent'', ''--onetime'', ''--no-daemonize'', ''--verbose'', ''--no-splay'', ''--color=false'']
     @ (if noop then [''--noop''] else [])"

definition sawLine :: "string \<Rightarrow> RunStatus \<Rightarrow> RunStatus" where
  "sawLine t st =
     (if hasPrefix t ''Info: Applying configuration version'' then st\<lparr>rs_Applying := True\<rparr> else st)"

text \<open>
  One move of a runner: where it goes (\<open>None\<close>: the goroutine returned), the run status it
  leaves and the agents it started. The two pipe errors and a failing start return early.
\<close>

inductive runner_move ::
  "runner \<Rightarrow> RunStatus \<Rightarrow> runner option \<Rightarrow> RunStatus \<Rightarrow> string list list \<Rightarrow> bool" where
  mv_now: "cappedDelay opt \<le> 0 \<Longrightarrow>
     runner_move (RBegin opt) st (Some (RReady (ro_Noop opt))) st []"
| mv_fixed: "cappedDelay opt > 0 \<Longrightarrow> \<not> ro_RandomizeDelay opt \<Longrightarrow>
     runner_move (RBegin opt) st (Some (RSleep (cappedDelay opt) (ro_Noop opt)))
       (st\<lparr>rs_Busy := True\<rparr>) []"
| mv_random: "cappedDelay opt > 0 \<Longrightarrow> ro_RandomizeDelay opt \<Longrightarrow> 0 \<le> d \<Longrightarrow> d < cappedDelay opt \<Longrightarrow>
     runner_move (RBegin opt) st (Some (RSleep d (ro_Noop opt))) (st\<lparr>rs_Busy := True\<rparr>) []"
| mv_wake: "runner_move (RSleep d noop) st (Some (RReady noop)) st []"
| mv_pipe_error: "runner_move (RReady noop) st None st []"
| mv_mark: "runner_move (RReady noop) st (Some (RMarked noop))
     (st\<lparr>rs_Started := True, rs_Busy := True\<rparr>) []"
| mv_start_error: "runner_move (RMarked noop) st None st []"
| mv_start: "runner_move (RMarked noop) st (Some (RRunning noop)) st [puppetArgs noop]"
| mv_line: "runner_move (RRunning noop) st (Some (RRunning noop)) (sawLine t st) []"
| mv_exit: "runner_move (RRunning noop) st (Some RReset) zeroRunStatus []"
| mv_release: "runner_move RReset st None st []"

inductive_cases runner_move_elims: "runner_move r st r' st' sp"

text \<open>A step of the module: a run request, a move of a runner, its return, a refresh.\<close>

inductive puppet_step :: "'b puppet \<Rightarrow> 'b puppet \<Rightarrow> bool" where
  ps_request: "puppet_step p (snd (puppet_Run opt p))"
| ps_move: "p_runners p = xs @ r # ys \<Longrightarrow> runner_move r (p_runStatus p) (Some r') st sp \<Longrightarrow>
     puppet_step p (p\<lparr>p_runners := xs @ r' # ys, p_runStatus := st, p_spawned := p_spawned p @ sp\<rparr>)"
| ps_return: "p_runners p = xs @ r # ys \<Longrightarrow> runner_move r (p_runStatus p) None st sp \<Longrightarrow>
     puppet_step p (p\<lparr>p_runners := xs @ ys, p_runStatus := st, p_spawned := p_spawned p @ sp,
       p_runLock := p_runLock p - 1\<rparr>)"
| ps_refresh: "puppet_step p (backgroundWorker fs p)"

definition Run_reports :: "RunOptions \<Rightarrow> 'b puppet \<Rightarrow> RunStatus set" where
  "Run_reports opt p = {p_runStatus p' | p'. puppet_step\<^sup>*\<^sup>* (snd (puppet_Run opt p)) p'}"

text \<open>
  A module starts as the constructor leaves it, with the facts and classes it found in the files, and
  goes on by its steps; a refresh sees the files as they are at that time.
\<close>

inductive puppet_reachable :: "'b puppet \<Rightarrow> bool" where
  pre_start: "NewPuppet fs inPath localExec node fqdn meta cfg = Inr p \<Longrightarrow> puppet_reachable p"
| pre_step: "puppet_reachable p \<Longrightarrow> puppet_step p p' \<Longrightarrow> puppet_reachable p'"

text \<open>Nothing has run, and the status is the zero one.\<close>

definition run_idle :: "'b puppet \<Rightarrow> bool" where
  "run_idle p \<longleftrightarrow> p_runLock p = 0 \<and> p_runners p = [] \<and> p_spawned p = [] \<and> p_runStatus p = zeroRunStatus"

lemma NewPuppet_idle: "NewPuppet fs inPath localExec node fqdn meta cfg = Inr p \<Longrightarrow> run_idle p"
  by (auto simp: NewPuppet_def run_idle_def Let_def split: if_splits)

section \<open>Addressing\<close>

definition last_seg :: "string list \<Rightarrow> string" where
  "last_seg reqPath = reqPath ! (length reqPath - 1)"

definition prev_seg :: "string list \<Rightarrow> string" where
  "prev_seg reqPath = reqPath ! (length reqPath - 2)"

definition unicastToMe :: "'b puppet \<Rightarrow> string list \<Rightarrow> bool" where
  "unicastToMe p reqPath =
     (if length reqPath < 2 then False
      else last_seg reqPath = p_fqdn p \<and> prev_seg reqPath = ''puppet'')"

definition unicastToOther :: "string list \<Rightarrow> bool" where
  "unicastToOther reqPath =
     (if length reqPath < 2 then False
      else prev_seg reqPath = ''puppet'' \<and> last_seg reqPath \<noteq> ''puppet'')"

definition addressedToMe :: "'b puppet \<Rightarrow> string list \<Rightarrow> bool" where
  "addressedToMe p reqPath =
     (if length reqPath < 2 then False
      else if last_seg reqPath = p_fqdn p \<and> prev_seg reqPath = ''puppet'' then True
      else if last_seg reqPath = ''puppet'' \<and> length reqPath = 2 then True
      else if last_seg reqPath = ''puppet'' \<and> prev_seg reqPath \<noteq> ''puppet'' then True
      else False)"

datatype dumpDecision = DumpAnswer | DumpIgnore | DumpRefuse

definition dump_decision :: "'b puppet \<Rightarrow> 'b PuppetCmdRecv \<Rightarrow> string list \<Rightarrow> dumpDecision" where
  "dump_decision p cmd reqPath =
     (if unicastToMe p reqPath then DumpAnswer
      else if unicastToOther reqPath then DumpIgnore
      else if length (pr_Filter cmd) > 0 then DumpAnswer
      else DumpRefuse)"

section \<open>Commands\<close>

record handlerResult =
  hr_Body :: "payload option"
  hr_ReplyType :: string
  hr_Send :: bool

definition noReply :: handlerResult where
  "noReply = \<lparr>hr_Body = None, hr_ReplyType = '''', hr_Send = False\<rparr>"

definition replyWith :: "payload \<Rightarrow> string \<Rightarrow> handlerResult" where
  "replyWith b t = \<lparr>hr_Body = Some b, hr_ReplyType = t, hr_Send = True\<rparr>"

definition dumpRefused :: "string \<Rightarrow> handlerResult" where
  "dumpRefused command = replyWith (PMsg (server_errText (DumpRefused command))) rpc_Error"

definition factSubset :: "gv gomap \<Rightarrow> string list \<Rightarrow> gv gomap" where
  "factSubset facts keys =
     (if keys = [] then facts
      else fold (\<lambda>key out. case gm_get facts key of Some v \<Rightarrow> gm_put key v out | None \<Rightarrow> out) keys [])"

type_synonym handled = "(handlerResult \<times> string option) outcome"

definition puppet_Parse :: "zygo \<Rightarrow> 'b puppet \<Rightarrow> string \<Rightarrow> query_result outcome" where
  "puppet_Parse z p q = engine_Parse z (p_query p) (p_facts p, p_classes p) q"

definition puppet_ParseBool :: "zygo \<Rightarrow> 'b puppet \<Rightarrow> string \<Rightarrow> bool outcome" where
  "puppet_ParseBool z p q = engine_ParseBool z (p_query p) (p_facts p, p_classes p) q"

definition handleQuery :: "zygo \<Rightarrow> 'b PuppetCmdRecv \<Rightarrow> 'b puppet \<Rightarrow> handled" where
  "handleQuery z cmd p =
     (let reply = zeroQueryReply\<lparr>qr_FQDN := p_fqdn p\<rparr>;
          send = (\<lambda>r. Ret (replyWith (PQuery r) rpc_PuppetQuery, None))
      in if pr_Filter cmd = [] then send (reply\<lparr>qr_Error := server_errText EmptyQuery\<rparr>)
         else case puppet_Parse z p (pr_Filter cmd) of
             Panic \<Rightarrow> Panic
           | Fail er \<Rightarrow> send (reply\<lparr>qr_Error := er\<rparr>)
           | Ret res \<Rightarrow>
               if \<not> res_Boolish res then
                 send (reply\<lparr>qr_Type := res_Type res, qr_Value := res_Display res,
                         qr_Error := server_errText (NotABoolean (res_Type res))\<rparr>)
               else send (reply\<lparr>qr_Matched := res_Bool res, qr_Type := res_Type res\<rparr>))"

definition handleFactList ::
  "'b codec \<Rightarrow> gotime \<Rightarrow> 'b PuppetCmdRecv \<Rightarrow> string list \<Rightarrow> 'b puppet \<Rightarrow> handled" where
  "handleFactList cd now cmd reqPath p =
     (case dump_decision p cmd reqPath of
        DumpIgnore \<Rightarrow> Ret (noReply, None)
      | DumpRefuse \<Rightarrow> Ret (dumpRefused cmd_FactList, None)
      | DumpAnswer \<Rightarrow>
        (case (if c_isEmpty cd (pr_Parameters cmd) then Inr [] else c_decodeKeys cd (pr_Parameters cmd)) of
           Inl er \<Rightarrow> Ret (noReply, Some (server_errText (ParamDecode er)))
         | Inr keys \<Rightarrow>
             (let facts = factSubset (Facts_Map (p_facts p)) keys
              in Ret (replyWith (PFacts \<lparr>fr_FQDN = p_fqdn p, fr_TS = now, fr_Count = int (length facts),
                        fr_Facts = Some facts\<rparr>) rpc_PuppetFacts, None))))"

definition handleClassList ::
  "gotime \<Rightarrow> 'b PuppetCmdRecv \<Rightarrow> string list \<Rightarrow> 'b puppet \<Rightarrow> handled" where
  "handleClassList now cmd reqPath p =
     (case dump_decision p cmd reqPath of
        DumpIgnore \<Rightarrow> Ret (noReply, None)
      | DumpRefuse \<Rightarrow> Ret (dumpRefused cmd_ClassList, None)
      | DumpAnswer \<Rightarrow>
          Ret (replyWith (PClasses \<lparr>cr_FQDN = p_fqdn p, cr_TS = now,
                 cr_Classes = Some (Classes_List (p_classes p))\<rparr>) rpc_PuppetClasses, None))"

text \<open>The commands behind the filter gate.\<close>

definition runCommand ::
  "'b codec \<Rightarrow> gotime \<Rightarrow> 'b PuppetCmdRecv \<Rightarrow> string list \<Rightarrow> 'b puppet \<Rightarrow> handled \<times> 'b puppet" where
  "runCommand cd now cmd reqPath p =
     (if pr_Command cmd = cmd_Status then
        (Ret (replyWith (PSummary (p_lastRunSummary p)) rpc_PuppetRunSummary, None), p)
      else if pr_Command cmd = cmd_Run then
        (case c_decodeRun cd (pr_Parameters cmd) of
           Inl er \<Rightarrow> (Ret (noReply, Some (server_errText (ParamDecode er))), p)
         | Inr opts \<Rightarrow>
             if \<not> addressedToMe p reqPath then (Ret (noReply, None), p)
             else let (r, p') = puppet_Run opts p
                  in (Ret (replyWith (PRunStatus r) rpc_PuppetRunStatus, None), p'))
      else if pr_Command cmd = cmd_Fact then
        (case c_decodeFactName cd (pr_Parameters cmd) of
           Inl er \<Rightarrow> (Ret (noReply, Some (server_errText (ParamDecode er))), p)
         | Inr name \<Rightarrow>
             (Ret (replyWith (PFact [(name, case gm_get (Facts_Map (p_facts p)) name of
                                              Some v \<Rightarrow> v | None \<Rightarrow> GNull)])
                rpc_PuppetFact, None), p))
      else if pr_Command cmd = cmd_FactList then (handleFactList cd now cmd reqPath p, p)
      else if pr_Command cmd = cmd_ClassList then (handleClassList now cmd reqPath p, p)
      else (Ret (replyWith (PMsg (server_errText (UnknownCommand (pr_Command cmd)))) rpc_Error, None), p))"

definition handleCommand ::
  "zygo \<Rightarrow> 'b codec \<Rightarrow> gotime \<Rightarrow> 'b PuppetCmdRecv \<Rightarrow> string list \<Rightarrow> 'b puppet \<Rightarrow> handled \<times> 'b puppet" where
  "handleCommand z cd now cmd reqPath p =
     (if pr_Command cmd = cmd_Query then (handleQuery z cmd p, p)
      else if length (pr_Filter cmd) > 0 then
        (case puppet_ParseBool z p (pr_Filter cmd) of
           Panic \<Rightarrow> (Panic, p)
         | Fail er \<Rightarrow>
             (Ret (replyWith (PMsg (server_errText (FilterMsg er))) rpc_Error,
                   Some (server_errText (RemoteQuery er))), p)
         | Ret False \<Rightarrow>
             if pr_AnswerAlways cmd then
               (Ret (replyWith (PQuery (zeroQueryReply\<lparr>qr_FQDN := p_fqdn p\<rparr>)) rpc_PuppetNoMatch, None), p)
             else (Ret (noReply, None), p)
         | Ret True \<Rightarrow> runCommand cd now cmd reqPath p)
      else runCommand cd now cmd reqPath p)"

text \<open>
  One event: the events sent, whether the handler returned an error or panicked, the state. A
  reply without a body cannot be marshalled, but \<open>hr_Send\<close> always comes with one.
\<close>

definition HandleEvent ::
  "zygo \<Rightarrow> 'b codec \<Rightarrow> gotime \<Rightarrow> 'b event \<Rightarrow> 'b puppet
     \<Rightarrow> (string \<times> 'b event) list \<times> unit outcome \<times> 'b puppet" where
  "HandleEvent z cd now ev p =
     (case c_decodeCmd cd (ev_Body ev) of
        Inl er \<Rightarrow> ([], Fail (server_errText (PuppetErr er)), p)
      | Inr cmd \<Rightarrow>
        if ev_ReplyTo ev = [] then ([], Fail (server_errText EventNoReplyTo), p)
        else let reqPath = strSplit (ev_RoutingKey ev) SLASH
        in if length reqPath < 2 then ([], Fail (server_errText ShortPath), p)
        else case handleCommand z cd now cmd reqPath p of
            (Ret (res, handlerErr), p') \<Rightarrow>
              (let status = (case handlerErr of None \<Rightarrow> Ret () | Some er \<Rightarrow> Fail er)
               in case (hr_Send res, hr_Body res) of
                    (True, Some body) \<Rightarrow>
                      (let re = set_header ''fqdn'' (HStr (p_fqdn p)) (zn_PrepareReply (p_node p) ev)
                       in case c_encode cd body of
                            Inl er \<Rightarrow> ([], Fail (server_errText (ReplyMarshal (pr_Command cmd) er)), p')
                          | Inr b \<Rightarrow>
                            (case runtime_Reply (p_node p) ev
                                (set_header ''reply-type'' (HStr (hr_ReplyType res)) (re\<lparr>ev_Body := b\<rparr>)) of
                               (sent, Some er) \<Rightarrow> (sent, Fail er, p')
                             | (sent, None) \<Rightarrow> (sent, status, p')))
                  | _ \<Rightarrow> ([], status, p'))
          | (Fail er, p') \<Rightarrow> ([], Fail er, p')
          | (Panic, p') \<Rightarrow> ([], Panic, p'))"

text \<open>Each event is handled at its own time, when the one before it is done.\<close>

fun EventListener ::
  "zygo \<Rightarrow> 'b codec \<Rightarrow> (gotime \<times> 'b event) list \<Rightarrow> 'b puppet
     \<Rightarrow> (string \<times> 'b event) list \<times> unit outcome \<times> 'b puppet" where
  "EventListener z cd [] p = ([], Fail ''channel for puppet server disconnected'', p)"
| "EventListener z cd ((now, ev) # evs) p =
     (case HandleEvent z cd now ev p of
        (sent, Panic, p') \<Rightarrow> (sent, Panic, p')
      | (sent, _, p') \<Rightarrow>
          (let (rest, r, p'') = EventListener z cd evs p' in (sent @ rest, r, p'')))"

section \<open>Lemmas\<close>

named_theorems handler_simps \<open>what the command handlers unfold to\<close>

lemma replyWith_simps [simp]:
  "hr_Send (replyWith b t)" "hr_Body (replyWith b t) = Some b" "hr_ReplyType (replyWith b t) = t"
  "\<not> hr_Send noReply"
  by (simp_all add: replyWith_def noReply_def)

lemma replyWith_inject [simp]: "replyWith b t = replyWith b' t' \<longleftrightarrow> b = b' \<and> t = t'"
  by (auto simp: replyWith_def)

lemma replyWith_noReply [simp]: "replyWith b t \<noteq> noReply" "noReply \<noteq> replyWith b t"
  by (simp_all add: replyWith_def noReply_def)

lemma path_segments [simp]:
  "last_seg (pre @ [a, b]) = b" "prev_seg (pre @ [a, b]) = a"
  by (simp_all add: last_seg_def prev_seg_def nth_append)

subsection \<open>Sending the reply\<close>

definition reply_event :: "'b puppet \<Rightarrow> 'b event \<Rightarrow> 'b \<Rightarrow> string \<Rightarrow> 'b event" where
  "reply_event p ev b t =
     (let re = set_header ''reply-type'' (HStr t)
                 ((set_header ''fqdn'' (HStr (p_fqdn p)) (zn_PrepareReply (p_node p) ev))\<lparr>ev_Body := b\<rparr>)
      in case gm_get (ev_Headers ev) ''correlation-id'' of
           Some cid \<Rightarrow> set_header ''correlation-id'' cid re
         | None \<Rightarrow> re)"

definition can_send :: "'b puppet \<Rightarrow> bool" where
  "can_send p \<longleftrightarrow> (\<forall>t ev. zn_SendEvent (p_node p) t ev = None)"

lemma reply_event_headers:
  "header_string (reply_event p ev b t) ''fqdn'' = Some (p_fqdn p)"
  "header_string (reply_event p ev b t) ''reply-type'' = Some t"
  "ev_Body (reply_event p ev b t) = b"
  "gm_get (ev_Headers ev) ''correlation-id'' = Some cid \<Longrightarrow>
     gm_get (ev_Headers (reply_event p ev b t)) ''correlation-id'' = Some cid"
  by (auto simp: reply_event_def Let_def header_string_def set_header_def split: option.splits)

lemma HandleEvent_cases:
  assumes "HandleEvent z cd now ev p = (sent, r, p')"
  shows "sent = [] \<or> (ev_ReplyTo ev \<noteq> [] \<and> (\<exists>b t. sent = [(ev_ReplyTo ev, reply_event p ev b t)]))"
  using assms
  by (auto simp: HandleEvent_def Let_def runtime_Reply_def reply_event_def
      split: sum.splits if_splits prod.splits outcome.splits option.splits bool.splits)

lemma HandleEvent_reply:
  assumes "c_decodeCmd cd (ev_Body ev) = Inr cmd" and "ev_ReplyTo ev \<noteq> []"
    and "length (strSplit (ev_RoutingKey ev) SLASH) \<ge> 2"
    and "handleCommand z cd now cmd (strSplit (ev_RoutingKey ev) SLASH) p = (Ret (replyWith body t, er), p')"
    and "c_encode cd body = Inr b" and "can_send p"
  shows "HandleEvent z cd now ev p =
    ([(ev_ReplyTo ev, reply_event p ev b t)], (case er of None \<Rightarrow> Ret () | Some e \<Rightarrow> Fail e), p')"
  using assms
  by (auto simp: HandleEvent_def Let_def runtime_Reply_def reply_event_def can_send_def
      split: option.splits)

lemma HandleEvent_quiet:
  assumes "c_decodeCmd cd (ev_Body ev) = Inr cmd"
    and "handleCommand z cd now cmd (strSplit (ev_RoutingKey ev) SLASH) p = (Ret (noReply, er), p')"
  shows "fst (HandleEvent z cd now ev p) = []"
  using assms by (simp add: HandleEvent_def Let_def noReply_def)

subsection \<open>What a filter decides\<close>

lemma puppet_ParseBool_Parse:
  "puppet_ParseBool z p q = Ret b \<longleftrightarrow>
     (\<exists>r. puppet_Parse z p q = Ret r \<and> res_Boolish r \<and> res_Bool r = b)"
  by (simp add: puppet_ParseBool_def puppet_Parse_def engine_ParseBool_Ret_iff)

lemma handleQuery_matched [handler_simps]:
  assumes "handleQuery z cmd p = Ret (hr, er)"
  shows "\<exists>r. hr = replyWith (PQuery r) rpc_PuppetQuery \<and> er = None \<and> qr_FQDN r = p_fqdn p
    \<and> (qr_Matched r \<longleftrightarrow> pr_Filter cmd \<noteq> [] \<and> puppet_ParseBool z p (pr_Filter cmd) = Ret True)"
  using assms
  by (auto simp: handleQuery_def Let_def zeroQueryReply_def puppet_ParseBool_Parse
      split: if_splits outcome.splits)

lemma handleCommand_status [handler_simps]:
  assumes "pr_Command cmd = cmd_Status" and "pr_Filter cmd \<noteq> []"
  shows "handleCommand z cd now cmd path p =
    ((case puppet_ParseBool z p (pr_Filter cmd) of
        Panic \<Rightarrow> Panic
      | Fail er \<Rightarrow> Ret (replyWith (PMsg (server_errText (FilterMsg er))) rpc_Error,
                       Some (server_errText (RemoteQuery er)))
      | Ret True \<Rightarrow> Ret (replyWith (PSummary (p_lastRunSummary p)) rpc_PuppetRunSummary, None)
      | Ret False \<Rightarrow>
          if pr_AnswerAlways cmd then
            Ret (replyWith (PQuery (zeroQueryReply\<lparr>qr_FQDN := p_fqdn p\<rparr>)) rpc_PuppetNoMatch, None)
          else Ret (noReply, None)), p)"
  using assms
  by (auto simp: handleCommand_def runCommand_def split: outcome.splits bool.splits)

lemma handleCommand_factlist [handler_simps]:
  assumes "pr_Command cmd = cmd_FactList" and "pr_Filter cmd = []"
  shows "handleCommand z cd now cmd path p = (handleFactList cd now cmd path p, p)"
  using assms by (simp add: handleCommand_def runCommand_def)

lemma handleCommand_classlist [handler_simps]:
  assumes "pr_Command cmd = cmd_ClassList" and "pr_Filter cmd = []"
  shows "handleCommand z cd now cmd path p = (handleClassList now cmd path p, p)"
  using assms by (simp add: handleCommand_def runCommand_def)

lemma dump_decision_unicast:
  assumes "target \<noteq> ''puppet''"
  shows "dump_decision p cmd (pre @ [''puppet'', target]) =
    (if target = p_fqdn p then DumpAnswer else DumpIgnore)"
  using assms by (simp add: dump_decision_def unicastToMe_def unicastToOther_def)

subsection \<open>Runs\<close>

definition runner_ok :: "runner \<Rightarrow> bool" where
  "runner_ok r = (case r of RSleep d noop \<Rightarrow> 0 \<le> d \<and> d \<le> maxDelay | _ \<Rightarrow> True)"

definition run_inv :: "'b puppet \<Rightarrow> bool" where
  "run_inv p \<longleftrightarrow> length (p_runners p) = p_runLock p \<and> p_runLock p \<le> 1
     \<and> list_all runner_ok (p_runners p)
     \<and> set (p_spawned p) \<subseteq> {puppetArgs False, puppetArgs True}"

lemma cappedDelay_le: "cappedDelay opt \<le> maxDelay"
  by (simp add: cappedDelay_def)

lemma runner_move_ok:
  "runner_move r st (Some r') st' sp \<Longrightarrow> runner_ok r'"
  by (erule runner_move.cases)
    (auto simp: runner_ok_def cappedDelay_le intro: order.trans [OF less_imp_le cappedDelay_le])

lemma puppetArgs_cases: "puppetArgs noop \<in> {puppetArgs False, puppetArgs True}"
  by (cases noop) simp_all

lemma runner_move_spawn:
  "runner_move r st r' st' sp \<Longrightarrow> set sp \<subseteq> {puppetArgs False, puppetArgs True}"
  by (erule runner_move.cases) (use puppetArgs_cases in auto)

lemma puppet_Run_inv: "run_inv p \<Longrightarrow> run_inv (snd (puppet_Run opt p))"
  by (auto simp: puppet_Run_def run_inv_def runner_ok_def Let_def)

lemma backgroundWorker_run_fields [simp]:
  "p_runners (backgroundWorker fs p) = p_runners p"
  "p_runLock (backgroundWorker fs p) = p_runLock p"
  "p_runStatus (backgroundWorker fs p) = p_runStatus p"
  "p_spawned (backgroundWorker fs p) = p_spawned p"
  by (simp_all add: backgroundWorker_def updateClasses_def updateFacts_def updateLastRunSummary_def
      split: sum.splits)

lemma puppet_step_inv: "puppet_step p p' \<Longrightarrow> run_inv p \<Longrightarrow> run_inv p'"
proof (induction rule: puppet_step.induct)
  case (ps_request p opt)
  then show ?case by (rule puppet_Run_inv)
next
  case (ps_move p xs r ys r' st sp)
  then show ?case
    using runner_move_ok [OF ps_move(2)] runner_move_spawn [OF ps_move(2)]
    by (auto simp: run_inv_def)
next
  case (ps_return p xs r ys st sp)
  then have "length (xs @ r # ys) \<le> 1" by (simp add: run_inv_def)
  then have "xs = []" "ys = []" by simp_all
  with ps_return show ?case
    using runner_move_spawn [OF ps_return(2)] by (auto simp: run_inv_def)
next
  case (ps_refresh p fs)
  then show ?case by (simp add: run_inv_def)
qed

lemma puppet_reachable_inv: "puppet_reachable p \<Longrightarrow> run_inv p"
proof (induction rule: puppet_reachable.induct)
  case pre_start
  then show ?case by (simp add: NewPuppet_idle [unfolded run_idle_def] run_inv_def)
next
  case (pre_step p p')
  then show ?case by (blast intro: puppet_step_inv)
qed

lemma run_inv_busy:
  assumes "run_inv p" and "p_runners p \<noteq> []"
  obtains r where "p_runners p = [r]" and "p_runLock p = 1"
proof (cases "p_runners p")
  case Nil
  with assms(2) show thesis by simp
next
  case (Cons r rs)
  with assms(1) have "Suc (length rs) = p_runLock p" and "p_runLock p \<le> 1"
    by (simp_all add: run_inv_def)
  then have "rs = []" and "p_runLock p = 1" by (cases rs; simp)+
  with Cons that show thesis by simp
qed

text \<open>
  The flags of the status are steps of a ladder: each is only up when the one before it is. What a
  runner has raised so far stays up while it runs.
\<close>

definition status_ladder :: "RunStatus \<Rightarrow> bool" where
  "status_ladder st \<longleftrightarrow> (rs_Applying st \<longrightarrow> rs_Started st) \<and> (rs_Started st \<longrightarrow> rs_Busy st)
     \<and> (rs_Busy st \<longrightarrow> rs_Scheduled st) \<and> \<not> rs_Downtime st"

fun runner_raised :: "RunStatus \<Rightarrow> runner \<Rightarrow> bool" where
  "runner_raised st (RBegin opt) = rs_Scheduled st"
| "runner_raised st (RSleep d noop) = rs_Busy st"
| "runner_raised st (RReady noop) = rs_Scheduled st"
| "runner_raised st (RMarked noop) = rs_Started st"
| "runner_raised st (RRunning noop) = rs_Started st"
| "runner_raised st RReset = True"

definition status_inv :: "'b puppet \<Rightarrow> bool" where
  "status_inv p \<longleftrightarrow> status_ladder (p_runStatus p) \<and> list_all (runner_raised (p_runStatus p)) (p_runners p)"

lemma status_ladder_zero [simp]: "status_ladder zeroRunStatus"
  by (simp add: status_ladder_def zeroRunStatus_def)

lemma runner_move_status:
  assumes "runner_move r st r' st' sp" and "status_ladder st" and "runner_raised st r"
  shows "status_ladder st' \<and> (\<forall>x. r' = Some x \<longrightarrow> runner_raised st' x)"
  using assms
  by (induction rule: runner_move.induct) (auto simp: status_ladder_def sawLine_def zeroRunStatus_def)

lemma puppet_Run_status:
  assumes "run_inv p" and "status_inv p"
  shows "status_inv (snd (puppet_Run opt p))"
proof (cases "p_runners p")
  case Nil
  with assms(2) show ?thesis by (auto simp: puppet_Run_def status_inv_def status_ladder_def Let_def)
next
  case (Cons r rs)
  with assms(1) have "p_runLock p \<ge> 1" by (auto simp: run_inv_def)
  with assms(2) show ?thesis by (simp add: puppet_Run_def)
qed

lemma run_inv_lone: "run_inv p \<Longrightarrow> p_runners p = xs @ r # ys \<Longrightarrow> xs = [] \<and> ys = []"
  by (cases xs; cases ys) (auto simp: run_inv_def)

lemma puppet_step_status: "puppet_step p p' \<Longrightarrow> run_inv p \<Longrightarrow> status_inv p \<Longrightarrow> status_inv p'"
proof (induction rule: puppet_step.induct)
  case (ps_request p opt)
  then show ?case by (rule puppet_Run_status)
next
  case (ps_move p xs r ys r' st sp)
  then have "xs = []" "ys = []" using run_inv_lone by blast+
  with ps_move runner_move_status [OF ps_move(2)] show ?case by (simp add: status_inv_def)
next
  case (ps_return p xs r ys st sp)
  then have "xs = []" "ys = []" using run_inv_lone by blast+
  with ps_return runner_move_status [OF ps_return(2)] show ?case by (simp add: status_inv_def)
next
  case (ps_refresh p fs)
  then show ?case by (simp add: status_inv_def)
qed

lemma puppet_reachable_status: "puppet_reachable p \<Longrightarrow> status_inv p"
proof (induction rule: puppet_reachable.induct)
  case pre_start
  then show ?case by (simp add: NewPuppet_idle [unfolded run_idle_def] status_inv_def)
next
  case (pre_step p p')
  then show ?case by (blast intro: puppet_step_status puppet_reachable_inv)
qed

lemma puppet_reachable_steps: "puppet_step\<^sup>*\<^sup>* p p' \<Longrightarrow> puppet_reachable p \<Longrightarrow> puppet_reachable p'"
  by (induction rule: rtranclp_induct) (auto intro: pre_step)

lemma Run_reports_ladder:
  assumes "puppet_reachable p" and "st \<in> Run_reports opt p"
  shows "status_ladder st"
proof -
  from assms(2) obtain p' where p': "puppet_step\<^sup>*\<^sup>* (snd (puppet_Run opt p)) p'" "st = p_runStatus p'"
    by (auto simp: Run_reports_def)
  have "puppet_reachable p'"
    by (rule puppet_reachable_steps [OF p'(1) pre_step [OF assms(1) ps_request]])
  with p'(2) show ?thesis using puppet_reachable_status by (auto simp: status_inv_def)
qed

text \<open>The status read at once is among the reports.\<close>

lemma puppet_Run_reports: "fst (puppet_Run opt p) \<in> Run_reports opt p"
proof -
  have "fst (puppet_Run opt p) = p_runStatus (snd (puppet_Run opt p))"
    by (simp add: puppet_Run_def Let_def)
  then show ?thesis by (auto simp: Run_reports_def)
qed

text \<open>A single runner moves on its own: these are the steps a lone runner can make.\<close>

lemma lone_move:
  assumes "p_runners p = [r]" and "runner_move r (p_runStatus p) (Some r') st sp"
  shows "puppet_step p (p\<lparr>p_runners := [r'], p_runStatus := st, p_spawned := p_spawned p @ sp\<rparr>)"
  using ps_move [of p "[]" r "[]"] assms by simp

lemma lone_return:
  assumes "p_runners p = [r]" and "runner_move r (p_runStatus p) None st sp"
  shows "puppet_step p (p\<lparr>p_runners := [], p_runStatus := st, p_spawned := p_spawned p @ sp,
    p_runLock := p_runLock p - 1\<rparr>)"
  using ps_return [of p "[]" r "[]"] assms by simp

text \<open>How far a runner is from returning.\<close>

fun runner_rank :: "runner \<Rightarrow> nat" where
  "runner_rank (RBegin opt) = 5"
| "runner_rank (RSleep d n) = 4"
| "runner_rank (RReady n) = 3"
| "runner_rank (RMarked n) = 2"
| "runner_rank (RRunning n) = 1"
| "runner_rank RReset = 0"

lemma runner_progress:
  "r = RReset \<or> (\<exists>r' st' sp. runner_move r st (Some r') st' sp \<and> runner_rank r' < runner_rank r)"
proof (cases r)
  case (RBegin opt)
  consider "cappedDelay opt \<le> 0" | "cappedDelay opt > 0" "ro_RandomizeDelay opt"
    | "cappedDelay opt > 0" "\<not> ro_RandomizeDelay opt" by linarith
  then show ?thesis
  proof cases
    case 1
    then have "runner_move r st (Some (RReady (ro_Noop opt))) st []"
      unfolding RBegin by (rule mv_now)
    then show ?thesis using RBegin by fastforce
  next
    case 2
    then have "runner_move r st (Some (RSleep 0 (ro_Noop opt))) (st\<lparr>rs_Busy := True\<rparr>) []"
      unfolding RBegin by (intro mv_random) auto
    then show ?thesis using RBegin by fastforce
  next
    case 3
    then have "runner_move r st (Some (RSleep (cappedDelay opt) (ro_Noop opt))) (st\<lparr>rs_Busy := True\<rparr>) []"
      unfolding RBegin by (intro mv_fixed) auto
    then show ?thesis using RBegin by fastforce
  qed
next
  case (RSleep d n)
  then show ?thesis using mv_wake [of d n st] by fastforce
next
  case (RReady n)
  then show ?thesis using mv_mark [of n st] by fastforce
next
  case (RMarked n)
  then show ?thesis using mv_start [of n st] by fastforce
next
  case (RRunning n)
  then show ?thesis using mv_exit [of n st] by fastforce
next
  case RReset
  then show ?thesis by simp
qed

lemma lone_runner_returns:
  "p_runners p = [r] \<Longrightarrow> p_runLock p = 1 \<Longrightarrow> \<exists>p'. puppet_step\<^sup>*\<^sup>* p p' \<and> p_runners p' = [] \<and> p_runLock p' = 0"
proof (induction "runner_rank r" arbitrary: p r rule: less_induct)
  case less
  show ?case
  proof (cases "r = RReset")
    case True
    from less.prems(1) have "puppet_step p (p\<lparr>p_runners := [], p_runStatus := p_runStatus p,
        p_spawned := p_spawned p @ [], p_runLock := p_runLock p - 1\<rparr>)"
      by (rule lone_return) (simp add: True mv_release)
    from r_into_rtranclp [of puppet_step, OF this] less.prems(2) show ?thesis
      by (intro exI [of _ "p\<lparr>p_runners := [], p_runStatus := p_runStatus p,
        p_spawned := p_spawned p @ [], p_runLock := p_runLock p - 1\<rparr>"]) simp
  next
    case False
    with runner_progress [of r "p_runStatus p"] obtain r' st' sp where
      m: "runner_move r (p_runStatus p) (Some r') st' sp" and rk: "runner_rank r' < runner_rank r"
      by blast
    let ?q = "p\<lparr>p_runners := [r'], p_runStatus := st', p_spawned := p_spawned p @ sp\<rparr>"
    from less.prems(1) m have "puppet_step p ?q" by (rule lone_move)
    moreover obtain p' where "puppet_step\<^sup>*\<^sup>* ?q p' \<and> p_runners p' = [] \<and> p_runLock p' = 0"
      using less.hyps [OF rk, of ?q] less.prems(2) by auto
    ultimately show ?thesis by (meson converse_rtranclp_into_rtranclp)
  qed
qed

section \<open>A concrete node\<close>

definition plainConfig :: PuppetConfig where
  "plainConfig = \<lparr>pc_LastRunSummaryYAML = ''s'', pc_LastRunReportYAML = ''r'', pc_FactsYAML = ''f'',
     pc_ClassfilePath = ''a'', pc_RefreshInterval = minute\<rparr>"

definition plainPuppet :: "string \<Rightarrow> plainBody puppet" where
  "plainPuppet name =
     \<lparr>p_node = plainNode name, p_fqdn = name, p_facts = plainFacts, p_classes = plainClasses,
      p_lastRunSummary = zeroSummary, p_runStatus = zeroRunStatus, p_runLock = 0, p_runners = [],
      p_spawned = [], p_query = harness_engine [], p_cfg = plainConfig\<rparr>"

definition plainCmd :: "string \<Rightarrow> string \<Rightarrow> PuppetCmdSend" where
  "plainCmd c q = \<lparr>ps_Command = c, ps_Filter = q, ps_AnswerAlways = False, ps_Parameters = NoParams\<rparr>"

definition plainRecv :: "string \<Rightarrow> string \<Rightarrow> plainBody PuppetCmdRecv" where
  "plainRecv c q = \<lparr>pr_Command = c, pr_Filter = q, pr_AnswerAlways = False,
     pr_Parameters = BParams NoParams\<rparr>"

lemma plain_decode: "c_decodeCmd plainCodec (BCmd (plainCmd c q)) = Inr (plainRecv c q)"
  by (simp add: plainCodec_def plainCmd_def plainRecv_def)

lemma NewPuppet_plain:
  "NewPuppet plainFiles True False (plainNode name) name [] plainConfig = Inr (plainPuppet name)"
  by (simp add: NewPuppet_def plainPuppet_def harness_engine_def puppetDefaults_def or_default_def plainConfig_def
      time_units plain_loads Let_def)

lemma plain_idle: "puppet_reachable (plainPuppet name)"
  by (rule pre_start [OF NewPuppet_plain])

lemma plain_can_send: "can_send (plainPuppet name)"
  by (simp add: can_send_def plainPuppet_def plainNode_def)

section \<open>Properties\<close>

text \<open>
  An event is answered at most once, on the topic the sender asked for, under this node's
  name and carrying the sender's correlation id.
\<close>

theorem reply_goes_back_to_sender:
  "case HandleEvent z cd now ev p of (sent, r, p') \<Rightarrow>
     length sent \<le> 1
     \<and> (\<forall>(topic, re) \<in> set sent. topic = ev_ReplyTo ev
          \<and> header_string re ''fqdn'' = Some (p_fqdn p)
          \<and> (\<forall>cid. gm_get (ev_Headers ev) ''correlation-id'' = Some cid \<longrightarrow>
               gm_get (ev_Headers re) ''correlation-id'' = Some cid))"
proof -
  obtain sent r p' where h: "HandleEvent z cd now ev p = (sent, r, p')"
    by (cases "HandleEvent z cd now ev p") auto
  from HandleEvent_cases [OF h] show ?thesis
    by (auto simp: h reply_event_headers)
qed

text \<open>
  C13: An unfiltered fact or class dump sent to the topic of one node is answered by that node, where
  encoding and sending work, and by no other, although every daemon receives the request. (A node
  that is called \<^verbatim>\<open>puppet\<close> cannot be named this way: its topic is that of all nodes.)
\<close>

theorem unicast_dump_answered_by_target_only:
  assumes "c_decodeCmd cd (ev_Body ev) = Inr cmd" and "ev_ReplyTo ev \<noteq> []"
    and "pr_Command cmd = cmd_FactList \<and> (c_isEmpty cd (pr_Parameters cmd) \<or> c_decodeKeys cd (pr_Parameters cmd) = Inr keys)
      \<or> pr_Command cmd = cmd_ClassList"
    and "pr_Filter cmd = []" and "strSplit (ev_RoutingKey ev) SLASH = pre @ [''puppet'', target]"
    and "target \<noteq> ''puppet''" and "codec_ok cd" and "can_send p"
  shows "fst (HandleEvent z cd now ev p) \<noteq> [] \<longleftrightarrow> p_fqdn p = target"
proof -
  have two: "length (strSplit (ev_RoutingKey ev) SLASH) \<ge> 2" by (simp add: assms(5))
  note dd = dump_decision_unicast [OF assms(6), of p cmd pre]
  show ?thesis
  proof (cases "p_fqdn p = target")
    case True
    then have da: "dump_decision p cmd (strSplit (ev_RoutingKey ev) SLASH) = DumpAnswer"
      by (simp add: assms(5) dd)
    obtain body t where h: "handleCommand z cd now cmd (strSplit (ev_RoutingKey ev) SLASH) p
        = (Ret (replyWith body t, None), p)"
      using assms(3,4)
      by (cases "c_isEmpty cd (pr_Parameters cmd)")
        (auto simp: handleCommand_factlist handleCommand_classlist handleFactList_def
          handleClassList_def da Let_def)
    obtain b where b: "c_encode cd body = Inr b" using codec_ok_reply [OF assms(7)] by blast
    from HandleEvent_reply [OF assms(1,2) two h b assms(8)] True show ?thesis by simp
  next
    case False
    then have di: "dump_decision p cmd (strSplit (ev_RoutingKey ev) SLASH) = DumpIgnore"
      using dd by (simp add: assms(5))
    have "handleCommand z cd now cmd (strSplit (ev_RoutingKey ev) SLASH) p = (Ret (noReply, None), p)"
      using assms(3,4)
      by (auto simp: handleCommand_factlist handleCommand_classlist handleFactList_def
          handleClassList_def di)
    from HandleEvent_quiet [OF assms(1) this] False show ?thesis by simp
  qed
qed

text \<open>
  C11: The query command and a filtered status request agree: a node reports a match to
  \<^verbatim>\<open>query\<close> exactly when the same expression as a filter lets a status request through.
\<close>

theorem query_agrees_with_filter:
  assumes "pr_Filter cmd \<noteq> []"
    and "handleQuery z cmd p = Ret (replyWith (PQuery r) t, er)"
  shows "qr_Matched r \<longleftrightarrow>
    handleCommand z cd now (cmd\<lparr>pr_Command := cmd_Status\<rparr>) path p
      = ((Ret (replyWith (PSummary (p_lastRunSummary p)) rpc_PuppetRunSummary, None)), p)"
proof -
  from handleQuery_matched [OF assms(2)]
  have "qr_Matched r \<longleftrightarrow> puppet_ParseBool z p (pr_Filter cmd) = Ret True"
    using assms(1) by auto
  moreover have "handleCommand z cd now (cmd\<lparr>pr_Command := cmd_Status\<rparr>) path p
      = ((Ret (replyWith (PSummary (p_lastRunSummary p)) rpc_PuppetRunSummary, None)), p)
    \<longleftrightarrow> puppet_ParseBool z p (pr_Filter cmd) = Ret True"
    using assms(1)
    by (auto simp: handleCommand_status split: outcome.splits bool.splits if_splits)
  ultimately show ?thesis by simp
qed

text \<open>
  C2: Whatever arrives and however goroutines interleave, at most one puppet run is going on, a
  request during a run starts nothing and reports the current status, no run is delayed beyond
  24 hours, and puppet is only ever started with the daemon's own arguments. Whenever a request
  comes to read the status it reports, that status is consistent: applying only when started,
  started only when busy, busy only when scheduled; a running agent always shows as started.
\<close>

theorem one_run_at_a_time:
  assumes "puppet_reachable p"
  shows "length (p_runners p) \<le> 1
    \<and> (p_runners p \<noteq> [] \<longrightarrow> puppet_Run opt p = (p_runStatus p, p))
    \<and> (\<forall>d noop. RSleep d noop \<in> set (p_runners p) \<longrightarrow> 0 \<le> d \<and> d \<le> 24 * hour)
    \<and> set (p_spawned p) \<subseteq> {puppetArgs False, puppetArgs True}
    \<and> (\<forall>st \<in> Run_reports opt p. status_ladder st)
    \<and> ((\<exists>noop. RRunning noop \<in> set (p_runners p)) \<longrightarrow> rs_Started (p_runStatus p))"
proof -
  note inv = puppet_reachable_inv [OF assms]
  have "(\<exists>noop. RRunning noop \<in> set (p_runners p)) \<longrightarrow> rs_Started (p_runStatus p)"
    using puppet_reachable_status [OF assms] by (auto simp: status_inv_def list_all_iff)
  moreover have "\<forall>st \<in> Run_reports opt p. status_ladder st"
    using Run_reports_ladder [OF assms] by blast
  moreover
  have "p_runners p \<noteq> [] \<longrightarrow> puppet_Run opt p = (p_runStatus p, p)"
    by (auto elim!: run_inv_busy [OF inv] simp: puppet_Run_def)
  moreover have "(\<forall>d noop. RSleep d noop \<in> set (p_runners p) \<longrightarrow> 0 \<le> d \<and> d \<le> 24 * hour)"
    using inv by (fastforce simp: run_inv_def runner_ok_def maxDelay_def list_all_iff)
  ultimately show ?thesis using inv by (simp add: run_inv_def)
qed

text \<open>C28: A run can always get to its end, after which the node accepts the next one.\<close>

theorem run_lock_is_released:
  assumes "puppet_reachable p"
  shows "\<exists>p'. puppet_step\<^sup>*\<^sup>* p p' \<and> p_runners p' = []
    \<and> p_runners (snd (puppet_Run opt p')) = [RBegin opt]"
proof (cases "p_runners p")
  case Nil
  with puppet_reachable_inv [OF assms] have "p_runLock p = 0" by (simp add: run_inv_def)
  with Nil show ?thesis by (intro exI [of _ p]) (simp add: puppet_Run_def Let_def)
next
  case (Cons r rs)
  then have "p_runners p \<noteq> []" by simp
  with puppet_reachable_inv [OF assms] obtain r where "p_runners p = [r]" "p_runLock p = 1"
    by (rule run_inv_busy)
  then obtain p' where "puppet_step\<^sup>*\<^sup>* p p'" "p_runners p' = []" "p_runLock p' = 0"
    using lone_runner_returns by blast
  then show ?thesis by (intro exI [of _ p']) (simp add: puppet_Run_def Let_def)
qed

text \<open>
  A puppet run whose agent cannot be started leaves the node reporting a run that is
  started and busy although nothing runs.
\<close>

theorem failed_start_leaves_stale_status:
  "\<exists>p :: plainBody puppet. puppet_reachable p \<and> p_runners p = [] \<and> p_runLock p = 0
     \<and> rs_Started (p_runStatus p) \<and> rs_Busy (p_runStatus p) \<and> p_spawned p = []"
proof -
  define opt where "opt = \<lparr>ro_Delay = 0, ro_RandomizeDelay = False, ro_Noop = False\<rparr>"
  define p0 where "p0 = plainPuppet ''n1''"
  define p1 where "p1 = snd (puppet_Run opt p0)"
  have r0: "puppet_reachable p0" unfolding p0_def by (rule plain_idle)
  then have r1: "puppet_reachable p1" unfolding p1_def by (rule pre_step) (rule ps_request)
  have p1: "p_runners p1 = [RBegin opt]" "p_runLock p1 = 1" "p_spawned p1 = []"
    by (simp_all add: p1_def p0_def plainPuppet_def puppet_Run_def Let_def)
  have "cappedDelay opt \<le> 0" by (simp add: opt_def cappedDelay_def maxDelay_def time_units)
  note s2 = lone_move [OF p1(1) mv_now [OF this]]
  define p2 where "p2 = p1\<lparr>p_runners := [RReady (ro_Noop opt)], p_runStatus := p_runStatus p1,
    p_spawned := p_spawned p1 @ []\<rparr>"
  from r1 s2 have r2: "puppet_reachable p2" unfolding p2_def by (rule pre_step)
  have p2: "p_runners p2 = [RReady (ro_Noop opt)]" by (simp add: p2_def)
  define p3 where "p3 = p2\<lparr>p_runners := [RMarked (ro_Noop opt)],
    p_runStatus := (p_runStatus p2)\<lparr>rs_Started := True, rs_Busy := True\<rparr>, p_spawned := p_spawned p2 @ []\<rparr>"
  from r2 lone_move [OF p2 mv_mark] have r3: "puppet_reachable p3" unfolding p3_def by (rule pre_step)
  have p3: "p_runners p3 = [RMarked (ro_Noop opt)]" by (simp add: p3_def)
  define p4 where "p4 = p3\<lparr>p_runners := [], p_runStatus := p_runStatus p3,
    p_spawned := p_spawned p3 @ [], p_runLock := p_runLock p3 - 1\<rparr>"
  from r3 lone_return [OF p3 mv_start_error] have r4: "puppet_reachable p4"
    unfolding p4_def by (rule pre_step)
  have "p_runners p4 = []" "p_runLock p4 = 0" "rs_Started (p_runStatus p4)" "rs_Busy (p_runStatus p4)"
    "p_spawned p4 = []"
    using p1 by (simp_all add: p4_def p3_def p2_def)
  with r4 show ?thesis by blast
qed

text \<open>
  Once facts or classes are loaded the background refresh never loses them, whatever
  happens to the files.
\<close>

theorem refresh_keeps_data:
  assumes "Facts_Map (p_facts p) \<noteq> []" and "Classes_Map (p_classes p) \<noteq> []"
  shows "Facts_Map (p_facts (fold backgroundWorker fss p)) \<noteq> []
    \<and> Classes_Map (p_classes (fold backgroundWorker fss p)) \<noteq> []"
proof -
  have "p_facts (fold backgroundWorker fss p) = reloads UpdateFacts fss (p_facts p)
      \<and> p_classes (fold backgroundWorker fss p) = reloads UpdateClasses fss (p_classes p)"
    by (induction fss arbitrary: p)
      (auto simp: reloads_def backgroundWorker_def updateClasses_def updateFacts_def
        updateLastRunSummary_def split: sum.splits)
  with facts_reload.reloads_keep_data [OF assms(1)] classes_reload.reloads_keep_data [OF assms(2)]
  show ?thesis by simp
qed

text \<open>
  C26: The offline harness is wired like the daemon: over the same files and node metadata it
  gives every query the daemon's result.
\<close>

theorem harness_answers_like_daemon:
  assumes "NewPuppet fs inPath localExec node fqdn meta cfg = Inr p"
    and "NewQueryHarnessOpts fs
      \<lparr>o_FactsPath = pc_FactsYAML (puppetDefaults cfg), o_ClassesPath = pc_ClassfilePath (puppetDefaults cfg),
       o_LastRunSummaryPath = lp, o_Facts = None, o_Classes = None, o_NodeMeta = Some meta,
       o_Source = src\<rparr> = Inr h"
  shows "harness_Parse z h q = puppet_Parse z p q \<and> harness_Query z h q = puppet_ParseBool z p q"
proof -
  have ne: "pc_FactsYAML (puppetDefaults cfg) \<noteq> []" "pc_ClassfilePath (puppetDefaults cfg) \<noteq> []"
    by (simp_all add: puppetDefaults_def or_default_def DefaultPuppetConfig_def)
  from assms(2) ne have "h_Facts h = fst (LoadFacts fs (pc_FactsYAML (puppetDefaults cfg)))"
    "h_Classes h = fst (LoadClasses fs (pc_ClassfilePath (puppetDefaults cfg)))"
    "h_Engine h = harness_engine meta"
    by (auto simp: NewQueryHarnessOpts_def harness_facts_def harness_classes_def Let_def
        split: sum.splits prod.splits option.splits)
  with assms(1) show ?thesis
    by (auto simp: NewPuppet_def Let_def harness_Parse_def harness_Query_def puppet_Parse_def
        puppet_ParseBool_def harness_engine_def split: if_splits)
qed

section \<open>The properties at concrete inputs\<close>

theorem reply_goes_back_to_sender_witness:
  "fst (HandleEvent plainZygo plainCodec 0 (plainEvent (BCmd (plainCmd cmd_Status ''true''))) (plainPuppet ''n1'')) \<noteq> []
   \<and> fst (hd (fst (HandleEvent plainZygo plainCodec 0 (plainEvent (BCmd (plainCmd cmd_Status ''true'')))
       (plainPuppet ''n1'')))) = ''reply/1''"
proof -
  let ?ev = "plainEvent (BCmd (plainCmd cmd_Status ''true''))" and ?p = "plainPuppet ''n1''"
  let ?h = "HandleEvent plainZygo plainCodec 0 ?ev ?p"
  have "puppet_ParseBool plainZygo ?p ''true'' = Ret True"
    by (simp add: puppet_ParseBool_def engine_ParseBool_def engine_Parse_def plainPuppet_def
        harness_engine_def RegisterMap_def NewQueryEngine_def newSandbox_def plainZygo_def newResult_def
        Let_def)
  then have h: "handleCommand plainZygo plainCodec 0 (plainRecv cmd_Status ''true'')
      (strSplit (ev_RoutingKey ?ev) SLASH) ?p
      = (Ret (replyWith (PSummary zeroSummary) rpc_PuppetRunSummary, None), ?p)"
    using handleCommand_status [of "plainRecv cmd_Status ''true''"]
    by (simp add: plainRecv_def plainPuppet_def)
  have "fst ?h = [(''reply/1'', reply_event ?p ?ev (BReply (PSummary zeroSummary)) rpc_PuppetRunSummary)]"
    using HandleEvent_reply [OF _ _ _ h, of "BReply (PSummary zeroSummary)"] plain_can_send
    by (simp add: plainEvent_def plain_decode strSplit_def) (simp add: plainCodec_def)
  moreover from this obtain sent r p' where h': "?h = (sent, r, p')" and "sent \<noteq> []"
    by (cases ?h) auto
  with reply_goes_back_to_sender [where z = plainZygo and cd = plainCodec and now = 0 and ev = ?ev and p = ?p]
  have "fst (hd (fst ?h)) = ev_ReplyTo ?ev" by (cases sent) auto
  ultimately show ?thesis by (simp add: plainEvent_def)
qed

theorem unicast_dump_answered_by_target_only_witness:
  "fst (HandleEvent plainZygo plainCodec 0
     ((plainEvent (BCmd (plainCmd cmd_ClassList '''')))\<lparr>ev_RoutingKey := ''rv/puppet/n1''\<rparr>) (plainPuppet ''n1'')) \<noteq> []"
proof -
  have "strSplit ''rv/puppet/n1'' SLASH = [''rv''] @ [''puppet'', ''n1'']" by (simp add: strSplit_def)
  then show ?thesis
    using unicast_dump_answered_by_target_only [where cd = plainCodec and p = "plainPuppet ''n1''"
      and ev = "(plainEvent (BCmd (plainCmd cmd_ClassList '''')))\<lparr>ev_RoutingKey := ''rv/puppet/n1''\<rparr>"
      and cmd = "plainRecv cmd_ClassList ''''" and pre = "[''rv'']" and target = "''n1''" and z = plainZygo
      and now = 0]
    by (simp add: plain_decode plainEvent_def plainRecv_def plainCodec_ok plain_can_send)
      (simp add: plainPuppet_def)
qed

theorem query_agrees_with_filter_witness:
  "fst (handleCommand plainZygo plainCodec 0 ((plainRecv cmd_Query ''true'')\<lparr>pr_Command := cmd_Status\<rparr>)
      [''rv'', ''puppet''] (plainPuppet ''n1''))
    = Ret (replyWith (PSummary zeroSummary) rpc_PuppetRunSummary, None)"
proof -
  have "puppet_Parse plainZygo (plainPuppet ''n1'') ''true'' = Ret (newResult plainZygo (SexpBool True))"
    by (simp add: puppet_Parse_def engine_Parse_def plainPuppet_def
        harness_engine_def RegisterMap_def NewQueryEngine_def newSandbox_def plainZygo_def Let_def)
  then have "\<exists>r. handleQuery plainZygo (plainRecv cmd_Query ''true'') (plainPuppet ''n1'')
      = Ret (replyWith (PQuery r) rpc_PuppetQuery, None) \<and> qr_Matched r"
    by (simp add: handleQuery_def plainRecv_def newResult_def)
  then obtain r where h: "handleQuery plainZygo (plainRecv cmd_Query ''true'') (plainPuppet ''n1'')
      = Ret (replyWith (PQuery r) rpc_PuppetQuery, None)" and m: "qr_Matched r" by blast
  have "pr_Filter (plainRecv cmd_Query ''true'') \<noteq> []" by (simp add: plainRecv_def)
  from query_agrees_with_filter [OF this h] m show ?thesis by (simp add: plainPuppet_def)
qed

theorem one_run_at_a_time_witness:
  "length (p_runners (snd (puppet_Run \<lparr>ro_Delay = 0, ro_RandomizeDelay = False, ro_Noop = True\<rparr>
     (plainPuppet ''n1'')))) \<le> 1"
  using one_run_at_a_time [OF pre_step [OF plain_idle ps_request]] by blast

theorem run_lock_is_released_witness:
  "\<exists>p'. puppet_step\<^sup>*\<^sup>* (snd (puppet_Run \<lparr>ro_Delay = hour, ro_RandomizeDelay = True, ro_Noop = True\<rparr>
     (plainPuppet ''n1''))) p' \<and> p_runners p' = []"
  using run_lock_is_released [OF pre_step [OF plain_idle ps_request]] by blast

theorem refresh_keeps_data_witness:
  "Facts_Map (p_facts (fold backgroundWorker [plainFiles, plainFiles] (plainPuppet ''n1''))) \<noteq> []"
  using refresh_keeps_data [of "plainPuppet ''n1''" "[plainFiles, plainFiles]"]
  by (simp add: plainPuppet_def plainFacts_def plainClasses_def Facts_Map_def Classes_Map_def)

theorem harness_answers_like_daemon_witness:
  "\<exists>p h. NewPuppet plainFiles True False (plainNode ''n1'') ''n1'' [] plainConfig = Inr p
    \<and> harness_Query plainZygo h classProgram = puppet_ParseBool plainZygo p classProgram"
proof -
  obtain p where p: "NewPuppet plainFiles True False (plainNode ''n1'') ''n1'' [] plainConfig = Inr p"
    by (simp add: NewPuppet_def Let_def)
  obtain h where "NewQueryHarnessOpts plainFiles
      \<lparr>o_FactsPath = pc_FactsYAML (puppetDefaults plainConfig),
       o_ClassesPath = pc_ClassfilePath (puppetDefaults plainConfig),
       o_LastRunSummaryPath = [], o_Facts = None, o_Classes = None, o_NodeMeta = Some [],
       o_Source = []\<rparr> = Inr h"
    by (simp add: NewQueryHarnessOpts_def harness_facts_def harness_classes_def harness_lastrun_def
        plainConfig_def puppetDefaults_def or_default_def plain_loads Let_def)
  from harness_answers_like_daemon [OF p this] p show ?thesis by blast
qed

end
