(* ===== verification/Discovery.thy ===== *)
theory Discovery
  imports Wire "HOL-Library.Multiset"
begin

text \<open>
  Finding nodes: \<^verbatim>\<open>client/discovery.go\<close>, \<^verbatim>\<open>client/watch.go\<close>, \<^verbatim>\<open>common/node.go\<close> and the service data
  of \<^verbatim>\<open>common/mq.go\<close>. Heartbeats are retained messages: an empty payload clears one. A message is
  given with the time it is received at. JSON decoding is the parameter \<open>json\<close>.
\<close>

section \<open>Heartbeats\<close>

record message =
  msg_Topic :: string
  msg_Payload :: string

record NodeInfo =
  ni_TS :: gotime
  ni_Services :: "gv option gomap"

record RodrevService =
  rv_FQDN :: string
  rv_Version :: string
  rv_Certname :: string
  rv_Features :: "string list"
  rv_HeartbeatInterval :: duration

record json =
  j_nodeInfo :: "string \<Rightarrow> string + NodeInfo"
  j_marshal :: "gv \<Rightarrow> string + string"
  j_rodrev :: "string \<Rightarrow> string + RodrevService"

record Node =
  nd_FQDN :: string
  nd_DaemonVersion :: string
  nd_Services :: "string list"
  nd_Features :: "string list"
  nd_LastUpdate :: "gotime option"
  nd_StaleAge :: duration

definition RodrevServiceName :: string where "RodrevServiceName = ''rodrev''"

definition ParseRodrevService :: "json \<Rightarrow> gv option \<Rightarrow> RodrevService option" where
  "ParseRodrevService j svc =
     (case svc of
        None \<Rightarrow> None
      | Some data \<Rightarrow>
        (case j_marshal j data of
           Inl er \<Rightarrow> None
         | Inr raw \<Rightarrow>
           (case j_rodrev j raw of
              Inl er \<Rightarrow> None
            | Inr out \<Rightarrow> if length (rv_FQDN out) > 0 then Some out else None)))"

definition staleAfter :: int where "staleAfter = 3"
definition minStaleAge :: duration where "minStaleAge = 15 * minute"

text \<open>The product is taken in 64-bit arithmetic.\<close>

definition staleAge :: "duration \<Rightarrow> duration" where
  "staleAge interval =
     (let age = wrap64 (interval * staleAfter)
      in if age < minStaleAge then minStaleAge else age)"

definition heartbeatSource :: "string \<Rightarrow> string" where
  "heartbeatSource topic =
     (let path = strSplit topic SLASH
      in if length path \<ge> 2 then path ! (length path - 2)
         else if length topic > 0 then topic
         else ''unknown'')"

definition parseHeartbeat :: "json \<Rightarrow> message \<Rightarrow> (Node \<times> string list) option" where
  "parseHeartbeat j msg =
     (if msg_Payload msg = [] then None
      else case j_nodeInfo j (msg_Payload msg) of
        Inl er \<Rightarrow> None
      | Inr info \<Rightarrow>
        (case gm_get (ni_Services info) RodrevServiceName of
           None \<Rightarrow> None
         | Some svc \<Rightarrow>
           (case ParseRodrevService j svc of
              None \<Rightarrow> None
            | Some rodrev \<Rightarrow>
                (let services = sort (gm_keys (ni_Services info))
                 in Some (\<lparr>nd_FQDN = rv_FQDN rodrev, nd_DaemonVersion = rv_Version rodrev,
                           nd_Services = services, nd_Features = rv_Features rodrev,
                           nd_LastUpdate = Some (ni_TS info),
                           nd_StaleAge = staleAge (rv_HeartbeatInterval rodrev)\<rparr>, services)))))"

section \<open>Discovery\<close>

record Discovery =
  d_Services :: "Node list gomap"
  d_Active :: "Node gomap"
  d_Stale :: "Node gomap"

definition emptyDiscovery :: Discovery where
  "emptyDiscovery = \<lparr>d_Services = [], d_Active = [], d_Stale = []\<rparr>"

definition node_stale :: "gotime \<Rightarrow> Node \<Rightarrow> bool" where
  "node_stale now node =
     (case nd_LastUpdate node of None \<Rightarrow> False | Some t \<Rightarrow> time_sub now t > nd_StaleAge node)"

definition addService :: "Node \<Rightarrow> string \<Rightarrow> Discovery \<Rightarrow> Discovery" where
  "addService node service d =
     d\<lparr>d_Services := gm_put service
        ((case gm_get (d_Services d) service of None \<Rightarrow> [] | Some ns \<Rightarrow> ns) @ [node]) (d_Services d)\<rparr>"

definition placeNode :: "gotime \<Rightarrow> Node \<Rightarrow> Discovery \<Rightarrow> Discovery" where
  "placeNode now node d =
     (if node_stale now node then d\<lparr>d_Stale := gm_put (nd_FQDN node) node (d_Stale d)\<rparr>
      else d\<lparr>d_Active := gm_put (nd_FQDN node) node (d_Active d)\<rparr>)"

definition ActiveNodes :: "Discovery \<Rightarrow> string list" where
  "ActiveNodes d = sort (gm_keys (d_Active d))"

definition WithFeature :: "Discovery \<Rightarrow> string \<Rightarrow> string list" where
  "WithFeature d feature =
     sort (map fst (filter (\<lambda>(fqdn, node). feature \<in> set (nd_Features node)) (d_Active d)))"

subsection \<open>One run\<close>

record DiscoverOpts =
  do_InitialWait :: duration
  do_IdleWait :: duration

definition DefaultDiscoverOpts :: DiscoverOpts where
  "DefaultDiscoverOpts = \<lparr>do_InitialWait = 10 * second, do_IdleWait = 4 * second\<rparr>"

definition discoverDefaults :: "DiscoverOpts \<Rightarrow> DiscoverOpts" where
  "discoverDefaults opts =
     \<lparr>do_InitialWait = (if do_InitialWait opts \<le> 0 then do_InitialWait DefaultDiscoverOpts else do_InitialWait opts),
      do_IdleWait = (if do_IdleWait opts \<le> 0 then do_IdleWait DefaultDiscoverOpts else do_IdleWait opts)\<rparr>"

definition heard :: "json \<Rightarrow> gotime \<Rightarrow> message \<Rightarrow> Discovery \<Rightarrow> Discovery" where
  "heard j now msg d =
     (case parseHeartbeat j msg of
        None \<Rightarrow> d
      | Some (node, services) \<Rightarrow> placeNode now node (fold (addService node) services d))"

text \<open>The receive loop: the first message, parsable or not, replaces the deadline.\<close>

fun discover_loop ::
  "json \<Rightarrow> duration \<Rightarrow> nat \<Rightarrow> gotime \<Rightarrow> (gotime \<times> message) list \<Rightarrow> Discovery \<Rightarrow> Discovery" where
  "discover_loop j idle cnt deadline [] d = d"
| "discover_loop j idle cnt deadline ((now, msg) # rest) d =
     (if now > deadline then d
      else discover_loop j idle (cnt + 1) (if cnt = 0 then now + idle else deadline) rest (heard j now msg d))"

definition DiscoverOnce ::
  "json \<Rightarrow> DiscoverOpts \<Rightarrow> string + string \<Rightarrow> gotime \<Rightarrow> (gotime \<times> message) list
     \<Rightarrow> Discovery \<times> string option" where
  "DiscoverOnce j opts subscribed start arrived =
     (let opt = discoverDefaults opts in
      case subscribed of
        Inl er \<Rightarrow> (emptyDiscovery, Some (''can't subscribe to heartbeats: '' @ er))
      | Inr topic \<Rightarrow>
          (discover_loop j (do_IdleWait opt) 0 (start + do_InitialWait opt) arrived emptyDiscovery, None))"

definition Discover ::
  "json \<Rightarrow> string + string \<Rightarrow> gotime \<Rightarrow> (gotime \<times> message) list
     \<Rightarrow> Node list gomap \<times> Node gomap \<times> Node gomap \<times> string option" where
  "Discover j subscribed start arrived =
     (let (d, err) = DiscoverOnce j DefaultDiscoverOpts subscribed start arrived
      in (d_Services d, d_Active d, d_Stale d, err))"

subsection \<open>The watcher\<close>

definition WatchNodes :: "string + string \<Rightarrow> string + Node gomap" where
  "WatchNodes subscribed = (case subscribed of Inl er \<Rightarrow> Inl er | Inr topic \<Rightarrow> Inr [])"

text \<open>One message of the loop that follows the stream.\<close>

definition watcher_run :: "json \<Rightarrow> message \<Rightarrow> Node gomap \<Rightarrow> Node gomap" where
  "watcher_run j msg nodes =
     (if msg_Payload msg = [] then gm_del (msg_Topic msg) nodes
      else case parseHeartbeat j msg of
        None \<Rightarrow> nodes
      | Some (node, services) \<Rightarrow> gm_put (msg_Topic msg) node nodes)"

text \<open>
  The current view. Go iterates over a map in an unspecified order: the argument lists the
  watcher's entries in whatever order they come.
\<close>

definition watcher_add :: "gotime \<Rightarrow> string \<times> Node \<Rightarrow> Discovery \<Rightarrow> Discovery" where
  "watcher_add now e d = fold (addService (snd e)) (nd_Services (snd e)) (placeNode now (snd e) d)"

definition watcher_Discovery :: "gotime \<Rightarrow> Node gomap \<Rightarrow> Discovery" where
  "watcher_Discovery now entries =
     (let d = fold (watcher_add now) entries emptyDiscovery
      in d\<lparr>d_Services := map (\<lambda>(s, ns). (s, sort_key nd_FQDN ns)) (d_Services d)\<rparr>)"

section \<open>The retained view\<close>

text \<open>
  The contract of everything that follows retained messages: a message either leaves the view
  alone, clears its topic or sets it. \<open>value_of\<close> says which.
\<close>

definition last_word :: "(message \<Rightarrow> 'v option option) \<Rightarrow> message list \<Rightarrow> string \<Rightarrow> 'v option" where
  "last_word value_of msgs topic =
     (case List.find (\<lambda>m. msg_Topic m = topic \<and> value_of m \<noteq> None) (rev msgs) of
        None \<Rightarrow> None
      | Some m \<Rightarrow> the (value_of m))"

locale retained_view =
  fixes apply_msg :: "message \<Rightarrow> 'v gomap \<Rightarrow> 'v gomap"
    and value_of :: "message \<Rightarrow> 'v option option"
  assumes apply_ignored: "value_of m = None \<Longrightarrow> apply_msg m view = view"
    and apply_cleared: "value_of m = Some None \<Longrightarrow> apply_msg m view = gm_del (msg_Topic m) view"
    and apply_set: "value_of m = Some (Some v) \<Longrightarrow> apply_msg m view = gm_put (msg_Topic m) v view"
begin

lemma apply_ok: "gm_ok view \<Longrightarrow> gm_ok (apply_msg m view)"
proof (cases "value_of m")
  case (Some v)
  assume "gm_ok view"
  with Some show ?thesis by (cases v) (simp_all add: apply_cleared apply_set)
qed (simp add: apply_ignored)

lemma get_apply:
  "gm_get (apply_msg m view) t =
     (if msg_Topic m = t then (case value_of m of None \<Rightarrow> gm_get view t | Some v \<Rightarrow> v) else gm_get view t)"
proof (cases "value_of m")
  case (Some v)
  then show ?thesis by (cases v) (auto simp: apply_cleared apply_set)
qed (simp add: apply_ignored)

lemma follow_ok: "gm_ok view \<Longrightarrow> gm_ok (fold apply_msg msgs view)"
  by (induction msgs arbitrary: view) (auto intro: apply_ok)

text \<open>What is known of a topic is what the last message about it said.\<close>

lemma follow_last_word: "gm_get (fold apply_msg msgs []) t = last_word value_of msgs t"
proof (induction msgs rule: rev_induct)
  case Nil
  show ?case by (simp add: last_word_def)
next
  case (snoc m msgs)
  then show ?case by (auto simp: get_apply last_word_def split: option.splits)
qed

lemma follow_entries: "(t, v) \<in> set (fold apply_msg msgs []) \<longleftrightarrow> last_word value_of msgs t = Some v"
  using gm_get_iff [OF follow_ok, of "[]" msgs t v] by (simp add: follow_last_word)

end

definition heartbeat_value :: "json \<Rightarrow> message \<Rightarrow> Node option option" where
  "heartbeat_value j msg =
     (if msg_Payload msg = [] then Some None
      else map_option (Some \<circ> fst) (parseHeartbeat j msg))"

interpretation watch: retained_view "watcher_run j" "heartbeat_value j" for j
  by unfold_locales
    (auto simp: watcher_run_def heartbeat_value_def split: option.splits if_splits)

section \<open>Lemmas\<close>

lemma addService_nodes [simp]:
  "d_Active (addService n s d) = d_Active d" "d_Stale (addService n s d) = d_Stale d"
  by (simp_all add: addService_def)

lemma fold_addService_nodes [simp]:
  "d_Active (fold (addService n) ss d) = d_Active d" "d_Stale (fold (addService n) ss d) = d_Stale d"
  by (induction ss arbitrary: d) simp_all

lemma watcher_add_keys:
  "fst ` set (d_Active (watcher_add now e d)) =
     (if node_stale now (snd e) then {} else {nd_FQDN (snd e)}) \<union> fst ` set (d_Active d)"
  "fst ` set (d_Stale (watcher_add now e d)) =
     (if node_stale now (snd e) then {nd_FQDN (snd e)} else {}) \<union> fst ` set (d_Stale d)"
  by (auto simp: watcher_add_def placeNode_def)

lemma fold_watcher_add_keys:
  "fst ` set (d_Active (fold (watcher_add now) es d)) =
     {nd_FQDN n | n t. (t, n) \<in> set es \<and> \<not> node_stale now n} \<union> fst ` set (d_Active d)"
  "fst ` set (d_Stale (fold (watcher_add now) es d)) =
     {nd_FQDN n | n t. (t, n) \<in> set es \<and> node_stale now n} \<union> fst ` set (d_Stale d)"
proof (induction es arbitrary: d)
  case (Cons e es)
  {
    case 1
    show ?case using Cons(1) [of "watcher_add now e d"]
      by (cases e) (auto simp: watcher_add_keys)
  next
    case 2
    show ?case using Cons(2) [of "watcher_add now e d"]
      by (cases e) (auto simp: watcher_add_keys)
  }
qed simp_all

lemma watcher_Discovery_keys:
  "fst ` set (d_Active (watcher_Discovery now es)) = {nd_FQDN n | n t. (t, n) \<in> set es \<and> \<not> node_stale now n}"
  "fst ` set (d_Stale (watcher_Discovery now es)) = {nd_FQDN n | n t. (t, n) \<in> set es \<and> node_stale now n}"
  by (simp_all add: watcher_Discovery_def Let_def fold_watcher_add_keys emptyDiscovery_def)

lemma discover_loop_late:
  "\<forall>(t, m) \<in> set late. t > deadline \<Longrightarrow> cnt \<noteq> 0 \<Longrightarrow> discover_loop j idle cnt deadline late d = d"
  by (cases late) auto

lemma discover_loop_started:
  assumes "\<forall>(t, m) \<in> set early. t \<le> deadline" and "\<forall>(t, m) \<in> set late. t > deadline" and "cnt \<noteq> 0"
  shows "discover_loop j idle cnt deadline (early @ late) d = fold (\<lambda>(t, m). heard j t m) early d"
  using assms
proof (induction early arbitrary: cnt d)
  case Nil
  then show ?case by (simp add: discover_loop_late)
next
  case (Cons e early)
  obtain t m where "e = (t, m)" by (cases e)
  with Cons show ?case by simp
qed

lemma staleAge_ge: "staleAge i \<ge> minStaleAge"
  by (simp add: staleAge_def Let_def)

lemma two_views:
  assumes "node_stale now n0" and "\<not> node_stale now n1" and "nd_FQDN n0 = f" and "nd_FQDN n1 = f"
  shows "f \<in> set (gm_keys (d_Active (watcher_Discovery now [(t0, n0), (t1, n1)])))
    \<and> f \<in> set (gm_keys (d_Stale (watcher_Discovery now [(t0, n0), (t1, n1)])))"
proof -
  have "f \<in> {nd_FQDN n | n t. (t, n) \<in> set [(t0, n0), (t1, n1)] \<and> \<not> node_stale now n}"
    by (intro CollectI exI [of _ n1] exI [of _ t1]) (use assms in simp)
  moreover have "f \<in> {nd_FQDN n | n t. (t, n) \<in> set [(t0, n0), (t1, n1)] \<and> node_stale now n}"
    by (intro CollectI exI [of _ n0] exI [of _ t0]) (use assms in simp)
  ultimately show ?thesis unfolding set_map watcher_Discovery_keys by blast
qed

lemma staleAge_max: "in_int64 (3 * i) \<Longrightarrow> staleAge i = max (3 * i) (15 * minute)"
  by (simp add: staleAge_def staleAfter_def minStaleAge_def Let_def wrap64_id mult.commute max_def)

section \<open>Properties\<close>

text \<open>
  A node is given at least fifteen minutes of silence before it counts as stale, even when
  three times its announced interval overflows, and three intervals when that is longer.
\<close>

theorem staleAge_is_safe:
  "staleAge i \<ge> 15 * minute \<and> (in_int64 (3 * i) \<longrightarrow> staleAge i = max (3 * i) (15 * minute))"
  using staleAge_ge [of i] staleAge_max [of i] by (simp add: minStaleAge_def)

text \<open>
  C16: The watcher knows exactly the nodes whose last decisive message on some topic was a
  heartbeat and not its removal; it lists a name as active (stale) exactly when one of those
  heartbeats is fresh (too old), in whatever order the map is read.
\<close>

theorem watcher_follows_heartbeats:
  assumes "mset entries = mset (fold (watcher_run j) msgs [])"
  shows "(f \<in> set (gm_keys (d_Active (watcher_Discovery now entries)))
      \<longleftrightarrow> (\<exists>t n. last_word (heartbeat_value j) msgs t = Some n \<and> nd_FQDN n = f \<and> \<not> node_stale now n))
    \<and> (f \<in> set (gm_keys (d_Stale (watcher_Discovery now entries)))
      \<longleftrightarrow> (\<exists>t n. last_word (heartbeat_value j) msgs t = Some n \<and> nd_FQDN n = f \<and> node_stale now n))"
proof -
  from assms have "set entries = set (fold (watcher_run j) msgs [])" by (rule mset_eq_setD)
  then have e: "(t, n) \<in> set entries \<longleftrightarrow> last_word (heartbeat_value j) msgs t = Some n" for t n
    by (simp add: watch.follow_entries)
  show ?thesis by (auto simp: watcher_Discovery_keys e)
qed

text \<open>
  A discovery run listens for a fixed window that starts with the first heartbeat: exactly
  the heartbeats up to the idle time after the first one count, a later one never does, however
  busy the stream was.
\<close>

theorem discovery_window:
  assumes "first \<le> start + do_InitialWait (discoverDefaults opts)"
    and "\<forall>(t, m) \<in> set early. t \<le> first + do_IdleWait (discoverDefaults opts)"
    and "\<forall>(t, m) \<in> set late. t > first + do_IdleWait (discoverDefaults opts)"
  shows "DiscoverOnce j opts (Inr topic) start ((first, m) # early @ late)
    = (fold (\<lambda>(t, m). heard j t m) ((first, m) # early) emptyDiscovery, None)"
  using assms by (simp add: DiscoverOnce_def Let_def discover_loop_started)

text \<open>
  The nodes reported for a feature are active, announce it, and come sorted; all active
  nodes come sorted and without repetition.
\<close>

theorem with_feature_is_active:
  assumes "gm_ok (d_Active d)"
  shows "sorted (WithFeature d feature) \<and> distinct (WithFeature d feature)
    \<and> set (WithFeature d feature) = {f. \<exists>n. gm_get (d_Active d) f = Some n \<and> feature \<in> set (nd_Features n)}
    \<and> set (WithFeature d feature) \<subseteq> set (ActiveNodes d)
    \<and> sorted (ActiveNodes d) \<and> distinct (ActiveNodes d)"
proof -
  have "distinct (map fst (filter (\<lambda>(fqdn, node). feature \<in> set (nd_Features node)) (d_Active d)))"
    using assms by (rule distinct_map_filter)
  moreover have "set (WithFeature d feature)
      = {f. \<exists>n. gm_get (d_Active d) f = Some n \<and> feature \<in> set (nd_Features n)}"
    using gm_get_iff [OF assms] by (force simp: WithFeature_def)
  moreover from this have "set (WithFeature d feature) \<subseteq> set (ActiveNodes d)"
    by (force simp: ActiveNodes_def dest: gm_get_SomeD)
  ultimately show ?thesis using assms by (simp add: WithFeature_def ActiveNodes_def)
qed

definition restart_json :: json where
  "restart_json = \<lparr>j_nodeInfo = (\<lambda>s. Inr \<lparr>ni_TS = (if s = ''old'' then 0 else 2 * hour),
     ni_Services = [(''rodrev'', Some (GStr ''n1''))]\<rparr>),
     j_marshal = (\<lambda>v. Inr ''n1''),
     j_rodrev = (\<lambda>s. Inr \<lparr>rv_FQDN = s, rv_Version = '''', rv_Certname = '''', rv_Features = [''query''],
       rv_HeartbeatInterval = minute\<rparr>)\<rparr>"

definition restart_messages :: "message list" where
  "restart_messages = [\<lparr>msg_Topic = ''rv/discovery/n1/a'', msg_Payload = ''old''\<rparr>,
     \<lparr>msg_Topic = ''rv/discovery/n1/b'', msg_Payload = ''new''\<rparr>]"

definition restart_node :: "gotime \<Rightarrow> Node" where
  "restart_node ts = \<lparr>nd_FQDN = ''n1'', nd_DaemonVersion = '''', nd_Services = [''rodrev''],
     nd_Features = [''query''], nd_LastUpdate = Some ts, nd_StaleAge = staleAge minute\<rparr>"

lemma restart_parse:
  "parseHeartbeat restart_json (restart_messages ! 0) = Some (restart_node 0, [''rodrev''])"
  "parseHeartbeat restart_json (restart_messages ! 1) = Some (restart_node (2 * hour), [''rodrev''])"
  by (simp_all add: parseHeartbeat_def restart_json_def ParseRodrevService_def RodrevServiceName_def
      restart_node_def restart_messages_def Let_def)

lemma restart_views:
  "fold (watcher_run restart_json) restart_messages [] =
     [(msg_Topic (restart_messages ! 0), restart_node 0), (msg_Topic (restart_messages ! 1), restart_node (2 * hour))]"
  "fold (watcher_run restart_json) [restart_messages ! 1] [] =
     [(msg_Topic (restart_messages ! 1), restart_node (2 * hour))]"
proof -
  have m: "restart_messages = [restart_messages ! 0, restart_messages ! 1]"
    by (simp add: restart_messages_def)
  have p: "msg_Payload (restart_messages ! 0) \<noteq> []" "msg_Payload (restart_messages ! 1) \<noteq> []"
    "msg_Topic (restart_messages ! 1) \<noteq> msg_Topic (restart_messages ! 0)"
    by (simp_all add: restart_messages_def)
  have w: "watcher_run restart_json (restart_messages ! 0) v = gm_put (msg_Topic (restart_messages ! 0)) (restart_node 0) v"
    "watcher_run restart_json (restart_messages ! 1) v = gm_put (msg_Topic (restart_messages ! 1)) (restart_node (2 * hour)) v" for v
    using p by (simp_all add: watcher_run_def restart_parse del: One_nat_def)
  show "fold (watcher_run restart_json) restart_messages [] =
     [(msg_Topic (restart_messages ! 0), restart_node 0), (msg_Topic (restart_messages ! 1), restart_node (2 * hour))]"
    by (subst m) (use p in \<open>simp add: w del: One_nat_def\<close>)
  show "fold (watcher_run restart_json) [restart_messages ! 1] [] =
     [(msg_Topic (restart_messages ! 1), restart_node (2 * hour))]"
    by (simp add: w del: One_nat_def)
qed

lemma staleAge_minute: "staleAge minute = 15 * minute"
  using staleAge_max [of minute] by (simp add: in_int64_def time_units)

lemma restart_ages:
  "time_sub (2 * hour) (2 * hour) \<le> staleAge minute" "time_sub (2 * hour) 0 > staleAge minute"
  unfolding staleAge_minute by (simp_all add: time_sub_def time_units)

text \<open>
  A node that restarts under a new identifier while its old heartbeat is still retained is
  listed as active and as stale at once.
\<close>

theorem restarted_node_active_and_stale:
  "let d = watcher_Discovery (2 * hour) (fold (watcher_run restart_json) restart_messages [])
   in ''n1'' \<in> set (gm_keys (d_Active d)) \<and> ''n1'' \<in> set (gm_keys (d_Stale d))"
proof -
  have "\<not> node_stale (2 * hour) (restart_node (2 * hour))" "node_stale (2 * hour) (restart_node 0)"
    using restart_ages by (simp_all add: node_stale_def restart_node_def)
  moreover have "nd_FQDN (restart_node ts) = ''n1''" for ts by (simp add: restart_node_def)
  ultimately show ?thesis
    unfolding restart_views(1) Let_def by (intro two_views) simp_all
qed

section \<open>The properties at concrete inputs\<close>

theorem staleAge_is_safe_witness: "staleAge hour = 3 * hour"
  using staleAge_is_safe [of hour] by (simp add: in_int64_def time_units)

theorem watcher_follows_heartbeats_witness:
  "''n1'' \<in> set (gm_keys (d_Active (watcher_Discovery (2 * hour)
     (fold (watcher_run restart_json) [restart_messages ! 1] []))))"
proof -
  have "last_word (heartbeat_value restart_json) [restart_messages ! 1] (msg_Topic (restart_messages ! 1))
      = Some (restart_node (2 * hour))"
    unfolding watch.follow_last_word [symmetric] restart_views(2) by simp
  moreover have "nd_FQDN (restart_node (2 * hour)) = ''n1''" by (simp add: restart_node_def)
  moreover have "\<not> node_stale (2 * hour) (restart_node (2 * hour))"
    using restart_ages(1) by (simp add: node_stale_def restart_node_def)
  ultimately show ?thesis
    using watcher_follows_heartbeats [OF refl, of "''n1''" "2 * hour" restart_json "[restart_messages ! 1]"]
    by blast
qed

theorem discovery_window_witness:
  "DiscoverOnce restart_json DefaultDiscoverOpts (Inr ''rv'') 0
     [(second, restart_messages ! 0), (6 * second, restart_messages ! 1)]
   = (heard restart_json second (restart_messages ! 0) emptyDiscovery, None)"
  using discovery_window [of second 0 DefaultDiscoverOpts "[]" "[(6 * second, restart_messages ! 1)]"
      restart_json "''rv''" "restart_messages ! 0"]
  by (simp add: discoverDefaults_def DefaultDiscoverOpts_def time_units)

theorem with_feature_is_active_witness:
  "set (WithFeature emptyDiscovery ''query'') \<subseteq> set (ActiveNodes emptyDiscovery)"
  using with_feature_is_active [of emptyDiscovery "''query''"] by (simp add: emptyDiscovery_def)

end
