(* ===== verification/Heartbeat_Cleanup.thy ===== *)
theory Heartbeat_Cleanup
  imports Complex_Main Discovery
begin

text \<open>
  Removing retained heartbeats of nodes that are gone, \<^verbatim>\<open>daemon/heartbeat-cleanup.go\<close>. The cache
  follows the presence topics and is a second instance of the retained view. A pass walks the
  cache in the map's unspecified order, which is an argument. Publishing is the parameter \<open>send\<close>,
  which maps a path to the error. The schedule computes in floating point: \<open>fl\<close> rounds an exact
  result to the next representable number, and \<open>conv\<close> is what the machine makes of a number that no
  64-bit integer represents, which the language leaves open. Both are arguments of \<open>jittered\<close>.
\<close>

section \<open>The cache\<close>

type_synonym heartbeatCache = "string gomap"

definition newHeartbeatCache :: heartbeatCache where "newHeartbeatCache = []"

definition follow :: "message \<Rightarrow> heartbeatCache \<Rightarrow> heartbeatCache" where
  "follow msg entries =
     (if msg_Payload msg = [] then gm_del (msg_Topic msg) entries
      else gm_put (msg_Topic msg) (msg_Payload msg) entries)"

definition cache_snapshot :: "heartbeatCache \<Rightarrow> heartbeatCache" where
  "cache_snapshot entries = fold (\<lambda>(topic, payload) out. gm_put topic payload out) entries []"

definition forget :: "string \<Rightarrow> heartbeatCache \<Rightarrow> heartbeatCache" where
  "forget topic entries = gm_del topic entries"

definition retained_payload :: "message \<Rightarrow> string option option" where
  "retained_payload msg = (if msg_Payload msg = [] then Some None else Some (Some (msg_Payload msg)))"

interpretation cache: retained_view follow retained_payload
  by unfold_locales (auto simp: follow_def retained_payload_def split: if_splits)

section \<open>Settings\<close>

record cleanupConfig =
  hc_Disabled :: bool
  hc_DryRun :: bool
  hc_MaxAge :: duration
  hc_Interval :: duration
  hc_InitialDelay :: duration

definition defaultCleanupMaxAge :: duration where "defaultCleanupMaxAge = hour * 24 * 30"
definition defaultCleanupInterval :: duration where "defaultCleanupInterval = hour * 24 * 7"
definition defaultCleanupInitialDelay :: duration where "defaultCleanupInitialDelay = minute * 5"

definition cleanupDefaults :: "cleanupConfig \<Rightarrow> cleanupConfig" where
  "cleanupDefaults cfg =
     cfg\<lparr>hc_MaxAge := (if hc_MaxAge cfg \<le> 0 then defaultCleanupMaxAge else hc_MaxAge cfg),
         hc_Interval := (if hc_Interval cfg \<le> 0 then defaultCleanupInterval else hc_Interval cfg),
         hc_InitialDelay := (if hc_InitialDelay cfg \<le> 0 then defaultCleanupInitialDelay else hc_InitialDelay cfg)\<rparr>"

record cleanupOpts =
  co_MaxAge :: duration
  co_DryRun :: bool
  co_EventRoot :: string
  co_Keep :: string

definition presenceTopic :: "string \<Rightarrow> string \<Rightarrow> string \<Rightarrow> string" where
  "presenceTopic prefix name uuid = strJoin [EventRoot prefix, ''discovery'', name, uuid] [SLASH]"

definition cleanupLoopOpts :: "cleanupConfig \<Rightarrow> string \<Rightarrow> string \<Rightarrow> string \<Rightarrow> cleanupOpts" where
  "cleanupLoopOpts cfg prefix name uuid =
     \<lparr>co_MaxAge = hc_MaxAge cfg, co_DryRun = hc_DryRun cfg, co_EventRoot = EventRoot prefix,
      co_Keep = presenceTopic prefix name uuid\<rparr>"

text \<open>What is subscribed and with which settings the loop runs; \<open>None\<close>: nothing was started.\<close>

definition startHeartbeatCleanup ::
  "(string \<Rightarrow> string + string) \<Rightarrow> cleanupConfig \<Rightarrow> string + (string list \<times> cleanupConfig) option" where
  "startHeartbeatCleanup subscribe cfg =
     (if hc_Disabled cfg then Inr None
      else case subscribe ''discovery/#'' of
        Inl er \<Rightarrow> Inl (''can't watch presence topic discovery/#: '' @ er)
      | Inr t1 \<Rightarrow>
        (case subscribe ''heartbeat/#'' of
           Inl er \<Rightarrow> Inl (''can't watch presence topic heartbeat/#: '' @ er)
         | Inr t2 \<Rightarrow> Inr (Some ([t1, t2], cleanupDefaults cfg))))"

section \<open>A pass\<close>

datatype cleanupReason = LegacyTopic | Unparsable nat string | NoTimestamp | LastSeen duration

definition staleHeartbeat :: "json \<Rightarrow> string \<Rightarrow> string \<Rightarrow> gotime \<Rightarrow> duration \<Rightarrow> cleanupReason option" where
  "staleHeartbeat j topic payload now maxAge =
     (if payload = [] then None
      else if strContains topic ''/heartbeat/'' then Some LegacyTopic
      else case j_nodeInfo j payload of
        Inl er \<Rightarrow> Some (Unparsable (length payload) er)
      | Inr info \<Rightarrow>
          if ni_TS info = 0 then Some NoTimestamp
          else let age = time_sub now (ni_TS info)
               in if age > maxAge then Some (LastSeen age) else None)"

definition relativeTopic :: "string \<Rightarrow> string \<Rightarrow> string" where
  "relativeTopic topic eventRoot =
     (if eventRoot = [] then topic else trimPrefix topic (eventRoot @ [SLASH]))"

record pass =
  pa_cleared :: nat
  pa_seen :: nat
  pa_sent :: "string list"
  pa_cache :: heartbeatCache

definition cleanupEntry ::
  "json \<Rightarrow> gotime \<Rightarrow> (string \<Rightarrow> string option) \<Rightarrow> cleanupOpts \<Rightarrow> string \<times> string \<Rightarrow> pass \<Rightarrow> pass" where
  "cleanupEntry j now send opts e p0 =
     (let (topic, payload) = e; p = p0\<lparr>pa_seen := pa_seen p0 + 1\<rparr> in
      if topic = co_Keep opts then p
      else case staleHeartbeat j topic payload now (co_MaxAge opts) of
        None \<Rightarrow> p
      | Some reason \<Rightarrow>
          if co_DryRun opts then p\<lparr>pa_cleared := pa_cleared p + 1\<rparr>
          else
            (let path = relativeTopic topic (co_EventRoot opts);
                 p' = p\<lparr>pa_sent := pa_sent p @ [path]\<rparr>
             in case send path of
                  Some er \<Rightarrow> p'
                | None \<Rightarrow> p'\<lparr>pa_cache := forget topic (pa_cache p'), pa_cleared := pa_cleared p' + 1\<rparr>))"

definition runHeartbeatCleanup ::
  "json \<Rightarrow> gotime \<Rightarrow> (string \<Rightarrow> string option) \<Rightarrow> cleanupOpts \<Rightarrow> (string \<times> string) list \<Rightarrow> heartbeatCache \<Rightarrow> pass" where
  "runHeartbeatCleanup j now send opts entries cache =
     fold (cleanupEntry j now send opts) entries
       \<lparr>pa_cleared = 0, pa_seen = 0, pa_sent = [], pa_cache = cache\<rparr>"

section \<open>The schedule\<close>

definition initialSpread :: rat where "initialSpread = 1 / 2"
definition intervalSpread :: rat where "intervalSpread = 1 / 5"

text \<open>
  \<open>u\<close> is the random number drawn, at least 0 and below 1. Converting to a duration truncates
  towards zero.
\<close>

definition truncate_rat :: "rat \<Rightarrow> int" where
  "truncate_rat x = (if x < 0 then \<lceil>x\<rceil> else \<lfloor>x\<rfloor>)"

definition toDuration :: "(rat \<Rightarrow> int) \<Rightarrow> rat \<Rightarrow> duration" where
  "toDuration conv x = (if in_int64 (truncate_rat x) then truncate_rat x else conv x)"

definition jittered :: "(rat \<Rightarrow> rat) \<Rightarrow> (rat \<Rightarrow> int) \<Rightarrow> rat \<Rightarrow> duration \<Rightarrow> rat \<Rightarrow> duration" where
  "jittered fl conv u d spread =
     (if d \<le> 0 then d
      else if spread \<le> 0 then d
      else
        (let fd = fl (of_int d);
             offset = fl (fl (fl (fl (u * 2) - 1) * spread) * fd);
             out = toDuration conv (fl (fd + offset))
         in if out \<le> 0 then second else out))"

definition dryRunNote :: "bool \<Rightarrow> string" where
  "dryRunNote dry = (if dry then '' (dry run, nothing was touched)'' else '''')"

text \<open>
  One round of the endless loop: what the broker sends while it sleeps, then the pass over the
  cache at \<open>rd_now\<close>, in the order \<open>rd_order\<close> the map happens to have, and the number drawn for
  the next delay. The result is the delay slept, the pass and the line logged.
\<close>

record cleanupWorld =
  rd_msgs :: "message list"
  rd_now :: gotime
  rd_order :: "(string \<times> string) list \<Rightarrow> (string \<times> string) list"
  rd_send :: "string \<Rightarrow> string option"
  rd_u :: rat

definition passNote :: "bool \<Rightarrow> bool \<Rightarrow> pass \<Rightarrow> string option" where
  "passNote debug dry p =
     (if pa_cleared p > 0 \<or> debug then
        Some (''heartbeat cleanup: '' @ itoa (int (pa_cleared p)) @ '' of '' @ itoa (int (pa_seen p))
          @ '' retained presence messages removed'' @ dryRunNote dry)
      else None)"

fun cleanup_rounds ::
  "(rat \<Rightarrow> rat) \<Rightarrow> (rat \<Rightarrow> int) \<Rightarrow> json \<Rightarrow> bool \<Rightarrow> cleanupOpts \<Rightarrow> cleanupConfig \<Rightarrow> duration \<Rightarrow> heartbeatCache
     \<Rightarrow> cleanupWorld list \<Rightarrow> (duration \<times> pass \<times> string option) list" where
  "cleanup_rounds fl conv j debug opts cfg delay cache [] = []"
| "cleanup_rounds fl conv j debug opts cfg delay cache (w # ws) =
     (let c = fold follow (rd_msgs w) cache;
          p = runHeartbeatCleanup j (rd_now w) (rd_send w) opts (rd_order w (cache_snapshot c)) c
      in (delay, p, passNote debug (co_DryRun opts) p)
         # cleanup_rounds fl conv j debug opts cfg (jittered fl conv (rd_u w) (hc_Interval cfg) (fl intervalSpread))
             (pa_cache p) ws)"

definition heartbeatCleanupLoop ::
  "(rat \<Rightarrow> rat) \<Rightarrow> (rat \<Rightarrow> int) \<Rightarrow> json \<Rightarrow> bool \<Rightarrow> string \<Rightarrow> string \<Rightarrow> string \<Rightarrow> cleanupConfig \<Rightarrow> rat
     \<Rightarrow> cleanupWorld list \<Rightarrow> (duration \<times> pass \<times> string option) list" where
  "heartbeatCleanupLoop fl conv j debug prefix name uuid cfg u ws =
     cleanup_rounds fl conv j debug (cleanupLoopOpts cfg prefix name uuid) cfg
       (jittered fl conv u (hc_InitialDelay cfg) (fl initialSpread)) newHeartbeatCache ws"

section \<open>Lemmas\<close>

lemma cache_snapshot_get: "gm_ok entries \<Longrightarrow> gm_get (cache_snapshot entries) t = gm_get entries t"
proof -
  have "gm_ok entries \<Longrightarrow> gm_get (fold (\<lambda>(topic, payload) out. gm_put topic payload out) entries acc) t
      = (case gm_get entries t of Some v \<Rightarrow> Some v | None \<Rightarrow> gm_get acc t)" for acc
    by (induction entries arbitrary: acc) (auto split: option.splits simp: gm_get_None)
  then show "gm_ok entries \<Longrightarrow> ?thesis" by (simp add: cache_snapshot_def split: option.splits)
qed

text \<open>Which entries a pass picks, and which of those it gets rid of.\<close>

definition picked :: "json \<Rightarrow> gotime \<Rightarrow> cleanupOpts \<Rightarrow> string \<times> string \<Rightarrow> bool" where
  "picked j now opts e \<longleftrightarrow>
     fst e \<noteq> co_Keep opts \<and> staleHeartbeat j (fst e) (snd e) now (co_MaxAge opts) \<noteq> None"

definition removed :: "json \<Rightarrow> gotime \<Rightarrow> (string \<Rightarrow> string option) \<Rightarrow> cleanupOpts \<Rightarrow> string \<times> string \<Rightarrow> bool" where
  "removed j now send opts e \<longleftrightarrow>
     picked j now opts e \<and> \<not> co_DryRun opts \<and> send (relativeTopic (fst e) (co_EventRoot opts)) = None"

lemma cleanupEntry_eq:
  "cleanupEntry j now send opts e p =
     p\<lparr>pa_seen := Suc (pa_seen p),
       pa_cleared := pa_cleared p
         + (if removed j now send opts e \<or> picked j now opts e \<and> co_DryRun opts then 1 else 0),
       pa_sent := pa_sent p
         @ (if picked j now opts e \<and> \<not> co_DryRun opts then [relativeTopic (fst e) (co_EventRoot opts)] else []),
       pa_cache := (if removed j now send opts e then gm_del (fst e) (pa_cache p) else pa_cache p)\<rparr>"
  by (cases e) (simp add: cleanupEntry_def removed_def picked_def forget_def Let_def split: option.splits)

lemma cleanupEntry_fields:
  "pa_seen (cleanupEntry j now send opts e p) = Suc (pa_seen p)"
  "pa_cleared (cleanupEntry j now send opts e p) = pa_cleared p
     + (if removed j now send opts e \<or> picked j now opts e \<and> co_DryRun opts then 1 else 0)"
  "pa_sent (cleanupEntry j now send opts e p) = pa_sent p
     @ (if picked j now opts e \<and> \<not> co_DryRun opts then [relativeTopic (fst e) (co_EventRoot opts)] else [])"
  "pa_cache (cleanupEntry j now send opts e p) =
     (if removed j now send opts e then gm_del (fst e) (pa_cache p) else pa_cache p)"
  by (simp_all add: cleanupEntry_eq)

lemma cleanup_fold:
  "pa_seen (fold (cleanupEntry j now send opts) es p) = pa_seen p + length es"
  "pa_cleared (fold (cleanupEntry j now send opts) es p) = pa_cleared p
     + length (filter (\<lambda>e. removed j now send opts e \<or> picked j now opts e \<and> co_DryRun opts) es)"
  "pa_sent (fold (cleanupEntry j now send opts) es p) = pa_sent p
     @ map (\<lambda>e. relativeTopic (fst e) (co_EventRoot opts)) (filter (\<lambda>e. picked j now opts e \<and> \<not> co_DryRun opts) es)"
  "gm_get (pa_cache (fold (cleanupEntry j now send opts) es p)) t =
     (if t \<in> fst ` {e \<in> set es. removed j now send opts e} then None else gm_get (pa_cache p) t)"
  by (induction es arbitrary: p) (auto simp: cleanupEntry_fields)

lemma relativeTopic_root:
  "EventRoot prefix \<noteq> [] \<Longrightarrow> relativeTopic (rawTopic prefix path) (EventRoot prefix) = path"
  using trimPrefix_append [of "EventRoot prefix @ [SLASH]" path]
  by (simp add: relativeTopic_def rawTopic_def)

lemma relativeTopic_inj:
  assumes "EventRoot prefix \<noteq> []" and "t = rawTopic prefix p" and "u = rawTopic prefix q"
    and "relativeTopic t (EventRoot prefix) = relativeTopic u (EventRoot prefix)"
  shows "t = u"
  using assms by (simp add: relativeTopic_root)

text \<open>What is used of rounding to the nearest floating point number.\<close>

definition ieee_round :: "(rat \<Rightarrow> rat) \<Rightarrow> bool" where
  "ieee_round fl \<longleftrightarrow> mono fl \<and> (\<forall>x. fl (- x) = - fl x) \<and> (\<forall>x. fl (fl x) = fl x) \<and> 0 < fl (1 / 5) \<and> fl (1 / 2) = 1 / 2
     \<and> (\<forall>n e. \<bar>n\<bar> \<le> 2 ^ 53 \<longrightarrow> e \<le> 64 \<longrightarrow> fl (of_int n * 2 ^ e) = of_int n * 2 ^ e)"

lemma ieee_round_exact:
  assumes "ieee_round fl"
  shows "fl 1 = 1" "fl 2 = 2" "fl (2 ^ 61) = 2 ^ 61" "fl (2 ^ 62) = 2 ^ 62" "fl (3 * 2 ^ 61) = 3 * 2 ^ 61"
proof -
  have "fl (of_int n * 2 ^ e) = of_int n * 2 ^ e" if "\<bar>n\<bar> \<le> 2 ^ 53" "e \<le> 64" for n e
    using assms that by (simp add: ieee_round_def)
  from this [of 1 0] this [of 2 0] this [of 1 61] this [of 1 62] this [of 3 61]
  show "fl 1 = 1" "fl 2 = 2" "fl (2 ^ 61) = 2 ^ 61" "fl (2 ^ 62) = 2 ^ 62" "fl (3 * 2 ^ 61) = 3 * 2 ^ 61"
    by simp_all
qed

lemma ieee_round_zero: "ieee_round fl \<Longrightarrow> fl 0 = 0"
proof -
  assume "ieee_round fl"
  then have "fl (- 0) = - fl 0" unfolding ieee_round_def by blast
  then show "fl 0 = 0" by simp
qed

lemma ieee_round_between:
  assumes "ieee_round fl" and "a \<le> x" and "x \<le> b"
  shows "fl a \<le> fl x \<and> fl x \<le> fl b"
  using assms by (auto simp: ieee_round_def mono_def)

lemma ieee_round_product:
  assumes "ieee_round fl" and "- 1 \<le> x" and "x \<le> 1" and "0 \<le> y" and "fl y = y"
  shows "- y \<le> fl (x * y) \<and> fl (x * y) \<le> y"
proof -
  have "(- 1) * y \<le> x * y" "x * y \<le> 1 * y" using assms(2-4) by (intro mult_right_mono; simp)+
  with ieee_round_between [OF assms(1), of "- y" "x * y" y] have "fl (- y) \<le> fl (x * y) \<and> fl (x * y) \<le> fl y" by simp
  then show ?thesis using assms(1,5) by (simp add: ieee_round_def)
qed

lemma jittered_offset:
  assumes "ieee_round fl" and "0 \<le> u" and "u < 1" and "0 \<le> s" and "fl s = s" and "0 \<le> D"
  shows "- fl (s * D) \<le> fl (fl (fl (fl (u * 2) - 1) * s) * D) \<and> fl (fl (fl (fl (u * 2) - 1) * s) * D) \<le> fl (s * D)"
proof -
  have neg: "fl (- x) = - fl x" for x using assms(1) by (simp add: ieee_round_def)
  have one: "fl 1 = 1" "fl 2 = 2" "fl 0 = 0"
    using ieee_round_exact [OF assms(1)] ieee_round_zero [OF assms(1)] by simp_all
  have "0 \<le> fl (u * 2) \<and> fl (u * 2) \<le> 2"
    using ieee_round_between [OF assms(1), of 0 "u * 2" 2] assms(2,3) one by simp
  then have "- 1 \<le> fl (fl (u * 2) - 1) \<and> fl (fl (u * 2) - 1) \<le> 1"
    using ieee_round_between [OF assms(1), of "- 1" "fl (u * 2) - 1" 1] one neg [of 1] by simp
  with ieee_round_product [OF assms(1) _ _ assms(4,5)]
  have "- s \<le> fl (fl (fl (u * 2) - 1) * s) \<and> fl (fl (fl (u * 2) - 1) * s) \<le> s" by blast
  then have "(- s) * D \<le> fl (fl (fl (u * 2) - 1) * s) * D" "fl (fl (fl (u * 2) - 1) * s) * D \<le> s * D"
    using assms(6) by (blast intro: mult_right_mono)+
  then show ?thesis
    using ieee_round_between [OF assms(1), of "- (s * D)" "fl (fl (fl (u * 2) - 1) * s) * D" "s * D"] neg by simp
qed

lemma truncate_rat_bounds: "0 < truncate_rat x \<Longrightarrow> x - 1 < of_int (truncate_rat x) \<and> of_int (truncate_rat x) \<le> x"
  "truncate_rat x \<le> 0 \<Longrightarrow> x < 1"
  by (auto simp: truncate_rat_def split: if_splits) linarith+

lemma jittered_positive: "0 < d \<Longrightarrow> 0 < jittered fl conv u d s"
  by (simp add: jittered_def Let_def second_def)

lemma jittered_bounds:
  assumes "ieee_round fl" and "0 \<le> u" and "u < 1" and "0 < s" and "fl s = s" and "0 < d"
    and "fl (fl (of_int d) + fl (s * fl (of_int d))) < 2 ^ 63" and "fl (s * fl (of_int d)) \<le> fl (of_int d)"
  shows "fl (fl (of_int d) - fl (s * fl (of_int d))) - 1 < of_int (jittered fl conv u d s)
    \<and> of_int (jittered fl conv u d s) \<le> max (of_int second) (fl (fl (of_int d) + fl (s * fl (of_int d))))"
proof -
  let ?D = "fl (of_int d)"
  let ?x = "fl (?D + fl (fl (fl (fl (u * 2) - 1) * s) * ?D))"
  have "0 \<le> ?D"
    using ieee_round_between [OF assms(1), of 0 "of_int d" "of_int d"] ieee_round_zero [OF assms(1)] assms(6) by simp
  note off = jittered_offset [OF assms(1-3) _ assms(5) this]
  have x: "fl (?D - fl (s * ?D)) \<le> ?x \<and> ?x \<le> fl (?D + fl (s * ?D))"
    using off assms(4) by (intro ieee_round_between [OF assms(1)]) simp_all
  have "0 \<le> fl (?D - fl (s * ?D))"
    using ieee_round_between [OF assms(1), of 0 "?D - fl (s * ?D)" "?D - fl (s * ?D)"] ieee_round_zero [OF assms(1)] assms(8)
    by simp
  with x have "0 \<le> ?x" by linarith
  then have "0 \<le> truncate_rat ?x" "of_int (truncate_rat ?x) \<le> ?x" by (simp_all add: truncate_rat_def)
  moreover have "truncate_rat ?x < 2 ^ 63"
  proof -
    have "(of_int (truncate_rat ?x) :: rat) < of_int (2 ^ 63)" using calculation(2) x assms(7) by simp
    then show ?thesis by (simp only: of_int_less_iff)
  qed
  ultimately have "in_int64 (truncate_rat ?x)" by (simp add: in_int64_def)
  then have j: "jittered fl conv u d s = (if truncate_rat ?x \<le> 0 then second else truncate_rat ?x)"
    using assms(4,6) by (simp add: jittered_def toDuration_def Let_def)
  show ?thesis
  proof (cases "truncate_rat ?x \<le> 0")
    case True
    then have "?x < 1" by (rule truncate_rat_bounds)
    then show ?thesis using True x by (simp add: j second_def)
  next
    case False
    then show ?thesis using x truncate_rat_bounds(1) [of ?x] by (simp add: j max_def)
  qed
qed

text \<open>Up to \<open>2 ^ 62\<close> nanoseconds, 146 years, nothing overflows.\<close>

lemma jittered_in_range:
  assumes "ieee_round fl" and "0 \<le> s" and "s \<le> 1 / 2" and "0 < d" and "d \<le> 2 ^ 62"
  shows "fl (fl (of_int d) + fl (s * fl (of_int d))) < 2 ^ 63" and "fl (s * fl (of_int d)) \<le> fl (of_int d)"
proof -
  let ?D = "fl (of_int d)"
  note between = ieee_round_between [OF assms(1)]
  have idem: "fl ?D = ?D" using assms(1) by (simp add: ieee_round_def)
  have "(of_int d :: rat) \<le> of_int (2 ^ 62)" using assms(5) by (simp only: of_int_le_iff)
  then have D: "0 \<le> ?D" "?D \<le> 2 ^ 62"
    using between [of 0 "of_int d" "2 ^ 62"] ieee_round_zero [OF assms(1)] ieee_round_exact(4) [OF assms(1)] assms(4) by simp_all
  have "0 \<le> s * ?D" using assms(2) D(1) by (rule mult_nonneg_nonneg)
  have "s * ?D \<le> 1 * ?D" using assms(3) D(1) by (intro mult_right_mono) simp_all
  then show "fl (s * ?D) \<le> ?D" using between [of "0" "s * ?D" "?D"] \<open>0 \<le> s * ?D\<close> idem by simp
  have "s * ?D \<le> 1 / 2 * 2 ^ 62" using assms(2,3) D by (intro mult_mono) simp_all
  then have "fl (s * ?D) \<le> 2 ^ 61"
    using between [of 0 "s * ?D" "2 ^ 61"] ieee_round_exact(3) [OF assms(1)] \<open>0 \<le> s * ?D\<close> by simp
  then have "?D + fl (s * ?D) \<le> 3 * 2 ^ 61" using D(2) by simp
  then have "fl (?D + fl (s * ?D)) \<le> 3 * 2 ^ 61"
    using between [of "?D + fl (s * ?D)" "?D + fl (s * ?D)" "3 * 2 ^ 61"] ieee_round_exact(5) [OF assms(1)] by simp
  then show "fl (?D + fl (s * ?D)) < 2 ^ 63" by simp
qed

text \<open>
  Beyond, a delay can leave the range of durations: where the conversion then gives a negative
  number, as on amd64, the delay becomes a second.
\<close>

lemma jittered_overflow:
  assumes "0 < d" and "0 < s" and "2 ^ 63 \<le> fl (fl (of_int d) + fl (fl (fl (fl (u * 2) - 1) * s) * fl (of_int d)))"
    and "\<And>x. conv x = - (2 ^ 63)"
  shows "jittered fl conv u d s = second"
proof -
  let ?x = "fl (fl (of_int d) + fl (fl (fl (fl (u * 2) - 1) * s) * fl (of_int d)))"
  have "2 ^ 63 \<le> truncate_rat ?x" using assms(3) by (simp add: truncate_rat_def le_floor_iff)
  then have "\<not> in_int64 (truncate_rat ?x)" by (simp add: in_int64_def)
  then show ?thesis using assms(1,2,4) by (simp add: jittered_def toDuration_def Let_def)
qed

lemma cleanup_rounds_delays:
  "length (cleanup_rounds fl conv j debug opts cfg delay cache ws) = length ws"
  "n < length ws \<Longrightarrow> fst (cleanup_rounds fl conv j debug opts cfg delay cache ws ! n)
     = (if n = 0 then delay else jittered fl conv (rd_u (ws ! (n - 1))) (hc_Interval cfg) (fl intervalSpread))"
  by (induction ws arbitrary: delay cache n) (auto simp: Let_def nth_Cons' split: nat.splits)

lemma startHeartbeatCleanup_positive:
  assumes "startHeartbeatCleanup subscribe cfg0 = Inr (Some (topics, cfg))"
  shows "0 < hc_InitialDelay cfg" and "0 < hc_Interval cfg" and "0 < hc_MaxAge cfg"
  using assms
  by (auto simp: startHeartbeatCleanup_def cleanupDefaults_def time_units defaultCleanupInitialDelay_def
      defaultCleanupInterval_def defaultCleanupMaxAge_def split: if_splits sum.splits)

section \<open>Properties\<close>

text \<open>
  C20: A cleanup pass over everything the cache learned from the broker removes exactly the
  entries that are stale, not its own and accepted by the broker; it looks at each entry once,
  counts what it removed, asks the broker for the stale ones only, and a dry run asks for nothing
  and changes nothing.
\<close>

theorem cleanup_removes_exactly_stale:
  assumes "mset entries = mset (fold follow msgs newHeartbeatCache)"
    and "p = runHeartbeatCleanup j now send opts entries (fold follow msgs newHeartbeatCache)"
  shows "gm_get (pa_cache p) t =
      (case last_word retained_payload msgs t of
         None \<Rightarrow> None
       | Some payload \<Rightarrow> if removed j now send opts (t, payload) then None else Some payload)
    \<and> pa_seen p = length entries \<and> pa_cleared p \<le> pa_seen p
    \<and> (co_DryRun opts \<longrightarrow> pa_sent p = [] \<and> gm_get (pa_cache p) t = last_word retained_payload msgs t)
    \<and> set (pa_sent p) \<subseteq> {relativeTopic u (co_EventRoot opts) |u payload.
         last_word retained_payload msgs u = Some payload \<and> picked j now opts (u, payload)}"
proof -
  let ?c = "fold follow msgs newHeartbeatCache"
  have p: "p = fold (cleanupEntry j now send opts) entries
      \<lparr>pa_cleared = 0, pa_seen = 0, pa_sent = [], pa_cache = ?c\<rparr>"
    by (simp add: assms(2) runHeartbeatCleanup_def)
  note f = cleanup_fold [where es = entries and p = "\<lparr>pa_cleared = 0, pa_seen = 0, pa_sent = [], pa_cache = ?c\<rparr>"
      and j = j and now = now and send = send and opts = opts, folded p, simplified]
  have e: "(u, v) \<in> set entries \<longleftrightarrow> last_word retained_payload msgs u = Some v" for u v
    using mset_eq_setD [OF assms(1)] by (simp add: cache.follow_entries newHeartbeatCache_def)
  have r: "t \<in> fst ` {x \<in> set entries. removed j now send opts x}
      \<longleftrightarrow> (\<exists>v. last_word retained_payload msgs t = Some v \<and> removed j now send opts (t, v))"
    by (force simp: e)
  have g: "gm_get ?c t = last_word retained_payload msgs t"
    by (simp add: cache.follow_last_word newHeartbeatCache_def)
  have 1: "gm_get (pa_cache p) t = (case last_word retained_payload msgs t of
         None \<Rightarrow> None
       | Some payload \<Rightarrow> if removed j now send opts (t, payload) then None else Some payload)"
    unfolding f(4) [of t] r by (simp add: g split: option.splits)
  have 2: "pa_seen p = length entries" "pa_cleared p \<le> length entries" by (simp_all add: f(1,2))
  have 3: "co_DryRun opts \<longrightarrow> pa_sent p = []" by (simp add: f(3))
  have 4: "co_DryRun opts \<longrightarrow> gm_get (pa_cache p) t = last_word retained_payload msgs t"
    by (simp add: 1 removed_def split: option.splits)
  have 5: "set (pa_sent p) \<subseteq> {relativeTopic u (co_EventRoot opts) |u payload.
         last_word retained_payload msgs u = Some payload \<and> picked j now opts (u, payload)}"
    by (auto simp: f(3) e)
  show ?thesis using 1 2 3 4 5 by simp
qed

text \<open>
  A living node is left alone: its own presence topic is never picked, and a heartbeat that
  decodes, carries a time and is younger than the limit is not picked either, unless its topic
  has a level called \<^verbatim>\<open>heartbeat\<close>; then even a heartbeat of this very moment is removed.
\<close>

theorem cleanup_spares_living_nodes:
  assumes "j_nodeInfo j payload = Inr info" and "ni_TS info \<noteq> 0" and "time_sub now (ni_TS info) \<le> maxAge"
    and "payload \<noteq> []"
  shows "(\<not> picked j now (cleanupLoopOpts cfg prefix name uuid) (presenceTopic prefix name uuid, payload))
    \<and> (staleHeartbeat j topic payload now maxAge \<noteq> None \<longleftrightarrow> (\<exists>a b. topic = a @ ''/heartbeat/'' @ b))"
  using assms
  by (simp add: picked_def cleanupLoopOpts_def staleHeartbeat_def strContains_iff Let_def)


section \<open>The properties at concrete inputs\<close>

definition cleanup_example :: cleanupOpts where
  "cleanup_example = \<lparr>co_MaxAge = hour, co_DryRun = True, co_EventRoot = ''rv'', co_Keep = ''rv/discovery/n1/b''\<rparr>"

theorem cleanup_removes_exactly_stale_witness:
  "pa_seen (runHeartbeatCleanup restart_json (2 * hour) (\<lambda>path. None) cleanup_example
     (fold follow restart_messages newHeartbeatCache) (fold follow restart_messages newHeartbeatCache)) =
   length (fold follow restart_messages newHeartbeatCache)"
  using cleanup_removes_exactly_stale [OF refl refl] by blast

theorem cleanup_spares_living_nodes_witness:
  "staleHeartbeat restart_json ''site/heartbeat/discovery/n1/b'' ''new'' (2 * hour) hour \<noteq> None"
proof -
  have "staleHeartbeat restart_json ''site/heartbeat/discovery/n1/b'' ''new'' (2 * hour) hour \<noteq> None
      \<longleftrightarrow> (\<exists>a b. ''site/heartbeat/discovery/n1/b'' = a @ ''/heartbeat/'' @ b)"
    using cleanup_spares_living_nodes [where j = restart_json and payload = "''new''" and now = "2 * hour"
        and maxAge = hour and topic = "''site/heartbeat/discovery/n1/b''"
        and info = "\<lparr>ni_TS = 2 * hour, ni_Services = [(''rodrev'', Some (GStr ''n1''))]\<rparr>"]
    by (simp add: restart_json_def time_sub_def time_units)
  moreover have "''site/heartbeat/discovery/n1/b'' = ''site'' @ ''/heartbeat/'' @ ''discovery/n1/b''" by simp
  ultimately show ?thesis by blast
qed


end
