(* ===== verification/Fence.thy ===== *)
theory Fence
  imports Wire
begin

text \<open>
  Fencing: the permission check and command handler (\<^verbatim>\<open>plugin/fence/server.go\<close>, with the node map
  of \<^verbatim>\<open>config/config.go\<close>), the sysrq sequence (\<^verbatim>\<open>fence-self-sysrq.go\<close>, \<^verbatim>\<open>sysrq/sysrq.go\<close>) and the client
  (\<^verbatim>\<open>plugin/fence/client.go\<close>). Handling a fence command makes two programs of \<open>fence_action\<close>s: the
  goroutine that presses the keys, and the handler that answers. They run side by side and meet on a
  channel; \<open>fence_trace\<close> says in which orders and at what times their actions can happen. The result
  of writing a key to the sysrq trigger file is the parameter \<open>trigger\<close>.
\<close>

section \<open>Data\<close>

record FenceNode =
  fn_Nodes :: "string list"
  fn_Node :: "string list"
  fn_Password :: string

record FenceConfig =
  fc_Type :: string
  fc_Enabled :: bool
  fc_NodeMap :: "FenceNode gomap"
  fc_Group :: string
  fc_GroupPassword :: string
  fc_Fake :: bool

record FenceCmd =
  fk_Command :: string
  fk_Priority :: int
  fk_Node :: string

record FenceResponse =
  fp_Priority :: int
  fp_Success :: bool

record 'b fenceCodec =
  x_decodeCmd :: "'b \<Rightarrow> string + FenceCmd"
  x_encodeCmd :: "FenceCmd \<Rightarrow> string + 'b"
  x_encodeResp :: "FenceResponse \<Rightarrow> string + 'b"

text \<open>
  The fencing module of a daemon: its configuration, its node, and the name it settled on. Making
  one cannot fail.
\<close>

definition FenceLocalSysrq :: string where "FenceLocalSysrq = ''local_sysrq''"

definition fenceDefaultConfig :: FenceConfig where
  "fenceDefaultConfig =
     \<lparr>fc_Type = FenceLocalSysrq, fc_Enabled = False, fc_NodeMap = [], fc_Group = '''', fc_GroupPassword = '''',
      fc_Fake = False\<rparr>"

record 'b fence =
  fe_cfg :: FenceConfig
  fe_node :: "'b zn"
  fe_fqdn :: string

definition fence_New :: "'b zn \<Rightarrow> string \<Rightarrow> FenceConfig \<Rightarrow> string + 'b fence" where
  "fence_New node fqdn cfg = Inr \<lparr>fe_cfg = cfg, fe_node = node, fe_fqdn = fqdn\<rparr>"

definition cmdStatus :: string where "cmdStatus = ''status''"
definition cmdFence :: string where "cmdFence = ''fence''"

definition AllowedNodes :: "FenceNode \<Rightarrow> string list" where
  "AllowedNodes f = (if fn_Node f = [] then fn_Nodes f else fn_Nodes f @ fn_Node f)"

text \<open>Reading a missing key of the node map gives the zero entry.\<close>

definition nodeMapEntry :: "FenceConfig \<Rightarrow> string \<Rightarrow> FenceNode" where
  "nodeMapEntry cfg name =
     (case gm_get (fc_NodeMap cfg) name of Some e \<Rightarrow> e | None \<Rightarrow> \<lparr>fn_Nodes = [], fn_Node = [], fn_Password = ''''\<rparr>)"

section \<open>Permissions\<close>

definition CheckPermissions :: "FenceConfig \<Rightarrow> string \<Rightarrow> 'b event \<Rightarrow> FenceCmd \<Rightarrow> bool" where
  "CheckPermissions cfg fqdn ev cmd =
     (if fc_Group cfg = [] \<and> fc_NodeMap cfg = [] then True
      else if fk_Node cmd \<noteq> [] \<and> fk_Node cmd \<noteq> fqdn then False
      else if fc_Group cfg \<noteq> [] \<and> gm_get (ev_Headers ev) ''fence-group'' = Some (HStr (fc_Group cfg)) then True
      else if fc_NodeMap cfg \<noteq> [] \<and> fqdn \<in> set (AllowedNodes (nodeMapEntry cfg (ev_NodeName ev))) then True
      else False)"

section \<open>The sysrq sequence\<close>

text \<open>\<open>SendResult\<close> puts a result into the channel, \<open>AwaitResult\<close> waits until there is one.\<close>

datatype 'b fence_action =
    Sysrq char
  | SleepFor duration
  | SendResult "string option"
  | AwaitResult
  | Answer string "'b event"

definition CmdReadonly :: char where "CmdReadonly = CHR ''u''"
definition CmdSync :: char where "CmdSync = CHR ''s''"
definition CmdTerm :: char where "CmdTerm = CHR ''e''"
definition CmdReboot :: char where "CmdReboot = CHR ''b''"

datatype sysrq_write = OpenFails string | WriteFails string | WroteNothing | CloseFails string | Written

definition sysrq_Trigger :: "(char \<Rightarrow> sysrq_write) \<Rightarrow> char \<Rightarrow> string option" where
  "sysrq_Trigger trigger c =
     (case trigger c of
        OpenFails er \<Rightarrow> Some (''error opening sysrq: '' @ er)
      | WriteFails er \<Rightarrow> Some (''error sending sysrq: '' @ er)
      | WroteNothing \<Rightarrow> Some ''sysrq write returned zero bytes''
      | CloseFails er \<Rightarrow> Some er
      | Written \<Rightarrow> None)"

text \<open>
  What the kernel allows, as read from its file: the new state, or the error with the state as it
  was. Nothing calls it yet.
\<close>

datatype sysrqStateError = StateNotOpened string | StateNotParsed string

definition updateSysrqState :: "string + string \<Rightarrow> int \<Rightarrow> sysrqStateError option \<times> int" where
  "updateSysrqState content sysrqState =
     (case content of
        Inl er \<Rightarrow> (Some (StateNotOpened er), sysrqState)
      | Inr f \<Rightarrow>
          (case atoi f of
             None \<Rightarrow> (Some (StateNotParsed f), sysrqState)
           | Some state \<Rightarrow> (None, state)))"

text \<open>
  \<open>Self\<close> returns no initial error and starts a goroutine. That one sends the result of the remount
  and goes on to reboot, whatever the result is and whatever becomes of it.
\<close>

definition fence_Self :: "(char \<Rightarrow> sysrq_write) \<Rightarrow> duration \<Rightarrow> string option \<times> 'b fence_action list" where
  "fence_Self trigger delay =
     (None,
      [Sysrq CmdSync, Sysrq CmdTerm, SleepFor delay, Sysrq CmdReadonly,
       SendResult (sysrq_Trigger trigger CmdReadonly), SleepFor (20 * second), Sysrq CmdReboot])"

text \<open>What is received from the channel of a goroutine.\<close>

fun channel_value :: "'b fence_action list \<Rightarrow> string option" where
  "channel_value [] = None"
| "channel_value (SendResult er # acts) = er"
| "channel_value (_ # acts) = channel_value acts"

text \<open>
  The two programs side by side: what happens and when, up to any moment. A program does its next
  action at a time of its own, not before a sleep is over; the handler passes \<open>AwaitResult\<close> only when
  a result was sent. An accepted reboot is the end of both.
\<close>

fun wake :: "gotime \<Rightarrow> 'b fence_action \<Rightarrow> gotime" where
  "wake t (SleepFor d) = t + d"
| "wake t a = t"

fun is_result :: "'b fence_action \<Rightarrow> bool" where
  "is_result (SendResult er) = True"
| "is_result a = False"

inductive fence_trace ::
  "(char \<Rightarrow> sysrq_write) \<Rightarrow> 'b fence_action list \<Rightarrow> gotime \<Rightarrow> 'b fence_action list \<Rightarrow> bool \<Rightarrow> gotime
     \<Rightarrow> (gotime \<times> 'b fence_action) list \<Rightarrow> bool" for trigger where
  ft_cut: "fence_trace trigger self ready handler sent now []"
| ft_reboot: "\<lbrakk>now \<le> t; ready \<le> t; trigger CmdReboot = Written\<rbrakk> \<Longrightarrow>
     fence_trace trigger (Sysrq CmdReboot # self) ready handler sent now [(t, Sysrq CmdReboot)]"
| ft_self: "\<lbrakk>now \<le> t; ready \<le> t; a \<noteq> Sysrq CmdReboot \<or> trigger CmdReboot \<noteq> Written;
     fence_trace trigger self (wake t a) handler (sent \<or> is_result a) t tr\<rbrakk> \<Longrightarrow>
     fence_trace trigger (a # self) ready handler sent now ((t, a) # tr)"
| ft_handler: "\<lbrakk>now \<le> t; a = AwaitResult \<longrightarrow> sent; fence_trace trigger self ready handler sent t tr\<rbrakk> \<Longrightarrow>
     fence_trace trigger self ready (a # handler) sent now ((t, a) # tr)"

section \<open>The handler\<close>

text \<open>Fencing another node by sysrq is refused at once; nothing is ever sent on its channel.\<close>

definition fence_Node :: "string \<Rightarrow> duration \<Rightarrow> string option \<times> 'b fence_action list" where
  "fence_Node nodeName delay = (Some ''sysrq fence works only on self'', [])"

datatype fence_err =
    FenceDecode string
  | NotPermitted string string
  | FenceReplyChan string
  | FenceSend string
  | FenceTimeout

fun fence_errText :: "fence_err \<Rightarrow> string" where
  "fence_errText (FenceDecode er) = ''error unmarshalling event: '' @ er"
| "fence_errText (NotPermitted who fqdn) = ''node '' @ who @ '' is not permitted to fence '' @ fqdn"
| "fence_errText (FenceReplyChan er) = ''error getting reply channel: '' @ er"
| "fence_errText (FenceSend er) = ''error sending fence request: '' @ er"
| "fence_errText FenceTimeout = ''timed out''"

declare fence_errText.simps [simp del]

text \<open>The answer: an event of this node with the response, sent to the reply topic.\<close>

definition fence_answer ::
  "'b fenceCodec \<Rightarrow> 'b zn \<Rightarrow> string \<Rightarrow> 'b event \<Rightarrow> FenceResponse \<Rightarrow> 'b fence_action list" where
  "fence_answer cd n hostFQDN ev resp =
     (let re0 = set_header ''fqdn'' (HStr hostFQDN) (zn_NewEvent n);
          re = (case x_encodeResp cd resp of Inl er \<Rightarrow> re0 | Inr b \<Rightarrow> re0\<lparr>ev_Body := b\<rparr>)
      in map (\<lambda>(t, e). Answer t e) (fst (runtime_Reply n ev re)))"

text \<open>What handling an event comes to: the goroutine it starts, the handler itself, and the handler's error.\<close>

definition fence_HandleEvent ::
  "'b fenceCodec \<Rightarrow> 'b zn \<Rightarrow> FenceConfig \<Rightarrow> string \<Rightarrow> string \<Rightarrow> (char \<Rightarrow> sysrq_write) \<Rightarrow> 'b event
     \<Rightarrow> 'b fence_action list \<times> 'b fence_action list \<times> string option" where
  "fence_HandleEvent cd n cfg fqdn hostFQDN trigger ev =
     (case x_decodeCmd cd (ev_Body ev) of
        Inl er \<Rightarrow> ([], [], Some (fence_errText (FenceDecode er)))
      | Inr cmd \<Rightarrow>
        if \<not> CheckPermissions cfg fqdn ev cmd then
          ([], [], Some (fence_errText (NotPermitted (ev_NodeName ev) fqdn)))
        else if fk_Command cmd = cmdFence then
          (let (self, await) =
                 (if fc_Fake cfg then ([], []) else (snd (fence_Self trigger (11 * second)), [AwaitResult]));
               err = channel_value self;
               resp = \<lparr>fp_Priority = 0, fp_Success = (err = None)\<rparr>
           in (self, await @ fence_answer cd n hostFQDN ev resp, err))
        else if fk_Command cmd = cmdStatus then
          ([], fence_answer cd n hostFQDN ev \<lparr>fp_Priority = 0, fp_Success = True\<rparr>, None)
        else ([], [], None))"

section \<open>The client\<close>

definition fence_request ::
  "'b fenceCodec \<Rightarrow> 'b zn \<Rightarrow> string \<Rightarrow> string \<Rightarrow> string \<Rightarrow> string \<Rightarrow> 'b event" where
  "fence_request cd n grp replyPath command node =
     (let e0 = (if length grp > 0 then set_header ''fence-group'' (HStr grp) (zn_NewEvent n)
                else zn_NewEvent n);
          e1 = (case x_encodeCmd cd \<lparr>fk_Command = command, fk_Priority = 0, fk_Node = node\<rparr> of
                  Inl er \<Rightarrow> e0 | Inr b \<Rightarrow> e0\<lparr>ev_Body := b\<rparr>)
      in e1\<lparr>ev_ReplyTo := replyPath\<rparr>)"

text \<open>\<open>answer\<close> is the first reply within the deadline; the client does not look into it.\<close>

definition fence_Send ::
  "'b fenceCodec \<Rightarrow> 'b zn \<Rightarrow> string \<Rightarrow> string + string \<Rightarrow> string \<Rightarrow> 'b event option
     \<Rightarrow> (string \<times> 'b event) list \<times> string option" where
  "fence_Send cd n grp replyChan node answer =
     (case replyChan of
        Inl er \<Rightarrow> ([], Some (fence_errText (FenceReplyChan er)))
      | Inr replyPath \<Rightarrow>
          (let cmd = fence_request cd n grp replyPath cmdFence node; topic = ''fence/'' @ node
           in case zn_SendEvent n topic cmd of
                Some er \<Rightarrow> ([], Some (fence_errText (FenceSend er)))
              | None \<Rightarrow>
                  ([(topic, cmd)], case answer of None \<Rightarrow> Some (fence_errText FenceTimeout) | Some ev \<Rightarrow> None)))"

definition fence_Status ::
  "'b fenceCodec \<Rightarrow> 'b zn \<Rightarrow> string \<Rightarrow> string + string \<Rightarrow> string \<Rightarrow> 'b event option
     \<Rightarrow> (string \<times> 'b event) list \<times> bool \<times> string option" where
  "fence_Status cd n grp replyChan node answer =
     (case replyChan of
        Inl er \<Rightarrow> ([], False, Some (fence_errText (FenceReplyChan er)))
      | Inr replyPath \<Rightarrow>
          (let cmd = fence_request cd n grp replyPath cmdStatus node; topic = ''fence/'' @ node
           in case zn_SendEvent n topic cmd of
                Some er \<Rightarrow> ([], False, Some (fence_errText (FenceSend er)))
              | None \<Rightarrow>
                  (case answer of
                     None \<Rightarrow> ([(topic, cmd)], False, Some (fence_errText FenceTimeout))
                   | Some ev \<Rightarrow> ([(topic, cmd)], True, None))))"

section \<open>Lemmas\<close>

lemma AllowedNodes_set: "set (AllowedNodes f) = set (fn_Nodes f) \<union> set (fn_Node f)"
  by (auto simp: AllowedNodes_def)

text \<open>Who may fence: the specification of the check.\<close>

definition fence_authorised :: "FenceConfig \<Rightarrow> string \<Rightarrow> 'b event \<Rightarrow> FenceCmd \<Rightarrow> bool" where
  "fence_authorised cfg fqdn ev cmd \<longleftrightarrow>
     (fc_Group cfg = [] \<and> fc_NodeMap cfg = [])
     \<or> (fk_Node cmd \<in> {[], fqdn}
        \<and> ((fc_Group cfg \<noteq> [] \<and> header_string ev ''fence-group'' = Some (fc_Group cfg))
           \<or> (\<exists>e. gm_get (fc_NodeMap cfg) (ev_NodeName ev) = Some e
                  \<and> fqdn \<in> set (fn_Nodes e) \<union> set (fn_Node e))))"

lemma header_string_iff: "header_string ev k = Some v \<longleftrightarrow> gm_get (ev_Headers ev) k = Some (HStr v)"
  by (auto simp: header_string_def split: option.splits hval.splits)

lemma nodeMapEntry_allowed:
  "fqdn \<in> set (AllowedNodes (nodeMapEntry cfg name)) \<longleftrightarrow>
     (\<exists>e. gm_get (fc_NodeMap cfg) name = Some e \<and> fqdn \<in> set (fn_Nodes e) \<union> set (fn_Node e))"
  by (auto simp: nodeMapEntry_def AllowedNodes_set split: option.splits)

lemma CheckPermissions_iff: "CheckPermissions cfg fqdn ev cmd \<longleftrightarrow> fence_authorised cfg fqdn ev cmd"
proof (cases "fc_NodeMap cfg = []")
  case True
  then show ?thesis
    by (auto simp: CheckPermissions_def fence_authorised_def header_string_iff)
next
  case False
  then show ?thesis
    by (auto simp: CheckPermissions_def fence_authorised_def header_string_iff nodeMapEntry_allowed)
qed

definition sysrq_keys :: "'b fence_action list \<Rightarrow> char list" where
  "sysrq_keys acts = concat (map (\<lambda>a. case a of Sysrq c \<Rightarrow> [c] | _ \<Rightarrow> []) acts)"

text \<open>The kernel ends the file with a newline, which makes it unreadable as a number.\<close>

lemma parse_digits_bad:
  "\<exists>c \<in> set s. \<not> isDigit c \<Longrightarrow> parse_digits acc s = None"
  by (induction s arbitrary: acc) auto

lemma sysrq_state_with_newline_is_not_read:
  "updateSysrqState (Inr (s @ [NL])) st = (Some (StateNotParsed (s @ [NL])), st)"
proof -
  have "parse_digits 0 (t @ [NL]) = None" for t
    by (rule parse_digits_bad) (simp add: isDigit_def)
  note bad = this
  have "atoi (s @ [NL]) = None"
    using bad [of "[]"] bad [of s] bad [of "tl s"]
    by (cases s) (auto simp: atoi_def Let_def simp del: parse_digits.simps)
  then show ?thesis by (simp add: updateSysrqState_def)
qed

lemma sysrq_keys_append [simp]: "sysrq_keys (a @ b) = sysrq_keys a @ sysrq_keys b"
  by (simp add: sysrq_keys_def)

lemma fence_answer_keys [simp]: "sysrq_keys (fence_answer cd n h ev resp) = []"
  by (auto simp: fence_answer_def sysrq_keys_def Let_def)

lemma fence_Self_keys: "sysrq_keys (snd (fence_Self trigger d)) = [CmdSync, CmdTerm, CmdReadonly, CmdReboot]"
  by (simp add: fence_Self_def sysrq_keys_def)

lemma fence_handler_keys: "sysrq_keys (fst (snd (fence_HandleEvent cd n cfg fqdn host trigger ev))) = []"
proof -
  have "sysrq_keys (AwaitResult # fence_answer cd n host ev resp) = []" for resp
    using fence_answer_keys [of cd n host ev resp] by (simp add: sysrq_keys_def del: fence_answer_keys)
  moreover have "sysrq_keys ([] :: 'a fence_action list) = []" by (simp add: sysrq_keys_def)
  ultimately show ?thesis by (simp add: fence_HandleEvent_def Let_def split: sum.split)
qed

lemma fence_HandleEvent_keys:
  "sysrq_keys (fst (fence_HandleEvent cd n cfg fqdn host trigger ev)) = [] \<or>
    (\<exists>cmd. x_decodeCmd cd (ev_Body ev) = Inr cmd \<and> fk_Command cmd = cmdFence \<and> \<not> fc_Fake cfg
       \<and> fence_authorised cfg fqdn ev cmd
       \<and> sysrq_keys (fst (fence_HandleEvent cd n cfg fqdn host trigger ev)) = [CmdSync, CmdTerm, CmdReadonly, CmdReboot])"
proof (cases "x_decodeCmd cd (ev_Body ev)")
  case (Inl er)
  then show ?thesis by (simp add: fence_HandleEvent_def sysrq_keys_def)
next
  case (Inr cmd)
  show ?thesis
  proof (cases "CheckPermissions cfg fqdn ev cmd \<and> fk_Command cmd = cmdFence \<and> \<not> fc_Fake cfg")
    case True
    with Inr have "fst (fence_HandleEvent cd n cfg fqdn host trigger ev) = snd (fence_Self trigger (11 * second))"
      by (simp add: fence_HandleEvent_def Let_def)
    with True Inr show ?thesis by (simp add: CheckPermissions_iff fence_Self_keys)
  next
    case False
    with Inr have "sysrq_keys (fst (fence_HandleEvent cd n cfg fqdn host trigger ev)) = []"
      by (auto simp: fence_HandleEvent_def Let_def sysrq_keys_def [of "[]"])
    then show ?thesis ..
  qed
qed

text \<open>An authorised command to fence runs the whole sequence; anything else presses no key.\<close>

lemma fence_HandleEvent_keys_iff:
  assumes "x_decodeCmd cd (ev_Body ev) = Inr cmd" and "fk_Command cmd = cmdFence"
  shows "sysrq_keys (fst (fence_HandleEvent cd n cfg fqdn host trigger ev)) =
    (if \<not> fc_Fake cfg \<and> fence_authorised cfg fqdn ev cmd
     then [CmdSync, CmdTerm, CmdReadonly, CmdReboot] else [])"
  using assms
  by (simp add: fence_HandleEvent_def CheckPermissions_iff [symmetric] fence_Self_def sysrq_keys_def Let_def)

text \<open>What the client's request carries to the node it is for.\<close>

lemma fence_request_fields:
  assumes "x_encodeCmd cd \<lparr>fk_Command = command, fk_Priority = 0, fk_Node = node\<rparr> = Inr b"
    and "gm_get (ev_Headers (zn_NewEvent n)) ''fence-group'' = None"
  shows "ev_Body (fence_request cd n grp path command node) = b"
    and "header_string (fence_request cd n grp path command node) ''fence-group'' = (if grp = [] then None else Some grp)"
    and "ev_NodeName (fence_request cd n grp path command node) = ev_NodeName (zn_NewEvent n)"
  using assms by (simp_all add: fence_request_def header_string_def set_header_def Let_def)

subsection \<open>Traces\<close>

text \<open>The actions of the goroutine are done in order, each not before the sleep before it is over.\<close>

fun paced :: "gotime \<Rightarrow> 'b fence_action list \<Rightarrow> (gotime \<times> 'b fence_action) list \<Rightarrow> bool" where
  "paced ready self [] = True"
| "paced ready [] (x # tr) = False"
| "paced ready (a # self) ((t, b) # tr) = (a = b \<and> ready \<le> t \<and> paced (wake t a) self tr)"

lemma paced_Cons:
  "paced ready (a # self) tr \<longleftrightarrow> tr = [] \<or> (\<exists>t tr'. tr = (t, a) # tr' \<and> ready \<le> t \<and> paced (wake t a) self tr')"
  by (cases tr) auto

lemma paced_Nil: "paced ready [] tr \<longleftrightarrow> tr = []"
  by (cases tr) auto

lemma paced_take: "paced ready self tr \<Longrightarrow> map snd tr = take (length tr) self"
  by (induction ready self tr rule: paced.induct) auto

lemma sysrq_keys_take: "\<exists>n. sysrq_keys (take k acts) = take n (sysrq_keys acts)"
proof -
  have "sysrq_keys (take k acts) @ sysrq_keys (drop k acts) = sysrq_keys acts"
    by (metis append_take_drop_id sysrq_keys_append)
  then show ?thesis by (metis append_eq_conv_conj)
qed

fun of_handler :: "'b fence_action \<Rightarrow> bool" where
  "of_handler AwaitResult = True"
| "of_handler (Answer t e) = True"
| "of_handler a = False"

lemma trace_paced:
  "\<lbrakk>fence_trace trigger self ready handler sent now tr; list_all (\<lambda>a. \<not> of_handler a) self; list_all of_handler handler\<rbrakk>
     \<Longrightarrow> paced ready self (filter (\<lambda>(t, a). \<not> of_handler a) tr)"
  by (induction rule: fence_trace.induct) auto

lemma own_keys: "sysrq_keys (map snd (filter (\<lambda>(t, a). \<not> of_handler a) tr)) = sysrq_keys (map snd tr)"
proof (induction tr)
  case (Cons x tr)
  obtain t a where "x = (t, a)" by (rule prod.exhaust)
  then show ?case using Cons by (cases a) (simp_all add: sysrq_keys_def)
qed simp

lemma fence_answer_of_handler: "list_all of_handler (fence_answer cd n h ev resp)"
  by (auto simp: fence_answer_def list_all_iff Let_def)

text \<open>The answer, if the node can send it, is one event on the topic the sender asked for.\<close>

lemma fence_answer_fields:
  assumes "Answer topic re \<in> set (fence_answer cd n h ev resp)"
  shows "topic = ev_ReplyTo ev" and "x_encodeResp cd resp = Inr b \<Longrightarrow> ev_Body re = b"
  using assms by (auto simp: fence_answer_def runtime_Reply_def Let_def split: if_splits option.splits sum.splits)

lemma trace_handler:
  "\<lbrakk>fence_trace trigger self ready handler sent now tr; list_all (\<lambda>a. \<not> of_handler a) self; (t, a) \<in> set tr; of_handler a\<rbrakk>
     \<Longrightarrow> a \<in> set handler"
  by (induction rule: fence_trace.induct) auto

lemma trace_times: "\<lbrakk>fence_trace trigger self ready handler sent now tr; (t, a) \<in> set tr\<rbrakk> \<Longrightarrow> now \<le> t"
  by (induction rule: fence_trace.induct) auto

lemma trace_answer_after_result:
  "\<lbrakk>fence_trace trigger self ready handler sent now tr; list_all (\<lambda>a. \<not> of_handler a) self;
     sent \<or> (\<exists>hs. handler = AwaitResult # hs); (t, Answer topic re) \<in> set tr\<rbrakk>
     \<Longrightarrow> sent \<or> (\<exists>ts er. (ts, SendResult er) \<in> set tr \<and> ts \<le> t)"
proof (induction rule: fence_trace.induct)
  case (ft_self now u ready a self handler sent tr)
  then have in_tr: "(t, Answer topic re) \<in> set tr" by auto
  then have "u \<le> t" using trace_times [OF ft_self.hyps(4)] by blast
  moreover have "sent \<or> is_result a \<or> (\<exists>ts er. (ts, SendResult er) \<in> set tr \<and> ts \<le> t)"
    using ft_self.IH ft_self.prems in_tr by auto
  ultimately show ?case by (cases a) auto
next
  case (ft_handler now u a sent self ready handler tr)
  show ?case
  proof (cases sent)
    case False
    then show ?thesis using ft_handler.hyps(2) ft_handler.prems(2) by auto
  qed simp
qed simp_all

section \<open>Properties\<close>
section \<open>Properties\<close>

text \<open>
  A node pulls its own plug only for a fence command it accepts: any sysrq key at all implies
  a decodable fence command, no fake mode, and a sender that is authorised (nobody restricted, the
  right grp, or a node map entry naming this node, and in both cases a request not meant for
  another node). The keys are then sync, terminate, remount read-only, reboot in this order.
\<close>

theorem no_fencing_without_permission:
  assumes "fence_HandleEvent cd n cfg fqdn host trigger ev = (acts, answers, err)"
  shows "sysrq_keys acts = [] \<and> sysrq_keys answers = [] \<or>
    (\<exists>cmd. x_decodeCmd cd (ev_Body ev) = Inr cmd \<and> fk_Command cmd = cmdFence \<and> \<not> fc_Fake cfg
       \<and> fence_authorised cfg fqdn ev cmd
       \<and> sysrq_keys acts = [CmdSync, CmdTerm, CmdReadonly, CmdReboot])"
  using fence_HandleEvent_keys [of cd n cfg fqdn host trigger ev] fence_handler_keys [of cd n cfg fqdn host trigger ev]
  by (simp add: assms)


text \<open>
  The client's request meets the server's check: with a common group a node accepts the
  request the client made for it, and refuses the one made for another node; but the client calls
  the fencing done on any answer, whatever the answer says.
\<close>

theorem fence_client_meets_server:
  assumes "fc_Group cfg = grp" and "grp \<noteq> []" and "node \<noteq> []"
    and "fence_Send cd n grp (Inr path) node answer = ([(topic, ev)], err)"
  shows "(CheckPermissions cfg fqdn ev \<lparr>fk_Command = cmdFence, fk_Priority = 0, fk_Node = node\<rparr>
      \<longleftrightarrow> node = fqdn)
    \<and> topic = ''fence/'' @ node \<and> (err = None \<longleftrightarrow> answer \<noteq> None)"
proof -
  have ev: "ev = fence_request cd n grp path cmdFence node" "topic = ''fence/'' @ node"
    "err = (case answer of None \<Rightarrow> Some (fence_errText FenceTimeout) | Some ev \<Rightarrow> None)"
    using assms(4) by (auto simp: fence_Send_def Let_def split: option.splits)
  have "header_string ev ''fence-group'' = Some grp"
    using assms(2) by (simp add: ev(1) fence_request_def Let_def split: sum.splits)
  then have "CheckPermissions cfg fqdn ev \<lparr>fk_Command = cmdFence, fk_Priority = 0, fk_Node = node\<rparr>
      \<longleftrightarrow> node = fqdn"
    using assms(1-3) by (auto simp: CheckPermissions_iff fence_authorised_def)
  then show ?thesis by (simp add: ev(2,3) split: option.splits)
qed

section \<open>The properties at concrete inputs\<close>

datatype plainFenceBody = FCmd FenceCmd | FResp FenceResponse | FNone

definition plainFenceCodec :: "plainFenceBody fenceCodec" where
  "plainFenceCodec = \<lparr>x_decodeCmd = (\<lambda>b. case b of FCmd c \<Rightarrow> Inr c | _ \<Rightarrow> Inl ''type''),
     x_encodeCmd = (\<lambda>c. Inr (FCmd c)), x_encodeResp = (\<lambda>r. Inr (FResp r))\<rparr>"

definition plainFenceEvent :: "plainFenceBody event" where
  "plainFenceEvent = \<lparr>ev_NodeName = ''boss'', ev_RoutingKey = ''rv/fence/n1'', ev_ReplyTo = ''reply'',
     ev_Headers = [(''fence-group'', HStr ''g'')],
     ev_Body = FCmd \<lparr>fk_Command = cmdFence, fk_Priority = 0, fk_Node = ''n1''\<rparr>\<rparr>"

definition plainFenceNode :: "plainFenceBody zn" where
  "plainFenceNode = \<lparr>zn_Name = ''n1'', zn_UUID = ''u'',
     zn_NewEvent = plainFenceEvent\<lparr>ev_Headers := [], ev_Body := FNone\<rparr>,
     zn_PrepareReply = (\<lambda>ev. plainFenceEvent\<lparr>ev_Headers := [], ev_Body := FNone\<rparr>),
     zn_SendEvent = (\<lambda>t ev. None)\<rparr>"

definition plainFenceConfig :: FenceConfig where
  "plainFenceConfig = \<lparr>fc_Type = '''', fc_Enabled = True, fc_NodeMap = [], fc_Group = ''g'', fc_GroupPassword = '''',
     fc_Fake = False\<rparr>"

theorem no_fencing_without_permission_witness:
  "sysrq_keys (fst (fence_HandleEvent plainFenceCodec plainFenceNode plainFenceConfig ''n2'' ''n2''
     (\<lambda>c. Written) plainFenceEvent)) = []"
proof -
  obtain acts answers err where h: "fence_HandleEvent plainFenceCodec plainFenceNode plainFenceConfig ''n2'' ''n2''
     (\<lambda>c. Written) plainFenceEvent = (acts, answers, err)" by (rule prod_cases3)
  from no_fencing_without_permission [OF h] have "sysrq_keys acts = []"
    by (auto simp: plainFenceCodec_def plainFenceEvent_def fence_authorised_def plainFenceConfig_def)
  then show ?thesis by (simp add: h)
qed


theorem fence_client_meets_server_witness:
  "\<exists>ev. fence_Send plainFenceCodec plainFenceNode ''g'' (Inr ''reply'') ''n1'' None
      = ([(''fence/n1'', ev)], Some (fence_errText FenceTimeout))
    \<and> CheckPermissions plainFenceConfig ''n1'' ev \<lparr>fk_Command = cmdFence, fk_Priority = 0, fk_Node = ''n1''\<rparr>"
proof -
  obtain ev where h: "fence_Send plainFenceCodec plainFenceNode ''g'' (Inr ''reply'') ''n1'' None
      = ([(''fence/n1'', ev)], Some (fence_errText FenceTimeout))"
    by (simp add: fence_Send_def plainFenceNode_def Let_def)
  from fence_client_meets_server [OF _ _ _ h, of plainFenceConfig "''n1''"] h show ?thesis
    by (simp add: plainFenceConfig_def)
qed

end
