(* ===== verification/Downtime.thy ===== *)
theory Downtime
  imports Wire
begin

text \<open>
  Downtimes: the server that checks requests and schedules them (\<^verbatim>\<open>downtime/downtime.go\<close>) and the
  client command (\<^verbatim>\<open>cmd/rv/commands/downtime/downtime.go\<close>). The monitoring API is the parameter
  \<open>schedule\<close>; what was scheduled is the list of calls made to it.
\<close>

section \<open>Requests\<close>

record DowntimeRequest =
  dr_Host :: string
  dr_Duration :: duration
  dr_Reason :: string

definition maxDowntime :: duration where "maxDowntime = hour * 24 * 60"

datatype downtime_err =
    NoHostname
  | NotPositive duration
  | TooLong duration
  | WrongHost string string

definition HostFromRoutingKey :: "string \<Rightarrow> string" where
  "HostFromRoutingKey routingKey =
     (let route = strSplit routingKey SLASH; lastLevel = route ! (length route - 1)
      in trimPrefix (strSplit lastLevel (CHR ''.'') ! 0) ''client_'')"

definition ValidateRequest :: "DowntimeRequest \<Rightarrow> string \<Rightarrow> downtime_err + DowntimeRequest" where
  "ValidateRequest req routingKey =
     (if length (dr_Host req) < 1 then Inl NoHostname
      else if dr_Duration req \<le> 0 then Inl (NotPositive (dr_Duration req))
      else if dr_Duration req \<ge> maxDowntime then Inl (TooLong (dr_Duration req))
      else let host = HostFromRoutingKey routingKey
        in if host \<noteq> dr_Host req then Inl (WrongHost host (dr_Host req))
           else let req1 = req\<lparr>dr_Reason := trimSpace (dr_Reason req)\<rparr>
             in Inr (if length (dr_Reason req1) = 0 then req1\<lparr>dr_Reason := ''not specified''\<rparr> else req1))"

section \<open>The server\<close>

record icingaDowntime =
  ic_Host :: string
  ic_Start :: gotime
  ic_End :: gotime
  ic_Author :: string
  ic_Comment :: string

text \<open>One event of the loop, read at time \<open>now\<close>: the API call it makes, if any.\<close>

text \<open>The clock is read twice, for the start and for the end.\<close>

definition downtime_event ::
  "('b \<Rightarrow> string + DowntimeRequest) \<Rightarrow> gotime \<times> gotime \<Rightarrow> 'b event \<Rightarrow> icingaDowntime list" where
  "downtime_event decode clock ev =
     (case decode (ev_Body ev) of
        Inl er \<Rightarrow> []
      | Inr req \<Rightarrow>
        (case ValidateRequest req (ev_RoutingKey ev) of
           Inl er \<Rightarrow> []
         | Inr dt \<Rightarrow> [\<lparr>ic_Host = dr_Host dt, ic_Start = fst clock, ic_End = snd clock + dr_Duration dt,
                       ic_Author = ev_NodeName ev, ic_Comment = dr_Reason dt\<rparr>]))"

definition downtime_Run ::
  "('b \<Rightarrow> string + DowntimeRequest) \<Rightarrow> ((gotime \<times> gotime) \<times> 'b event) list \<Rightarrow> icingaDowntime list" where
  "downtime_Run decode evs = concat (map (\<lambda>(clock, ev). downtime_event decode clock ev) evs)"

section \<open>The client command\<close>

datatype 'b downtimeResult =
    DowntimeHelp
  | BadDuration
  | DowntimePanic
  | MarshalFailed
  | SendFailed
  | DowntimeSent string "'b event"

text \<open>
  \<open>hostFlag\<close> is the \<^verbatim>\<open>--host\<close> flag, \<open>parse\<close> is \<^verbatim>\<open>time.ParseDuration\<close>. The message about a bad duration
  reads the second argument.
\<close>

definition downtime_command ::
  "'b zn \<Rightarrow> (DowntimeRequest \<Rightarrow> string + 'b) \<Rightarrow> (string \<Rightarrow> duration option) \<Rightarrow> string \<Rightarrow> string \<Rightarrow> string
     \<Rightarrow> string list \<Rightarrow> 'b downtimeResult" where
  "downtime_command n marshal parse certname hostname hostFlag args =
     (if length args < 1 then DowntimeHelp
      else let host = (if hostFlag = [] then hostname else hostFlag)
        in case parse (args ! 0) of
             None \<Rightarrow> if length args < 2 then DowntimePanic else BadDuration
           | Some d \<Rightarrow>
               (let reason = (if length args > 1 then strJoin (tl args) '' '' else '''')
                in case marshal \<lparr>dr_Host = host, dr_Duration = d, dr_Reason = reason\<rparr> of
                     Inl er \<Rightarrow> MarshalFailed
                   | Inr b \<Rightarrow>
                       (let ev = (zn_NewEvent n)\<lparr>ev_Body := b\<rparr>; topic = ''downtime/'' @ certname
                        in case zn_SendEvent n topic ev of
                             Some er \<Rightarrow> SendFailed
                           | None \<Rightarrow> DowntimeSent topic ev)))"

section \<open>Lemmas\<close>

lemma ValidateRequest_Inr:
  "ValidateRequest req key = Inr r \<longleftrightarrow>
     dr_Host req \<noteq> [] \<and> 0 < dr_Duration req \<and> dr_Duration req < maxDowntime
     \<and> HostFromRoutingKey key = dr_Host req
     \<and> r = req\<lparr>dr_Reason := (if trimSpace (dr_Reason req) = [] then ''not specified''
                              else trimSpace (dr_Reason req))\<rparr>"
  by (auto simp: ValidateRequest_def Let_def)

lemma HostFromRoutingKey_append:
  assumes "SLASH \<notin> set name"
  shows "HostFromRoutingKey (prefix @ SLASH # name) = trimPrefix (strSplit name (CHR ''.'') ! 0) ''client_''"
  using assms by (simp add: HostFromRoutingKey_def Let_def strSplit_whole nth_append)

lemma HostFromRoutingKey_no_sep: "c \<in> set (HostFromRoutingKey key) \<Longrightarrow> c \<noteq> CHR ''.'' \<and> c \<noteq> SLASH"
proof -
  let ?route = "strSplit key SLASH"
  define l where "l = ?route ! (length ?route - 1)"
  define h where "h = strSplit l (CHR ''.'') ! 0"
  assume "c \<in> set (HostFromRoutingKey key)"
  then have ch: "c \<in> set h"
    by (auto simp: HostFromRoutingKey_def Let_def trimPrefix_def l_def h_def
        split: if_splits dest: in_set_dropD)
  have "h \<in> set (strSplit l (CHR ''.''))" by (simp add: h_def)
  then have "c \<noteq> CHR ''.''" using ch splitBy_no_sep by (fastforce simp: strSplit_def)
  moreover have "set h \<subseteq> set l"
  proof -
    have "strJoin (strSplit l (CHR ''.'')) [CHR ''.''] = l" by (rule strJoin_strSplit)
    moreover obtain w ws where "strSplit l (CHR ''.'') = w # ws" by (cases "strSplit l (CHR ''.'')") auto
    ultimately show ?thesis
      by (cases ws) (auto simp: h_def)
  qed
  moreover have "l \<in> set ?route" by (simp add: l_def)
  then have "SLASH \<notin> set l" using splitBy_no_sep by (fastforce simp: strSplit_def)
  ultimately show ?thesis using ch by blast
qed

section \<open>Properties\<close>

text \<open>
  C12: Whatever is published, every downtime the server schedules is for the host its topic
  names, starts now, ends a positive time below sixty days from then (the end is reckoned from a
  second reading of the clock, so it lies after the start unless the clock was set back in between),
  has a comment and is signed by the sending node.
\<close>

theorem host_downtimes_only_itself:
  assumes "dt \<in> set (downtime_Run decode evs)"
  shows "\<exists>((now, later), ev) \<in> set evs. ic_Host dt = HostFromRoutingKey (ev_RoutingKey ev)
    \<and> ic_Host dt \<noteq> [] \<and> CHR ''.'' \<notin> set (ic_Host dt) \<and> ic_Start dt = now
    \<and> later < ic_End dt \<and> ic_End dt < later + 60 * (24 * hour) \<and> (now \<le> later \<longrightarrow> ic_Start dt < ic_End dt)
    \<and> ic_Comment dt \<noteq> [] \<and> ic_Author dt = ev_NodeName ev"
proof -
  from assms obtain now later ev where ev: "((now, later), ev) \<in> set evs"
    "dt \<in> set (downtime_event decode (now, later) ev)"
    by (auto simp: downtime_Run_def)
  then obtain req where d: "decode (ev_Body ev) = Inr req"
    by (cases "decode (ev_Body ev)") (auto simp: downtime_event_def)
  with ev(2) obtain r where r: "ValidateRequest req (ev_RoutingKey ev) = Inr r"
    by (cases "ValidateRequest req (ev_RoutingKey ev)") (auto simp: downtime_event_def)
  with ev(2) d have dt: "dt = \<lparr>ic_Host = dr_Host r, ic_Start = now, ic_End = later + dr_Duration r,
      ic_Author = ev_NodeName ev, ic_Comment = dr_Reason r\<rparr>"
    by (simp add: downtime_event_def)
  from r have v: "dr_Host req \<noteq> []" "0 < dr_Duration req" "dr_Duration req < maxDowntime"
    "HostFromRoutingKey (ev_RoutingKey ev) = dr_Host req" "dr_Host r = dr_Host req"
    "dr_Duration r = dr_Duration req" "dr_Reason r \<noteq> []"
    by (auto simp: ValidateRequest_Inr)
  have "CHR ''.'' \<notin> set (dr_Host r)" using HostFromRoutingKey_no_sep [of _ "ev_RoutingKey ev"] v by auto
  with ev(1) v dt show ?thesis
    by (intro bexI [of _ "((now, later), ev)"]) (auto simp: maxDowntime_def)
qed


text \<open>
  A request for exactly sixty days is refused, and a single unparsable argument crashes the
  command instead of explaining the format.
\<close>

theorem downtime_edge_cases:
  "(\<forall>key r. dr_Duration r = 60 * (24 * hour) \<and> dr_Host r \<noteq> [] \<longrightarrow> ValidateRequest r key = Inl (TooLong (dr_Duration r)))
   \<and> (\<forall>a. parse a = None \<longrightarrow> downtime_command n marshal parse certname host flag [a] = DowntimePanic)"
  by (auto simp: ValidateRequest_def maxDowntime_def time_units downtime_command_def)

section \<open>The properties at concrete inputs\<close>

definition plainDowntimeEvent :: "DowntimeRequest event" where
  "plainDowntimeEvent = \<lparr>ev_NodeName = ''n1'', ev_RoutingKey = ''rv/downtime/client_n1.example.com'',
     ev_ReplyTo = '''', ev_Headers = [],
     ev_Body = \<lparr>dr_Host = ''n1'', dr_Duration = hour, dr_Reason = ''disk''\<rparr>\<rparr>"

definition plainDowntimeNode :: "DowntimeRequest zn" where
  "plainDowntimeNode = \<lparr>zn_Name = ''n1'', zn_UUID = ''u'', zn_NewEvent = plainDowntimeEvent,
     zn_PrepareReply = (\<lambda>ev. plainDowntimeEvent), zn_SendEvent = (\<lambda>t ev. None)\<rparr>"

lemma plain_downtime:
  "downtime_event Inr (5, 5) plainDowntimeEvent = [\<lparr>ic_Host = ''n1'', ic_Start = 5, ic_End = 5 + hour,
     ic_Author = ''n1'', ic_Comment = ''disk''\<rparr>]"
  by (simp add: downtime_event_def plainDowntimeEvent_def ValidateRequest_def HostFromRoutingKey_def
      strSplit_def trimPrefix_def hasPrefix_def maxDowntime_def time_units trimSpace_def trimBy_def
      trimRightBy_def isSpace_def Let_def)

theorem host_downtimes_only_itself_witness:
  "HostFromRoutingKey ''rv/downtime/client_n1.example.com'' = ''n1''"
  using host_downtimes_only_itself [of "\<lparr>ic_Host = ''n1'', ic_Start = 5, ic_End = 5 + hour,
     ic_Author = ''n1'', ic_Comment = ''disk''\<rparr>" Inr "[((5, 5), plainDowntimeEvent)]"]
  by (simp add: downtime_Run_def plain_downtime) (simp add: plainDowntimeEvent_def)


theorem downtime_edge_cases_witness:
  "downtime_command plainDowntimeNode Inr (\<lambda>s. None) ''n1'' ''n1'' '''' [''soon''] = DowntimePanic"
  using downtime_edge_cases [of "\<lambda>s. None" plainDowntimeNode Inr "''n1''" "''n1''" "''''"] by simp

end
