(* ===== verification/Ipset.thy ===== *)
theory Ipset
  imports Complex_Main Wire
begin

text \<open>
  Managing kernel address sets: \<^verbatim>\<open>plugin/ipset/server.go\<close>, \<^verbatim>\<open>client.go\<close>, \<^verbatim>\<open>ipset.go\<close>. The library that
  talks to the kernel is the record \<open>ipsetLib\<close>; a set is a value of type \<open>'s\<close> that adding and
  deleting an address replaces, together with the error. \<open>l_float\<close> is the rounding of floating point
  numbers on the machine.
\<close>

section \<open>Data\<close>

record IPSetConfig =
  is_Type :: string
  is_BroadcastGroup :: string
  is_Name :: string
  is_Timeout :: duration

definition IPSET_ADD :: string where "IPSET_ADD = ''add''"
definition IPSET_DEL :: string where "IPSET_DEL = ''del''"

record IPsetCmd =
  ik_Cmd :: string
  ik_Addr :: string
  ik_IPSet :: string

record 's ipsetLib =
  l_NewIP :: "string \<Rightarrow> string \<Rightarrow> string list \<Rightarrow> string + 's"
  l_NewNet :: "string \<Rightarrow> string \<Rightarrow> string list \<Rightarrow> string + 's"
  l_Add :: "'s \<Rightarrow> string \<Rightarrow> 's \<times> string option"
  l_Delete :: "'s \<Rightarrow> string \<Rightarrow> 's \<times> string option"
  l_float :: "rat \<Rightarrow> rat"

section \<open>Construction\<close>

text \<open>
  The seconds of a duration as a floating point number: the whole ones, and the fraction divided
  and added with rounding. The parameter is that number cut down to an integer.
\<close>

definition duration_Seconds :: "(rat \<Rightarrow> rat) \<Rightarrow> duration \<Rightarrow> rat" where
  "duration_Seconds fl d =
     (let sec = sgn d * (\<bar>d\<bar> div second); nsec = sgn d * (\<bar>d\<bar> mod second)
      in fl (fl (of_int sec) + fl (of_int nsec / 1000000000)))"

definition ipset_params :: "(rat \<Rightarrow> rat) \<Rightarrow> IPSetConfig \<Rightarrow> string list" where
  "ipset_params fl v =
     (let seconds = duration_Seconds fl (is_Timeout v)
      in if seconds > 1 then [''timeout'', itoa \<lfloor>seconds\<rfloor>] else [])"

definition ipset_make :: "'s ipsetLib \<Rightarrow> IPSetConfig \<Rightarrow> string + 's" where
  "ipset_make lib v =
     (if is_Type v = ''hash:ip'' \<or> is_Type v = ''bitmap:ip'' then l_NewIP lib (is_Name v) (is_Type v) (ipset_params (l_float lib) v)
      else if is_Type v = ''hash:net'' then l_NewNet lib (is_Name v) (is_Type v) (ipset_params (l_float lib) v)
      else Inl (''ipset type ['' @ is_Type v @ ''] not supported''))"

text \<open>
  The loop over the configured sets, in the map's unspecified order. A set that cannot be made is
  stored under the empty name, which is deleted afterwards, and its error is collected.
\<close>

fun ipset_build ::
  "'s ipsetLib \<Rightarrow> (string \<times> IPSetConfig) list \<Rightarrow> 's option gomap \<Rightarrow> string list \<Rightarrow> 's option gomap \<times> string list" where
  "ipset_build lib [] sets errs = (sets, errs)"
| "ipset_build lib ((k, v) # cfg) sets errs =
     (case ipset_make lib v of
        Inl er \<Rightarrow> ipset_build lib cfg (gm_put '''' None sets) (errs @ [er])
      | Inr s \<Rightarrow> ipset_build lib cfg (gm_put (is_Name v) (Some s) sets) errs)"

definition NewIPSets :: "'s ipsetLib \<Rightarrow> (string \<times> IPSetConfig) list \<Rightarrow> string list + 's option gomap" where
  "NewIPSets lib cfg =
     (let (sets, errs) = ipset_build lib cfg [] [] in
      if errs \<noteq> [] then Inl errs else Inr (gm_del '''' sets))"

section \<open>The listener\<close>

text \<open>
  One event: the new sets. A decoding error is logged, and what was decoded up to it is handled
  like any command; calling a set that was never made panics.
\<close>

definition ipset_event ::
  "'s ipsetLib \<Rightarrow> ('b \<Rightarrow> IPsetCmd \<times> string option) \<Rightarrow> 'b event \<Rightarrow> 's option gomap \<Rightarrow> 's option gomap outcome" where
  "ipset_event lib decode ev sets =
     (let cmd = fst (decode (ev_Body ev))
      in case gm_get sets (ik_IPSet cmd) of
           None \<Rightarrow> Ret sets
         | Some None \<Rightarrow> Panic
         | Some (Some s) \<Rightarrow>
             (let s' = (if ik_Cmd cmd = IPSET_DEL then fst (l_Delete lib s (ik_Addr cmd))
                        else fst (l_Add lib s (ik_Addr cmd)))
              in Ret (gm_put (ik_IPSet cmd) (Some s') sets)))"

fun ipset_EventListener ::
  "'s ipsetLib \<Rightarrow> ('b \<Rightarrow> IPsetCmd \<times> string option) \<Rightarrow> 'b event list \<Rightarrow> 's option gomap \<Rightarrow> 's option gomap outcome" where
  "ipset_EventListener lib decode [] sets = Ret sets"
| "ipset_EventListener lib decode (ev # evs) sets =
     outcome_bind (ipset_event lib decode ev sets) (ipset_EventListener lib decode evs)"

section \<open>The client\<close>

definition ipset_Cmd ::
  "'b zn \<Rightarrow> (IPsetCmd \<Rightarrow> string + 'b) \<Rightarrow> string + string \<Rightarrow> string \<Rightarrow> string \<Rightarrow> string \<Rightarrow> string
     \<Rightarrow> (string \<times> 'b event) list \<times> string option" where
  "ipset_Cmd n encode replyChan command grp setname addr =
     (case replyChan of
        Inl er \<Rightarrow> ([], Some (''error getting reply channel: '' @ er))
      | Inr replyPath \<Rightarrow>
          (let e0 = zn_NewEvent n;
               e1 = (case encode \<lparr>ik_Cmd = command, ik_Addr = addr, ik_IPSet = setname\<rparr> of
                       Inl er \<Rightarrow> e0 | Inr b \<Rightarrow> e0\<lparr>ev_Body := b\<rparr>);
               e2 = e1\<lparr>ev_ReplyTo := replyPath\<rparr>;
               topic = ''ipset/'' @ grp @ [SLASH] @ setname
           in case zn_SendEvent n topic e2 of
                Some er \<Rightarrow> ([], Some (''error sending ipset request: '' @ er))
              | None \<Rightarrow> ([(topic, e2)], None)))"

section \<open>Lemmas\<close>

definition sets_ready :: "'s option gomap \<Rightarrow> bool" where
  "sets_ready sets \<longleftrightarrow> (\<forall>name. gm_get sets name \<noteq> Some None)"

lemma ipset_build_errs: "length errs \<le> length (snd (ipset_build lib cfg sets errs))"
proof (induction lib cfg sets errs rule: ipset_build.induct)
  case (2 lib k v cfg sets errs)
  then show ?case by (fastforce split: sum.splits)
qed simp

lemma ipset_build_ok:
  "ipset_build lib cfg sets errs = (sets', errs) \<Longrightarrow> sets_ready sets \<Longrightarrow>
     sets_ready sets' \<and> fst ` set sets' = fst ` set sets \<union> (is_Name \<circ> snd) ` set cfg"
proof (induction lib cfg sets errs rule: ipset_build.induct)
  case (2 lib k v cfg sets errs)
  show ?case
  proof (cases "ipset_make lib v")
    case (Inl er)
    with "2.prems"(1) have "ipset_build lib cfg (gm_put '''' None sets) (errs @ [er]) = (sets', errs)" by simp
    with ipset_build_errs [of "errs @ [er]" lib cfg "gm_put '''' None sets"] show ?thesis by simp
  next
    case (Inr s)
    have "sets_ready (gm_put (is_Name v) (Some s) sets)" using "2.prems"(2) by (simp add: sets_ready_def)
    with "2.IH"(2) [OF Inr] "2.prems"(1) Inr show ?thesis by auto
  qed
qed simp

lemma ipset_event_ready:
  assumes "sets_ready sets"
  shows "\<exists>sets'. ipset_event lib decode ev sets = Ret sets' \<and> sets_ready sets' \<and> fst ` set sets' = fst ` set sets"
proof -
  let ?k = "ik_IPSet (fst (decode (ev_Body ev)))"
  consider "gm_get sets ?k = None" | s where "gm_get sets ?k = Some (Some s)"
    using assms by (metis not_None_eq sets_ready_def)
  then show ?thesis
  proof cases
    case 1
    with assms show ?thesis by (simp add: ipset_event_def Let_def)
  next
    case 2
    then have "?k \<in> fst ` set sets" by (force dest: gm_get_SomeD)
    with 2 assms show ?thesis by (auto simp: ipset_event_def Let_def sets_ready_def)
  qed
qed

lemma NewIPSets_ready:
  assumes "NewIPSets lib cfg = Inr sets"
  shows "sets_ready sets \<and> fst ` set sets = (is_Name \<circ> snd) ` set cfg - {''''}"
proof -
  obtain built errs where b: "ipset_build lib cfg [] [] = (built, errs)" by (rule prod.exhaust)
  with assms have e: "errs = []" and s: "sets = gm_del '''' built" by (auto simp: NewIPSets_def split: if_splits)
  from ipset_build_ok [of lib cfg "[]" "[]" built] b e have r: "sets_ready built"
    and k: "fst ` set built = (is_Name \<circ> snd) ` set cfg"
    by (simp_all add: sets_ready_def)
  have "sets_ready sets" using r by (simp add: s sets_ready_def)
  moreover have "fst ` set sets = (is_Name \<circ> snd) ` set cfg - {''''}"
    using gm_keys_del [of "''''" built] by (simp add: s k)
  ultimately show ?thesis ..
qed

section \<open>Properties\<close>

text \<open>
  C29: A manager that starts has a working set for every configured name except the empty one; from
  then on no sequence of commands, decodable or not, makes it crash, gain or lose a set.
\<close>

theorem ipset_manager_is_stable:
  assumes "NewIPSets lib cfg = Inr sets"
  shows "\<exists>sets'. ipset_EventListener lib decode evs sets = Ret sets'
    \<and> set (gm_keys sets') = (is_Name \<circ> snd) ` set cfg - {''''}"
proof -
  from NewIPSets_ready [OF assms] have "sets_ready sets" and "fst ` set sets = (is_Name \<circ> snd) ` set cfg - {''''}"
    by simp_all
  then show ?thesis
  proof (induction evs arbitrary: sets)
    case (Cons ev evs)
    from ipset_event_ready [OF Cons.prems(1)] obtain sets1 where
      "ipset_event lib decode ev sets = Ret sets1" "sets_ready sets1" "fst ` set sets1 = fst ` set sets"
      by blast
    with Cons show ?case by simp
  qed simp
qed

text \<open>
  The client's command reaches the set it names and no other: after handling it, that set is
  the library's result of adding (or deleting) the address, and every other set is as before.
\<close>

theorem ipset_command_hits_its_set:
  assumes "ipset_Cmd n encode (Inr path) command grp setname addr = ([(topic, ev)], None)"
    and "\<And>c. \<exists>b. encode c = Inr b \<and> decode b = (c, None)"
    and "gm_get sets setname = Some (Some s)"
  shows "\<exists>sets'. ipset_event lib decode ev sets = Ret sets'
    \<and> gm_get sets' setname = Some (Some (if command = IPSET_DEL then fst (l_Delete lib s addr) else fst (l_Add lib s addr)))
    \<and> (\<forall>other. other \<noteq> setname \<longrightarrow> gm_get sets' other = gm_get sets other)"
proof -
  define c where "c = \<lparr>ik_Cmd = command, ik_Addr = addr, ik_IPSet = setname\<rparr>"
  obtain b where b: "encode c = Inr b" "decode b = (c, None)" using assms(2) by blast
  have "ev_Body ev = b"
    using assms(1) b by (auto simp: ipset_Cmd_def Let_def simp flip: c_def split: option.splits)
  with b have "decode (ev_Body ev) = (c, None)" by simp
  then show ?thesis using assms(3) by (simp add: ipset_event_def c_def Let_def)
qed

section \<open>The properties at concrete inputs\<close>

definition plainLib :: "string list ipsetLib" where
  "plainLib = \<lparr>l_NewIP = (\<lambda>n t ps. Inr []), l_NewNet = (\<lambda>n t ps. Inr []),
     l_Add = (\<lambda>s a. (a # s, None)), l_Delete = (\<lambda>s a. (removeAll a s, None)), l_float = (\<lambda>x. x)\<rparr>"

definition plainSets :: "(string \<times> IPSetConfig) list" where
  "plainSets = [(''k'', \<lparr>is_Type = ''hash:ip'', is_BroadcastGroup = ''g'', is_Name = ''ban'', is_Timeout = minute\<rparr>)]"

definition plainIpsetEvent :: "IPsetCmd event" where
  "plainIpsetEvent = \<lparr>ev_NodeName = ''c'', ev_RoutingKey = ''ipset/g/ban'', ev_ReplyTo = ''r'', ev_Headers = [],
     ev_Body = \<lparr>ik_Cmd = IPSET_ADD, ik_Addr = ''10.0.0.1'', ik_IPSet = ''ban''\<rparr>\<rparr>"

definition plainIpsetNode :: "IPsetCmd zn" where
  "plainIpsetNode = \<lparr>zn_Name = ''c'', zn_UUID = ''u'', zn_NewEvent = plainIpsetEvent,
     zn_PrepareReply = (\<lambda>ev. ev), zn_SendEvent = (\<lambda>t ev. None)\<rparr>"

theorem ipset_manager_is_stable_witness:
  "\<exists>sets'. ipset_EventListener plainLib (\<lambda>b. (b, None)) [plainIpsetEvent] [(''ban'', Some [])] = Ret sets'
     \<and> set (gm_keys sets') = {''ban''}"
proof -
  have "NewIPSets plainLib plainSets = Inr [(''ban'', Some [])]"
    by (simp add: NewIPSets_def plainSets_def plainLib_def ipset_make_def)
  from ipset_manager_is_stable [OF this, of "\<lambda>b. (b, None)" "[plainIpsetEvent]"] show ?thesis
    by (simp add: plainSets_def)
qed

theorem ipset_command_hits_its_set_witness:
  "\<exists>ev sets'. ipset_Cmd plainIpsetNode Inr (Inr ''r'') IPSET_ADD ''g'' ''ban'' ''10.0.0.1''
      = ([(''ipset/g/ban'', ev)], None)
    \<and> ipset_event plainLib (\<lambda>b. (b, None)) ev [(''ban'', Some [])] = Ret sets'
    \<and> gm_get sets' ''ban'' = Some (Some [''10.0.0.1''])"
proof -
  obtain ev where h: "ipset_Cmd plainIpsetNode Inr (Inr ''r'') IPSET_ADD ''g'' ''ban'' ''10.0.0.1''
      = ([(''ipset/g/ban'', ev)], None)"
    by (simp add: ipset_Cmd_def plainIpsetNode_def Let_def)
  from ipset_command_hits_its_set [OF h, where decode = "\<lambda>b. (b, None)" and lib = plainLib and sets = "[(''ban'', Some [])]"
      and s = "[]"] h
  show ?thesis by (simp add: plainLib_def IPSET_ADD_def IPSET_DEL_def) blast
qed

end
