(* ===== verification/Client_Query.thy ===== *)
theory Client_Query
  imports Rpc_Session "HOL-Library.Multiset"
begin

text \<open>
  The client's requests over a session, \<^verbatim>\<open>client/query.go\<close> and \<^verbatim>\<open>client/puppet.go\<close>. A call is
  given the replies that reach it before its deadline, in the order they arrive; what it returns
  is a fold over them. The locale \<open>node_tally\<close> is the contract of the calls that sort the fleet
  by answer: every node counts once, by its first answer.
\<close>

section \<open>A call\<close>

text \<open>The events sent, the callback's last state and the transport error.\<close>

definition Session_Call ::
  "'b codec \<Rightarrow> 'b zn \<Rightarrow> 'b session \<Rightarrow> string \<Rightarrow> Request \<Rightarrow> ('s \<Rightarrow> 'b Reply \<Rightarrow> 's \<times> bool) \<Rightarrow> 's
     \<Rightarrow> 'b Reply list \<Rightarrow> (string \<times> 'b event) list \<times> 's \<times> string option" where
  "Session_Call cd n s cid req onReply st arrived =
     (case Call_begin cid s of
        Inl er \<Rightarrow> ([], st, Some er)
      | Inr (c, s') \<Rightarrow>
        (case Call_event cd n s' cid req of
           Inl er \<Rightarrow> ([], st, Some er)
         | Inr ev \<Rightarrow>
           (case Call_send n req ev of
              Some er \<Rightarrow> ([], st, Some er)
            | None \<Rightarrow> ([(rq_Topic req, ev)], Call_loop onReply st arrived, None))))"

definition onEvery :: "('s \<Rightarrow> 'b Reply \<Rightarrow> 's) \<Rightarrow> 's \<Rightarrow> 'b Reply \<Rightarrow> 's \<times> bool" where
  "onEvery f st r = (f st r, True)"

section \<open>Filter match\<close>

record FilterOutcome =
  fo_Matched :: "string list"
  fo_NoMatch :: "string list"
  fo_Errors :: "string gomap"

definition Answered :: "FilterOutcome \<Rightarrow> nat" where
  "Answered out = length (fo_Matched out) + length (fo_NoMatch out) + length (fo_Errors out)"

text \<open>The closure's variables: the outcome, the nodes seen, the callbacks made.\<close>

definition filterReply ::
  "FilterOutcome \<times> string set \<times> string list \<Rightarrow> 'b Reply \<Rightarrow> FilterOutcome \<times> string set \<times> string list" where
  "filterReply st reply =
     (case st of (out, seen, called) \<Rightarrow>
        if rp_FQDN reply = [] \<or> rp_FQDN reply \<in> seen then st
        else
          (case rp_NodeErr reply of
             Some er \<Rightarrow> (out\<lparr>fo_Errors := gm_put (rp_FQDN reply) er (fo_Errors out)\<rparr>,
                         insert (rp_FQDN reply) seen, called)
           | None \<Rightarrow>
               if rp_NoMatch reply then
                 (out\<lparr>fo_NoMatch := fo_NoMatch out @ [rp_FQDN reply]\<rparr>, insert (rp_FQDN reply) seen, called)
               else
                 (out\<lparr>fo_Matched := fo_Matched out @ [rp_FQDN reply]\<rparr>, insert (rp_FQDN reply) seen,
                  called @ [rp_FQDN reply])))"

definition emptyFilterOutcome :: FilterOutcome where
  "emptyFilterOutcome = \<lparr>fo_Matched = [], fo_NoMatch = [], fo_Errors = []\<rparr>"

definition statusRequest :: "string \<Rightarrow> Request" where
  "statusRequest expr = \<lparr>rq_Topic = ''puppet'', rq_Command = cmd_Status, rq_Filter = expr,
     rq_Params = NoParams, rq_AnswerAlways = True\<rparr>"

definition FilterMatch ::
  "'b codec \<Rightarrow> 'b zn \<Rightarrow> 'b session \<Rightarrow> string \<Rightarrow> string \<Rightarrow> 'b Reply list
     \<Rightarrow> (string \<times> 'b event) list \<times> FilterOutcome \<times> string list \<times> string option" where
  "FilterMatch cd n s cid expr arrived =
     (case Session_Call cd n s cid (statusRequest expr) (onEvery filterReply)
         (emptyFilterOutcome, {}, []) arrived of
        (sent, (out, seen, called), err) \<Rightarrow> (sent, out, called, err))"

definition PuppetFilterMatch ::
  "'b codec \<Rightarrow> 'b zn \<Rightarrow> string + string \<Rightarrow> string \<Rightarrow> string \<Rightarrow> 'b Reply list
     \<Rightarrow> (string \<times> 'b event) list \<times> FilterOutcome \<times> string list \<times> string option" where
  "PuppetFilterMatch cd n replyChan cid expr arrived =
     (case NewSession replyChan of
        Inl er \<Rightarrow> ([], emptyFilterOutcome, [], Some er)
      | Inr s \<Rightarrow> FilterMatch cd n s cid expr arrived)"

section \<open>Status and fact streams\<close>

record Coverage =
  cv_Matched :: nat
  cv_NoMatch :: nat
  cv_Errors :: nat

definition noCoverage :: Coverage where
  "noCoverage = \<lparr>cv_Matched = 0, cv_NoMatch = 0, cv_Errors = 0\<rparr>"

definition Coverage_Answered :: "Coverage \<Rightarrow> nat" where
  "Coverage_Answered c = cv_Matched c + cv_NoMatch c + cv_Errors c"

definition Coverage_String :: "Coverage \<Rightarrow> string" where
  "Coverage_String c =
     itoa (int (cv_Matched c)) @ '' matched, '' @ itoa (int (Coverage_Answered c)) @ '' answered''"

text \<open>What both streams do with a reply: \<open>decode\<close> gives the value a matching node sent.\<close>

definition streamReply ::
  "('b \<Rightarrow> string + 'v) \<Rightarrow> 'v gomap \<times> Coverage \<Rightarrow> 'b Reply \<Rightarrow> 'v gomap \<times> Coverage" where
  "streamReply decode st reply =
     (case st of (m, cov) \<Rightarrow>
        if rp_NoMatch reply then (m, cov\<lparr>cv_NoMatch := cv_NoMatch cov + 1\<rparr>)
        else if rp_NodeErr reply \<noteq> None then (m, cov\<lparr>cv_Errors := cv_Errors cov + 1\<rparr>)
        else (case decode (rp_Body reply) of
                Inl er \<Rightarrow> (m, cov)
              | Inr v \<Rightarrow> (gm_put (rp_FQDN reply) v m, cov\<lparr>cv_Matched := cv_Matched cov + 1\<rparr>)))"

definition PuppetStatusStream ::
  "'b codec \<Rightarrow> 'b zn \<Rightarrow> 'b session \<Rightarrow> string \<Rightarrow> string \<Rightarrow> 'b Reply list
     \<Rightarrow> (string \<times> 'b event) list \<times> (LastRunSummary gomap \<times> Coverage) \<times> string option" where
  "PuppetStatusStream cd n s cid flt arrived =
     Session_Call cd n s cid (statusRequest flt) (onEvery (streamReply (c_decodeSummary cd)))
       ([], noCoverage) arrived"

definition factOf :: "'b codec \<Rightarrow> string \<Rightarrow> 'b \<Rightarrow> string + gv" where
  "factOf cd factName b =
     (case c_decodeFact cd b of
        Inl er \<Rightarrow> Inl er
      | Inr m \<Rightarrow> Inr (case gm_get m factName of Some v \<Rightarrow> v | None \<Rightarrow> GNull))"

definition PuppetFactStream ::
  "'b codec \<Rightarrow> 'b zn \<Rightarrow> 'b session \<Rightarrow> string \<Rightarrow> string \<Rightarrow> string \<Rightarrow> 'b Reply list
     \<Rightarrow> (string \<times> 'b event) list \<times> (gv gomap \<times> Coverage) \<times> string option" where
  "PuppetFactStream cd n s cid factName flt arrived =
     Session_Call cd n s cid
       \<lparr>rq_Topic = ''puppet'', rq_Command = cmd_Fact, rq_Filter = flt,
        rq_Params = FactParams factName, rq_AnswerAlways = True\<rparr>
       (onEvery (streamReply (factOf cd factName))) ([], noCoverage) arrived"

definition oneFilter :: "string list \<Rightarrow> string outcome" where
  "oneFilter flt =
     (if length flt > 1 then Panic else if length flt = 1 then Ret (flt ! 0) else Ret '''')"

definition PuppetStatus ::
  "'b codec \<Rightarrow> 'b zn \<Rightarrow> string + string \<Rightarrow> string \<Rightarrow> string list \<Rightarrow> 'b Reply list
     \<Rightarrow> LastRunSummary gomap outcome" where
  "PuppetStatus cd n replyChan cid flt arrived =
     (case NewSession replyChan of
        Inl er \<Rightarrow> Ret []
      | Inr s \<Rightarrow>
          outcome_bind (oneFilter flt) (\<lambda>f.
            Ret (fst (fst (snd (PuppetStatusStream cd n s cid f arrived))))))"

definition client_PuppetFact ::
  "'b codec \<Rightarrow> 'b zn \<Rightarrow> string + string \<Rightarrow> string \<Rightarrow> string \<Rightarrow> string list \<Rightarrow> 'b Reply list
     \<Rightarrow> gv gomap outcome" where
  "client_PuppetFact cd n replyChan cid factName flt arrived =
     (case NewSession replyChan of
        Inl er \<Rightarrow> Ret []
      | Inr s \<Rightarrow>
          outcome_bind (oneFilter flt) (\<lambda>f.
            Ret (fst (fst (snd (PuppetFactStream cd n s cid factName f arrived))))))"

text \<open>
  Triggering a run. An event that cannot be marshalled is sent anyway with the body it had; the
  result is the events sent.
\<close>

definition client_PuppetRun ::
  "'b codec \<Rightarrow> 'b zn \<Rightarrow> string + string \<Rightarrow> string \<Rightarrow> string \<Rightarrow> duration \<Rightarrow> bool \<Rightarrow> (string \<times> 'b event) list" where
  "client_PuppetRun cd n replyChan node flt delay noop =
     (case replyChan of
        Inl er \<Rightarrow> []
      | Inr replyPath \<Rightarrow>
          (let q0 = zn_NewEvent n;
               q1 = (case c_encodeCmd cd \<lparr>ps_Command = cmd_Run, ps_Filter = flt, ps_AnswerAlways = False,
                       ps_Parameters = RunParams \<lparr>ro_Delay = delay, ro_RandomizeDelay = True, ro_Noop = noop\<rparr>\<rparr> of
                       Inl er \<Rightarrow> q0 | Inr b \<Rightarrow> q0\<lparr>ev_Body := b\<rparr>);
               q2 = q1\<lparr>ev_ReplyTo := replyPath\<rparr>;
               topic = (if node = ''all'' then ''puppet'' else ''puppet/'' @ node)
           in case zn_SendEvent n topic q2 of None \<Rightarrow> [(topic, q2)] | Some er \<Rightarrow> []))"

section \<open>The query command\<close>

record QueryOutcome =
  qo_Expr :: string
  qo_Matched :: "string list"
  qo_NotMatched :: "string list"
  qo_Errors :: "string gomap"
  qo_Values :: "string gomap"

datatype client_err = Undecodable string | NoFactDump string | NoClassList string

fun client_errText :: "client_err \<Rightarrow> string" where
  "client_errText (Undecodable er) = ''undecodable reply: '' @ er"
| "client_errText (NoFactDump fqdn) =
     ''no fact dump from '' @ fqdn @ '': it may be running a daemon without fact dump support''"
| "client_errText (NoClassList fqdn) =
     ''no class list from '' @ fqdn @ '': it may be running a daemon without class dump support''"

lemma client_errText_not_Nil [simp]: "client_errText e \<noteq> []"
  by (cases e) simp_all

declare client_errText.simps [simp del]

definition decodeQueryReply :: "'b codec \<Rightarrow> 'b Reply \<Rightarrow> QueryReply" where
  "decodeQueryReply cd reply =
     (let qr = (case rp_NodeErr reply of
           Some er \<Rightarrow> zeroQueryReply\<lparr>qr_FQDN := rp_FQDN reply, qr_Error := er\<rparr>
         | None \<Rightarrow>
             (case c_decodeQuery cd (rp_Body reply) of
                Inl er \<Rightarrow> zeroQueryReply\<lparr>qr_FQDN := rp_FQDN reply, qr_Error := client_errText (Undecodable er)\<rparr>
              | Inr qr \<Rightarrow> qr))
      in if qr_FQDN qr = [] then qr\<lparr>qr_FQDN := rp_FQDN reply\<rparr> else qr)"

definition queryReply ::
  "'b codec \<Rightarrow> QueryOutcome \<times> string set \<times> QueryReply list \<Rightarrow> 'b Reply
     \<Rightarrow> QueryOutcome \<times> string set \<times> QueryReply list" where
  "queryReply cd st reply =
     (case st of (out, seen, called) \<Rightarrow>
       (let qr = decodeQueryReply cd reply; f = qr_FQDN qr
        in if f = [] \<or> f \<in> seen then st
           else
             (let out1 = (if qr_Error qr \<noteq> [] then out\<lparr>qo_Errors := gm_put f (qr_Error qr) (qo_Errors out)\<rparr>
                          else if qr_Matched qr then out\<lparr>qo_Matched := qo_Matched out @ [f]\<rparr>
                          else out\<lparr>qo_NotMatched := qo_NotMatched out @ [f]\<rparr>);
                  out2 = (if qr_Value qr \<noteq> [] then out1\<lparr>qo_Values := gm_put f (qr_Value qr) (qo_Values out1)\<rparr>
                          else out1)
              in (out2, insert f seen, called @ [qr]))))"

definition emptyQueryOutcome :: "string \<Rightarrow> QueryOutcome" where
  "emptyQueryOutcome expr = \<lparr>qo_Expr = expr, qo_Matched = [], qo_NotMatched = [], qo_Errors = [], qo_Values = []\<rparr>"

definition Session_Query ::
  "'b codec \<Rightarrow> 'b zn \<Rightarrow> 'b session \<Rightarrow> string \<Rightarrow> string \<Rightarrow> 'b Reply list
     \<Rightarrow> (string \<times> 'b event) list \<times> QueryOutcome \<times> QueryReply list \<times> string option" where
  "Session_Query cd n s cid expr arrived =
     (case Session_Call cd n s cid
         \<lparr>rq_Topic = ''puppet'', rq_Command = cmd_Query, rq_Filter = expr, rq_Params = NoParams,
          rq_AnswerAlways = False\<rparr>
         (onEvery (queryReply cd)) (emptyQueryOutcome expr, {}, []) arrived of
        (sent, (out, seen, called), err) \<Rightarrow> (sent, out, called, err))"

section \<open>Dumps\<close>

definition takeDecoded :: "('b \<Rightarrow> string + 'v) \<Rightarrow> 'v option \<Rightarrow> 'b Reply \<Rightarrow> 'v option \<times> bool" where
  "takeDecoded decode out reply =
     (if rp_NodeErr reply \<noteq> None then (out, True)
      else case decode (rp_Body reply) of Inl er \<Rightarrow> (out, True) | Inr v \<Rightarrow> (Some v, False))"

definition NodeFacts ::
  "'b codec \<Rightarrow> 'b zn \<Rightarrow> 'b session \<Rightarrow> string \<Rightarrow> string \<Rightarrow> string list \<Rightarrow> 'b Reply list
     \<Rightarrow> string + FactsReply" where
  "NodeFacts cd n s cid fqdn keys arrived =
     (case Session_Call cd n s cid
         \<lparr>rq_Topic = ''puppet/'' @ fqdn, rq_Command = cmd_FactList, rq_Filter = '''',
          rq_Params = FactListParams keys, rq_AnswerAlways = False\<rparr>
         (takeDecoded (c_decodeFacts cd)) None arrived of
        (sent, out, Some er) \<Rightarrow> Inl er
      | (sent, None, None) \<Rightarrow> Inl (client_errText (NoFactDump fqdn))
      | (sent, Some v, None) \<Rightarrow> Inr v)"

definition NodeClasses ::
  "'b codec \<Rightarrow> 'b zn \<Rightarrow> 'b session \<Rightarrow> string \<Rightarrow> string \<Rightarrow> 'b Reply list \<Rightarrow> string + ClassesReply" where
  "NodeClasses cd n s cid fqdn arrived =
     (case Session_Call cd n s cid
         \<lparr>rq_Topic = ''puppet/'' @ fqdn, rq_Command = cmd_ClassList, rq_Filter = '''',
          rq_Params = NoParams, rq_AnswerAlways = False\<rparr>
         (takeDecoded (c_decodeClasses cd)) None arrived of
        (sent, out, Some er) \<Rightarrow> Inl er
      | (sent, None, None) \<Rightarrow> Inl (client_errText (NoClassList fqdn))
      | (sent, Some v, None) \<Rightarrow> Inr v)"

text \<open>Both calls run at once; each gets its own identifier and its own replies.\<close>

definition NodeSnapshot ::
  "'b codec \<Rightarrow> 'b zn \<Rightarrow> 'b session \<Rightarrow> string \<Rightarrow> string \<Rightarrow> string \<Rightarrow> 'b Reply list \<Rightarrow> 'b Reply list
     \<Rightarrow> string + Snapshot" where
  "NodeSnapshot cd n s factCid classCid fqdn factsArrived classesArrived =
     (case NodeFacts cd n s factCid fqdn [] factsArrived of
        Inl er \<Rightarrow> Inl er
      | Inr facts \<Rightarrow>
          Inr (SnapshotFromReplies (Some facts)
            (case NodeClasses cd n s classCid fqdn classesArrived of
               Inl er \<Rightarrow> None | Inr classes \<Rightarrow> Some classes)))"

section \<open>Tallying nodes\<close>

text \<open>What a node's first answer says of it.\<close>

datatype verdict = VMatched | VNoMatch | VError string

definition first_answers ::
  "('b Reply \<Rightarrow> string) \<Rightarrow> ('b Reply \<Rightarrow> verdict) \<Rightarrow> 'b Reply list \<Rightarrow> string \<Rightarrow> verdict option" where
  "first_answers who verdict_of rs =
     map_of (map (\<lambda>r. (who r, verdict_of r)) (filter (\<lambda>r. who r \<noteq> []) rs))"

text \<open>
  The contract: a reply without a name or from a node already counted changes nothing, any other
  adds one node with the reply's verdict.
\<close>

locale node_tally =
  fixes step :: "'s \<Rightarrow> 'b Reply \<Rightarrow> 's"
    and who :: "'b Reply \<Rightarrow> string"
    and verdict_of :: "'b Reply \<Rightarrow> verdict"
    and nodes :: "'s \<Rightarrow> string list"
    and tag :: "'s \<Rightarrow> string \<Rightarrow> verdict option"
    and wf :: "'s \<Rightarrow> bool"
  assumes skip: "wf st \<Longrightarrow> who r = [] \<or> who r \<in> set (nodes st) \<Longrightarrow> step st r = st"
    and count_wf: "wf st \<Longrightarrow> who r \<noteq> [] \<Longrightarrow> who r \<notin> set (nodes st) \<Longrightarrow> wf (step st r)"
    and count_nodes: "wf st \<Longrightarrow> who r \<noteq> [] \<Longrightarrow> who r \<notin> set (nodes st) \<Longrightarrow>
      mset (nodes (step st r)) = add_mset (who r) (mset (nodes st))"
    and count_tag: "wf st \<Longrightarrow> who r \<noteq> [] \<Longrightarrow> who r \<notin> set (nodes st) \<Longrightarrow>
      tag (step st r) = (tag st)(who r \<mapsto> verdict_of r)"
    and tag_nodes: "wf st \<Longrightarrow> dom (tag st) = set (nodes st)"
begin

lemma step_wf: "wf st \<Longrightarrow> wf (step st r)"
  using skip [of st r] count_wf [of st r] by (cases "who r = [] \<or> who r \<in> set (nodes st)") auto

lemma step_distinct: "wf st \<Longrightarrow> distinct (nodes st) \<Longrightarrow> distinct (nodes (step st r))"
proof (cases "who r = [] \<or> who r \<in> set (nodes st)")
  case False
  assume a: "wf st" "distinct (nodes st)"
  with False count_nodes [of st r] have "mset (nodes (step st r)) = mset (who r # nodes st)" by simp
  moreover have "distinct (who r # nodes st)" using a False by simp
  ultimately show ?thesis by (metis mset_eq_imp_distinct_iff)
qed (use skip in auto)

lemma step_set:
  "wf st \<Longrightarrow> set (nodes (step st r)) = set (nodes st) \<union> ({who r} - {[]})"
proof (cases "who r = [] \<or> who r \<in> set (nodes st)")
  case False
  assume "wf st"
  with False count_nodes [of st r] have "mset (nodes (step st r)) = mset (who r # nodes st)" by simp
  then have "set (nodes (step st r)) = set (who r # nodes st)" by (metis set_mset_mset)
  with False show ?thesis by auto
qed (use skip in auto)

lemma fold_wf: "wf st \<Longrightarrow> wf (foldl step st rs)"
  by (induction rs arbitrary: st) (auto intro: step_wf)

lemma fold_distinct: "wf st \<Longrightarrow> distinct (nodes st) \<Longrightarrow> distinct (nodes (foldl step st rs))"
  by (induction rs arbitrary: st) (auto intro: step_wf step_distinct)

lemma fold_set: "wf st \<Longrightarrow> set (nodes (foldl step st rs)) = set (nodes st) \<union> (who ` set rs - {[]})"
  by (induction rs arbitrary: st) (auto simp: step_set step_wf)

lemma fold_tag:
  "wf st \<Longrightarrow> tag (foldl step st rs) f = (case tag st f of Some v \<Rightarrow> Some v | None \<Rightarrow> first_answers who verdict_of rs f)"
proof (induction rs arbitrary: st)
  case Nil
  then show ?case by (simp add: first_answers_def split: option.splits)
next
  case (Cons r rs)
  show ?case
  proof (cases "who r = [] \<or> who r \<in> set (nodes st)")
    case True
    with Cons have "tag (foldl step st (r # rs)) f
        = (case tag st f of Some v \<Rightarrow> Some v | None \<Rightarrow> first_answers who verdict_of rs f)"
      by (simp add: skip)
    moreover have "tag st f = None \<Longrightarrow> first_answers who verdict_of (r # rs) f = first_answers who verdict_of rs f"
      using True tag_nodes [OF Cons.prems] by (auto simp: first_answers_def)
    ultimately show ?thesis by (simp split: option.splits)
  next
    case False
    then have new: "who r \<notin> dom (tag st)" using tag_nodes [OF Cons.prems] by simp
    show ?thesis
      using Cons.IH [OF step_wf [OF Cons.prems], of r] count_tag [OF Cons.prems, of r] False new
      by (auto simp: first_answers_def split: option.splits)
  qed
qed

lemma tally_complete:
  assumes "wf st" and "nodes st = []"
  shows "distinct (nodes (foldl step st rs))" "set (nodes (foldl step st rs)) = who ` set rs - {[]}"
    "tag (foldl step st rs) f = first_answers who verdict_of rs f"
proof -
  show "distinct (nodes (foldl step st rs))" using assms by (intro fold_distinct) simp_all
  show "set (nodes (foldl step st rs)) = who ` set rs - {[]}" using assms by (simp add: fold_set)
  have "tag st f = None" using tag_nodes [OF assms(1)] assms(2) by auto
  then show "tag (foldl step st rs) f = first_answers who verdict_of rs f" using assms(1) by (simp add: fold_tag)
qed

lemma length_nodes:
  assumes "wf st" and "nodes st = []"
  shows "length (nodes (foldl step st rs)) = card (who ` set rs - {[]})"
  using tally_complete(1,2) [OF assms, of rs] by (metis distinct_card)

end

section \<open>Filter match and query tally nodes\<close>

definition filter_verdict :: "'b Reply \<Rightarrow> verdict" where
  "filter_verdict r =
     (case rp_NodeErr r of Some er \<Rightarrow> VError er | None \<Rightarrow> if rp_NoMatch r then VNoMatch else VMatched)"

definition filter_nodes :: "FilterOutcome \<Rightarrow> string list" where
  "filter_nodes out = fo_Matched out @ fo_NoMatch out @ gm_keys (fo_Errors out)"

definition filter_tag :: "FilterOutcome \<Rightarrow> string \<Rightarrow> verdict option" where
  "filter_tag out f =
     (if f \<in> set (fo_Matched out) then Some VMatched
      else if f \<in> set (fo_NoMatch out) then Some VNoMatch
      else map_option VError (gm_get (fo_Errors out) f))"

lemma filter_tag_None: "filter_tag out f = None \<longleftrightarrow> f \<notin> set (filter_nodes out)"
  by (simp add: filter_tag_def filter_nodes_def gm_get_None)

definition filter_wf :: "FilterOutcome \<times> string set \<times> string list \<Rightarrow> bool" where
  "filter_wf st = (case st of (out, seen, called) \<Rightarrow> seen = set (filter_nodes out) \<and> called = fo_Matched out)"

lemma filterReply_skip:
  "filter_wf st \<Longrightarrow> rp_FQDN r = [] \<or> rp_FQDN r \<in> set (filter_nodes (fst st)) \<Longrightarrow> filterReply st r = st"
  by (cases st) (auto simp: filter_wf_def filterReply_def)

text \<open>The three ways a new node is counted.\<close>

lemma filterReply_count:
  assumes "filter_wf (out, seen, called)" and "rp_FQDN r \<noteq> []" and "rp_FQDN r \<notin> set (filter_nodes out)"
  shows "filterReply (out, seen, called) r =
    (case filter_verdict r of
       VError er \<Rightarrow> (out\<lparr>fo_Errors := fo_Errors out @ [(rp_FQDN r, er)]\<rparr>, insert (rp_FQDN r) seen, called)
     | VNoMatch \<Rightarrow> (out\<lparr>fo_NoMatch := fo_NoMatch out @ [rp_FQDN r]\<rparr>, insert (rp_FQDN r) seen, called)
     | VMatched \<Rightarrow> (out\<lparr>fo_Matched := fo_Matched out @ [rp_FQDN r]\<rparr>, insert (rp_FQDN r) seen,
                    called @ [rp_FQDN r]))"
proof -
  have "rp_FQDN r \<notin> seen" using assms(1,3) by (simp add: filter_wf_def)
  moreover have "gm_put (rp_FQDN r) er (fo_Errors out) = fo_Errors out @ [(rp_FQDN r, er)]" for er
    by (rule gm_put_new) (use assms(3) in \<open>simp add: filter_nodes_def\<close>)
  ultimately show ?thesis
    using assms(2) by (simp add: filterReply_def filter_verdict_def split: option.splits)
qed

interpretation fm: node_tally filterReply rp_FQDN filter_verdict "\<lambda>st. filter_nodes (fst st)"
  "\<lambda>st. filter_tag (fst st)" filter_wf
proof
  fix st :: "FilterOutcome \<times> string set \<times> string list" and r :: "'b Reply"
  obtain out seen called where st: "st = (out, seen, called)" by (cases st)
  assume w: "filter_wf st"
  then show "dom (filter_tag (fst st)) = set (filter_nodes (fst st))"
    by (simp add: set_eq_iff domIff filter_tag_None)
  {
    assume "rp_FQDN r = [] \<or> rp_FQDN r \<in> set (filter_nodes (fst st))"
    with w show "filterReply st r = st" by (rule filterReply_skip)
  }
  assume n: "rp_FQDN r \<noteq> []" "rp_FQDN r \<notin> set (filter_nodes (fst st))"
  note c = filterReply_count [OF w [unfolded st] n [unfolded st fst_conv]]
  show "filter_wf (filterReply st r)"
    unfolding st c using w [unfolded st] by (simp add: filter_wf_def filter_nodes_def split: verdict.splits)
  show "mset (filter_nodes (fst (filterReply st r))) = add_mset (rp_FQDN r) (mset (filter_nodes (fst st)))"
    unfolding st c by (simp add: filter_nodes_def split: verdict.splits)
  show "filter_tag (fst (filterReply st r)) = (filter_tag (fst st))(rp_FQDN r \<mapsto> filter_verdict r)"
    unfolding st c using n [unfolded st]
    by (auto simp: filter_tag_def filter_nodes_def fun_eq_iff map_add_def
        split: verdict.splits option.splits)
qed

lemma Call_loop_onEvery [simp]: "Call_loop (onEvery f) st rs = foldl f st rs"
  by (induction rs arbitrary: st) (simp_all add: onEvery_def)

lemma Session_Call_ok:
  "Session_Call cd n s cid req onReply st arrived = (sent, st', None) \<Longrightarrow> st' = Call_loop onReply st arrived"
  by (auto simp: Session_Call_def split: sum.splits prod.splits option.splits)

lemma FilterMatch_ok:
  "FilterMatch cd n s cid expr arrived = (sent, out, called, None) \<Longrightarrow>
     \<exists>seen. foldl filterReply (emptyFilterOutcome, {}, []) arrived = (out, seen, called)"
  by (auto simp: FilterMatch_def split: prod.splits dest!: Session_Call_ok) metis

lemma empty_filter_wf [simp]:
  "filter_wf (emptyFilterOutcome, {}, [])" "filter_nodes emptyFilterOutcome = []"
  by (simp_all add: filter_wf_def filter_nodes_def emptyFilterOutcome_def)

lemma Answered_nodes: "Answered out = length (filter_nodes out)"
  by (simp add: Answered_def filter_nodes_def)

definition query_verdict :: "'b codec \<Rightarrow> 'b Reply \<Rightarrow> verdict" where
  "query_verdict cd r =
     (let qr = decodeQueryReply cd r
      in if qr_Error qr \<noteq> [] then VError (qr_Error qr) else if qr_Matched qr then VMatched else VNoMatch)"

definition query_who :: "'b codec \<Rightarrow> 'b Reply \<Rightarrow> string" where
  "query_who cd r = qr_FQDN (decodeQueryReply cd r)"

definition query_nodes :: "QueryOutcome \<Rightarrow> string list" where
  "query_nodes out = qo_Matched out @ qo_NotMatched out @ gm_keys (qo_Errors out)"

definition query_tag :: "QueryOutcome \<Rightarrow> string \<Rightarrow> verdict option" where
  "query_tag out f =
     (if f \<in> set (qo_Matched out) then Some VMatched
      else if f \<in> set (qo_NotMatched out) then Some VNoMatch
      else map_option VError (gm_get (qo_Errors out) f))"

lemma query_tag_None: "query_tag out f = None \<longleftrightarrow> f \<notin> set (query_nodes out)"
  by (simp add: query_tag_def query_nodes_def gm_get_None)

definition query_wf :: "QueryOutcome \<times> string set \<times> QueryReply list \<Rightarrow> bool" where
  "query_wf st = (case st of (out, seen, called) \<Rightarrow>
     seen = set (query_nodes out) \<and> map qr_FQDN called \<in> {ws. mset ws = mset (query_nodes out)})"

lemma queryReply_skip:
  "query_wf st \<Longrightarrow> query_who cd r = [] \<or> query_who cd r \<in> set (query_nodes (fst st)) \<Longrightarrow>
     queryReply cd st r = st"
  by (cases st) (auto simp: query_wf_def queryReply_def query_who_def Let_def)

lemma queryReply_count:
  assumes "query_wf (out, seen, called)" and "query_who cd r \<noteq> []" and "query_who cd r \<notin> set (query_nodes out)"
  shows "\<exists>vals. queryReply cd (out, seen, called) r =
    ((case query_verdict cd r of
        VError er \<Rightarrow> out\<lparr>qo_Errors := qo_Errors out @ [(query_who cd r, er)], qo_Values := vals\<rparr>
      | VNoMatch \<Rightarrow> out\<lparr>qo_NotMatched := qo_NotMatched out @ [query_who cd r], qo_Values := vals\<rparr>
      | VMatched \<Rightarrow> out\<lparr>qo_Matched := qo_Matched out @ [query_who cd r], qo_Values := vals\<rparr>),
     insert (query_who cd r) seen, called @ [decodeQueryReply cd r])"
proof -
  have "query_who cd r \<notin> seen" using assms(1,3) by (simp add: query_wf_def)
  moreover have "gm_put (query_who cd r) er (qo_Errors out) = qo_Errors out @ [(query_who cd r, er)]" for er
    by (rule gm_put_new) (use assms(3) in \<open>simp add: query_nodes_def\<close>)
  moreover have "\<exists>vals. (if b then x\<lparr>qo_Values := v\<rparr> else x) = x\<lparr>qo_Values := vals\<rparr>"
    for b and x :: QueryOutcome and v
    by (cases b) (auto intro: exI [of _ "qo_Values x"])
  ultimately show ?thesis
    using assms(2)
    by (cases "qr_Value (decodeQueryReply cd r) = []")
      (auto simp: queryReply_def query_verdict_def query_who_def Let_def
        intro: exI [of _ "qo_Values out"])
qed

interpretation qm: node_tally "queryReply cd" "query_who cd" "query_verdict cd"
  "\<lambda>st. query_nodes (fst st)" "\<lambda>st. query_tag (fst st)" query_wf for cd :: "'b codec"
proof
  fix st :: "QueryOutcome \<times> string set \<times> QueryReply list" and r :: "'b Reply"
  obtain out seen called where st: "st = (out, seen, called)" by (cases st)
  assume w: "query_wf st"
  then show "dom (query_tag (fst st)) = set (query_nodes (fst st))"
    by (simp add: set_eq_iff domIff query_tag_None)
  {
    assume "query_who cd r = [] \<or> query_who cd r \<in> set (query_nodes (fst st))"
    with w show "queryReply cd st r = st" by (rule queryReply_skip)
  }
  assume n: "query_who cd r \<noteq> []" "query_who cd r \<notin> set (query_nodes (fst st))"
  obtain vals where c: "queryReply cd (out, seen, called) r =
    ((case query_verdict cd r of
        VError er \<Rightarrow> out\<lparr>qo_Errors := qo_Errors out @ [(query_who cd r, er)], qo_Values := vals\<rparr>
      | VNoMatch \<Rightarrow> out\<lparr>qo_NotMatched := qo_NotMatched out @ [query_who cd r], qo_Values := vals\<rparr>
      | VMatched \<Rightarrow> out\<lparr>qo_Matched := qo_Matched out @ [query_who cd r], qo_Values := vals\<rparr>),
     insert (query_who cd r) seen, called @ [decodeQueryReply cd r])"
    using queryReply_count [OF w [unfolded st] n [unfolded st fst_conv]] unfolding st by blast
  show "query_wf (queryReply cd st r)"
    unfolding st c using w [unfolded st]
    by (simp add: query_wf_def query_nodes_def query_who_def split: verdict.splits)
  show "mset (query_nodes (fst (queryReply cd st r))) = add_mset (query_who cd r) (mset (query_nodes (fst st)))"
    unfolding st c by (simp add: query_nodes_def split: verdict.splits)
  show "query_tag (fst (queryReply cd st r)) = (query_tag (fst st))(query_who cd r \<mapsto> query_verdict cd r)"
    unfolding st c using n [unfolded st]
    by (auto simp: query_tag_def query_nodes_def fun_eq_iff map_add_def
        split: verdict.splits option.splits)
qed

lemma FilterMatch_tally:
  assumes "FilterMatch cd n s cid expr arrived = (sent, out, called, None)"
  shows "filter_tag out = first_answers rp_FQDN filter_verdict arrived" and "distinct (filter_nodes out)"
    and "set (filter_nodes out) = rp_FQDN ` set arrived - {[]}" and "called = fo_Matched out"
proof -
  let ?st = "(emptyFilterOutcome, {}, []) :: FilterOutcome \<times> string set \<times> string list"
  have e: "filter_wf ?st" "filter_nodes (fst ?st) = []" by simp_all
  obtain seen where fl: "foldl filterReply ?st arrived = (out, seen, called)"
    using FilterMatch_ok [OF assms] by blast
  note t = fm.tally_complete [where rs = arrived, OF e] fm.fold_wf [where rs = arrived, OF e(1)]
  show "filter_tag out = first_answers rp_FQDN filter_verdict arrived" "distinct (filter_nodes out)"
    "set (filter_nodes out) = rp_FQDN ` set arrived - {[]}" "called = fo_Matched out"
    using t by (simp_all add: fl fun_eq_iff filter_wf_def)
qed

lemma Session_Query_tally:
  assumes "Session_Query cd n s cid expr arrived = (sent, out, called, None)"
  shows "query_tag out = first_answers (query_who cd) (query_verdict cd) arrived" and "distinct (query_nodes out)"
    and "set (query_nodes out) = query_who cd ` set arrived - {[]}"
    and "mset (map qr_FQDN called) = mset (query_nodes out)"
proof -
  let ?st = "(emptyQueryOutcome expr, {}, []) :: QueryOutcome \<times> string set \<times> QueryReply list"
  have e: "query_wf ?st" "query_nodes (fst ?st) = []"
    by (simp_all add: query_wf_def query_nodes_def emptyQueryOutcome_def)
  obtain seen where fl: "foldl (queryReply cd) ?st arrived = (out, seen, called)"
    using assms by (auto simp: Session_Query_def split: prod.splits dest!: Session_Call_ok) metis
  note t = qm.tally_complete [where cd = cd and rs = arrived, OF e]
    qm.fold_wf [where cd = cd and rs = arrived, OF e(1)]
  show "query_tag out = first_answers (query_who cd) (query_verdict cd) arrived" "distinct (query_nodes out)"
    "set (query_nodes out) = query_who cd ` set arrived - {[]}"
    "mset (map qr_FQDN called) = mset (query_nodes out)"
    using t by (simp_all add: fl fun_eq_iff query_wf_def)
qed

section \<open>Properties\<close>

text \<open>
  C22: A filtered request sorts the fleet: every node that answered is counted once, under what
  its first answer said (matched, did not match, failed with this error), the callback has seen
  the matching nodes in order, and \<^verbatim>\<open>Answered\<close> is the number of nodes that answered.
\<close>

theorem filter_match_counts_each_node_once:
  assumes "FilterMatch cd n s cid expr arrived = (sent, out, called, None)"
  shows "filter_tag out f = first_answers rp_FQDN filter_verdict arrived f
    \<and> distinct (filter_nodes out) \<and> set (filter_nodes out) = rp_FQDN ` set arrived - {[]}
    \<and> Answered out = card (rp_FQDN ` set arrived - {[]}) \<and> called = fo_Matched out"
  using FilterMatch_tally [OF assms] by (auto simp: Answered_nodes simp flip: distinct_card)

text \<open>
  C39: The query command sorts the fleet the same way: matched, did not match and failed are
  disjoint, cover exactly the nodes that answered, and follow each node's first answer.
\<close>

theorem query_partitions_answering_nodes:
  assumes "Session_Query cd n s cid expr arrived = (sent, out, called, None)"
  shows "query_tag out f = first_answers (query_who cd) (query_verdict cd) arrived f
    \<and> distinct (qo_Matched out @ qo_NotMatched out @ gm_keys (qo_Errors out))
    \<and> set (qo_Matched out @ qo_NotMatched out @ gm_keys (qo_Errors out)) = query_who cd ` set arrived - {[]}
    \<and> length called = card (query_who cd ` set arrived - {[]})"
proof -
  note t = Session_Query_tally [OF assms]
  have "length called = length (query_nodes out)" using t(4) by (metis length_map mset_eq_length)
  then show ?thesis using t distinct_card [OF t(2)] unfolding query_nodes_def by simp
qed

definition stream_matched :: "('b \<Rightarrow> string + 'v) \<Rightarrow> 'b Reply \<Rightarrow> bool" where
  "stream_matched decode r \<longleftrightarrow> \<not> rp_NoMatch r \<and> rp_NodeErr r = None \<and> (\<exists>v. decode (rp_Body r) = Inr v)"

lemma streamReply_matched:
  assumes "stream_matched decode r"
  obtains v where "streamReply decode (m, cov) r = (gm_put (rp_FQDN r) v m, cov\<lparr>cv_Matched := Suc (cv_Matched cov)\<rparr>)"
  using assms by (auto simp: stream_matched_def streamReply_def)

lemma streamReply_other:
  assumes "\<not> stream_matched decode r"
  obtains cov1 where "streamReply decode (m, cov) r = (m, cov1)" "cv_Matched cov1 = cv_Matched cov"
    "Coverage_Answered cov1 \<le> Suc (Coverage_Answered cov)"
proof -
  from assms consider "rp_NoMatch r" | "\<not> rp_NoMatch r" "rp_NodeErr r \<noteq> None"
    | er where "\<not> rp_NoMatch r" "rp_NodeErr r = None" "decode (rp_Body r) = Inl er"
    by (cases "decode (rp_Body r)") (auto simp: stream_matched_def)
  then show thesis
    by cases (rule that, (simp add: streamReply_def; fail), simp_all add: Coverage_Answered_def)+
qed

lemma stream_fold:
  assumes "foldl (streamReply decode) (m, cov) rs = (m', cov')"
  shows "set (gm_keys m') = set (gm_keys m) \<union> set (map rp_FQDN (filter (stream_matched decode) rs))
    \<and> cv_Matched cov' = cv_Matched cov + length (filter (stream_matched decode) rs)
    \<and> Coverage_Answered cov' \<le> Coverage_Answered cov + length rs
    \<and> (gm_ok m \<longrightarrow> gm_ok m')"
  using assms
proof (induction rs arbitrary: m cov)
  case Nil
  then show ?case by simp
next
  case (Cons r rs)
  show ?case
  proof (cases "stream_matched decode r")
    case True
    from streamReply_matched [OF True, of m cov] obtain v where
      "streamReply decode (m, cov) r = (gm_put (rp_FQDN r) v m, cov\<lparr>cv_Matched := Suc (cv_Matched cov)\<rparr>)" .
    with Cons.prems have "foldl (streamReply decode)
        (gm_put (rp_FQDN r) v m, cov\<lparr>cv_Matched := Suc (cv_Matched cov)\<rparr>) rs = (m', cov')" by simp
    from Cons.IH [OF this] True show ?thesis
      by (auto simp: Coverage_Answered_def)
  next
    case False
    from streamReply_other [OF False, of m cov] obtain cov1 where
      "streamReply decode (m, cov) r = (m, cov1)" "cv_Matched cov1 = cv_Matched cov"
      "Coverage_Answered cov1 \<le> Suc (Coverage_Answered cov)" .
    with Cons.prems Cons.IH [of m cov1] False show ?thesis by simp
  qed
qed

text \<open>
  A status stream's result has exactly the nodes that sent a summary, and its coverage never
  claims more answers than arrived; the number matched is the number of nodes in the result
  exactly when no node's summary arrived twice.
\<close>

theorem status_stream_result:
  assumes "PuppetStatusStream cd n s cid q arrived = (sent, (m, cov), None)"
  shows "set (gm_keys m) = rp_FQDN ` {r \<in> set arrived. stream_matched (c_decodeSummary cd) r}
    \<and> Coverage_Answered cov \<le> length arrived
    \<and> (cv_Matched cov = length m \<longleftrightarrow>
         distinct (map rp_FQDN (filter (stream_matched (c_decodeSummary cd)) arrived)))"
proof -
  let ?good = "filter (stream_matched (c_decodeSummary cd)) arrived"
  from assms have "foldl (streamReply (c_decodeSummary cd)) ([], noCoverage) arrived = (m, cov)"
    by (auto simp: PuppetStatusStream_def dest!: Session_Call_ok)
  note f = stream_fold [OF this]
  have ok: "gm_ok m" using f by simp
  have k: "set (gm_keys m) = set (map rp_FQDN ?good)" using f by simp
  have len: "length m = card (set (map rp_FQDN ?good))" using length_gm_keys [OF ok] k by simp
  have num: "cv_Matched cov = length (map rp_FQDN ?good)" using f by (simp add: noCoverage_def)
  have "cv_Matched cov = length m \<longleftrightarrow> distinct (map rp_FQDN ?good)"
    unfolding len num using distinct_card [of "map rp_FQDN ?good"] card_distinct [of "map rp_FQDN ?good"]
    by metis
  moreover have "Coverage_Answered cov \<le> length arrived"
    using f by (simp add: noCoverage_def Coverage_Answered_def)
  ultimately show ?thesis using k by simp
qed

section \<open>The properties at concrete inputs\<close>

definition plainReply :: "string \<Rightarrow> payload \<Rightarrow> plainBody Reply" where
  "plainReply f p = \<lparr>rp_FQDN = f, rp_ReplyType = '''', rp_Body = BReply p, rp_NodeErr = None, rp_NoMatch = False\<rparr>"

definition plainReplies :: "plainBody Reply list" where
  "plainReplies = [plainReply ''n1'' (PSummary zeroSummary), plainReply ''n2'' (PSummary zeroSummary),
     plainReply ''n1'' (PSummary zeroSummary)]"

lemma plain_call:
  "\<exists>sent. Session_Call plainCodec (plainNode ''c'') plainSession ''1'' req f st rs = (sent, Call_loop f st rs, None)"
  by (simp add: Session_Call_def plainCall_begin Call_event_def Call_send_def plainCodec_def plainNode_def)

theorem filter_match_counts_each_node_once_witness:
  "\<exists>sent out called. FilterMatch plainCodec (plainNode ''c'') plainSession ''1'' ''true'' plainReplies
     = (sent, out, called, None) \<and> Answered out = 2"
proof -
  obtain out seen called where "foldl filterReply (emptyFilterOutcome, {}, []) plainReplies = (out, seen, called)"
    by (rule prod_cases3)
  then obtain sent where h: "FilterMatch plainCodec (plainNode ''c'') plainSession ''1'' ''true'' plainReplies
     = (sent, out, called, None)"
    using plain_call [of "statusRequest ''true''" "onEvery filterReply" "(emptyFilterOutcome, {}, [])" plainReplies]
    by (auto simp: FilterMatch_def)
  have "rp_FQDN ` set plainReplies - {[]} = {''n1'', ''n2''}" by (auto simp: plainReplies_def plainReply_def)
  then show ?thesis using filter_match_counts_each_node_once [OF h] h by simp
qed

theorem query_partitions_answering_nodes_witness:
  "\<exists>sent out called. Session_Query plainCodec (plainNode ''c'') plainSession ''1'' ''true''
     [plainReply ''n1'' (PQuery zeroQueryReply)] = (sent, out, called, None) \<and> length called = 1"
proof -
  obtain out seen called where "foldl (queryReply plainCodec) (emptyQueryOutcome ''true'', {}, [])
      [plainReply ''n1'' (PQuery zeroQueryReply)] = (out, seen, called)"
    by (rule prod_cases3)
  then obtain sent where h: "Session_Query plainCodec (plainNode ''c'') plainSession ''1'' ''true''
     [plainReply ''n1'' (PQuery zeroQueryReply)] = (sent, out, called, None)"
    using plain_call [of "\<lparr>rq_Topic = ''puppet'', rq_Command = cmd_Query, rq_Filter = ''true'',
      rq_Params = NoParams, rq_AnswerAlways = False\<rparr>" "onEvery (queryReply plainCodec)"
      "(emptyQueryOutcome ''true'', {}, [])" "[plainReply ''n1'' (PQuery zeroQueryReply)]"]
    by (auto simp: Session_Query_def onEvery_def)
  have "query_who plainCodec (plainReply ''n1'' (PQuery zeroQueryReply)) = ''n1''"
    by (simp add: query_who_def decodeQueryReply_def plainReply_def plainCodec_def zeroQueryReply_def)
  then show ?thesis using query_partitions_answering_nodes [OF h] h by simp
qed

theorem status_stream_result_witness:
  "\<exists>sent m cov. PuppetStatusStream plainCodec (plainNode ''c'') plainSession ''1'' ''true'' plainReplies
     = (sent, (m, cov), None) \<and> Coverage_Answered cov \<le> 3"
proof -
  obtain m cov where "foldl (streamReply (c_decodeSummary plainCodec)) ([], noCoverage) plainReplies = (m, cov)"
    by (rule prod.exhaust)
  then obtain sent where h: "PuppetStatusStream plainCodec (plainNode ''c'') plainSession ''1'' ''true'' plainReplies
     = (sent, (m, cov), None)"
    using plain_call [of "statusRequest ''true''" "onEvery (streamReply (c_decodeSummary plainCodec))"
      "([], noCoverage)" plainReplies]
    by (auto simp: PuppetStatusStream_def)
  from status_stream_result [OF h] h show ?thesis by (auto simp: plainReplies_def)
qed

end
