(* ===== verification/Repl_Backend.thy ===== *)
theory Repl_Backend
  imports Client_Query Discovery Puppet_Data
begin

text \<open>
  What a console session evaluates queries with, \<^verbatim>\<open>query/repl/eval.go\<close>, \<^verbatim>\<open>eval_local.go\<close> and
  \<^verbatim>\<open>eval_cluster.go\<close>. The locale \<open>evaluator\<close> is the contract of \<^verbatim>\<open>Backend.Eval\<close>: one result for
  each node, and a summary that counts them. Both backends are instances.
\<close>

section \<open>Results\<close>

record NodeResult =
  nr_FQDN :: string
  nr_Matched :: bool
  nr_Err :: string
  nr_RTT :: duration

record Summary =
  sm_Expr :: string
  sm_Matched :: int
  sm_Responded :: int
  sm_Known :: int
  sm_Errors :: int
  sm_Elapsed :: duration
  sm_Silent :: bool
  sm_Type :: string
  sm_Value :: string
  sm_Boolish :: bool

definition zeroSum :: Summary where
  "zeroSum = \<lparr>sm_Expr = '''', sm_Matched = 0, sm_Responded = 0, sm_Known = 0, sm_Errors = 0, sm_Elapsed = 0,
     sm_Silent = False, sm_Type = '''', sm_Value = '''', sm_Boolish = False\<rparr>"

section \<open>The local backend\<close>

definition local_Describe :: "QueryHarness \<Rightarrow> string" where
  "local_Describe h = ''local '' @ (if h_Source h = [] then h_FQDN h else h_Source h)"

text \<open>The node results in the order the sink gets them, and the summary. A panic in a query
  function passes through.\<close>

definition local_Eval :: "zygo \<Rightarrow> QueryHarness \<Rightarrow> duration \<Rightarrow> string \<Rightarrow> (NodeResult list \<times> Summary) outcome" where
  "local_Eval z h elapsed expr =
     (let sum = zeroSum\<lparr>sm_Expr := expr, sm_Responded := 1, sm_Known := 1, sm_Elapsed := elapsed\<rparr>;
          r = \<lparr>nr_FQDN = h_FQDN h, nr_Matched = False, nr_Err = '''', nr_RTT = elapsed\<rparr>
      in case harness_Parse z h expr of
           Panic \<Rightarrow> Panic
         | Fail er \<Rightarrow> Ret ([r\<lparr>nr_Err := er\<rparr>], sum\<lparr>sm_Errors := 1\<rparr>)
         | Ret res \<Rightarrow>
             Ret ([r\<lparr>nr_Matched := res_Bool res\<rparr>],
                  sum\<lparr>sm_Type := res_Type res, sm_Value := res_Display res, sm_Boolish := res_Boolish res,
                      sm_Matched := (if res_Bool res then 1 else 0)\<rparr>))"

datatype backend_err = OnlyDataFor string | WhichNode

fun backend_errText :: "backend_err \<Rightarrow> string" where
  "backend_errText (OnlyDataFor fqdn) = ''local mode only has data for '' @ fqdn"
| "backend_errText WhichNode = ''which node? :snapshot <fqdn> (:nodes lists them)''"

lemma backend_errText_not_Nil [simp]: "backend_errText e \<noteq> []"
  by (cases e) simp_all

declare backend_errText.simps [simp del]

definition local_Nodes :: "QueryHarness \<Rightarrow> string list" where
  "local_Nodes h = [h_FQDN h]"

definition local_Snapshot :: "gotime \<Rightarrow> QueryHarness \<Rightarrow> string \<Rightarrow> string + Snapshot" where
  "local_Snapshot now h fqdn =
     (if length fqdn > 0 \<and> fqdn \<noteq> h_FQDN h then Inl (backend_errText (OnlyDataFor (h_FQDN h)))
      else Inr \<lparr>sn_FQDN = h_FQDN h, sn_TS = now, sn_Source = h_Source h,
                sn_Facts = Some (Facts_Map (h_Facts h)), sn_Classes = Some (Classes_List (h_Classes h)),
                sn_LastRunSummary = Some (h_LastRunSummary h)\<rparr>)"

section \<open>The cluster backend\<close>

record 'b ClusterBackend =
  cb_MQAddress :: string
  cb_codec :: "'b codec"
  cb_node :: "'b zn"
  cb_session :: "'b session"
  cb_watcher :: "Node gomap"

text \<open>
  What reaches the backend during one operation: identifiers for its calls, the events the session
  routes to each in time, the clock (\<open>ar_since i\<close> is its i-th reading), and the heartbeats that come in
  while it waits.
\<close>

record 'b arrivals =
  ar_cid :: string
  ar_events :: "'b event list"
  ar_cid2 :: string
  ar_events2 :: "'b event list"
  ar_now :: gotime
  ar_since :: "nat \<Rightarrow> duration"
  ar_heartbeats :: "message list"

definition NewClusterBackend ::
  "string \<Rightarrow> 'b codec \<Rightarrow> 'b zn \<Rightarrow> string + string \<Rightarrow> string + string
     \<Rightarrow> 'b session list \<times> (string + 'b ClusterBackend)" where
  "NewClusterBackend addr cd n replyChan heartbeats =
     (case NewSession replyChan of
        Inl er \<Rightarrow> ([], Inl er)
      | Inr session \<Rightarrow>
        (case WatchNodes heartbeats of
           Inl er \<Rightarrow> ([Session_Close session], Inl er)
         | Inr watcher \<Rightarrow>
             ([], Inr \<lparr>cb_MQAddress = addr, cb_codec = cd, cb_node = n, cb_session = session,
                       cb_watcher = watcher\<rparr>)))"

definition cluster_Describe :: "(string \<Rightarrow> string) \<Rightarrow> 'b ClusterBackend \<Rightarrow> string" where
  "cluster_Describe redactURL b = ''cluster '' @ redactURL (cb_MQAddress b)"

definition cluster_Discovery :: "gotime \<Rightarrow> 'b ClusterBackend \<Rightarrow> Discovery" where
  "cluster_Discovery now b = watcher_Discovery now (cb_watcher b)"

definition Cached :: "gotime \<Rightarrow> 'b ClusterBackend \<Rightarrow> string list" where
  "Cached now b = ActiveNodes (cluster_Discovery now b)"

definition cluster_Stale :: "gotime \<Rightarrow> 'b ClusterBackend \<Rightarrow> string list" where
  "cluster_Stale now b = sort (gm_keys (d_Stale (cluster_Discovery now b)))"

definition QueryCapable :: "gotime \<Rightarrow> 'b ClusterBackend \<Rightarrow> bool" where
  "QueryCapable now b =
     (let d = cluster_Discovery now b
      in length (d_Active d) > 0 \<and> length (WithFeature d cmd_Query) = length (d_Active d))"

definition Capabilities :: "gotime \<Rightarrow> 'b ClusterBackend \<Rightarrow> string" where
  "Capabilities now b =
     (let d = cluster_Discovery now b; active = int (length (d_Active d))
      in if active = 0 then ''''
         else let capable = int (length (WithFeature d cmd_Query))
           in if capable = active then ''all '' @ itoa active @ '' nodes report matches exactly''
              else itoa capable @ '' of '' @ itoa active @ '' nodes support exact match reporting; ''
                @ ''until the rest are upgraded, nodes that do not match stay silent'')"

text \<open>The events sent, the results, the summary and the transport error.\<close>

type_synonym 'b evaluated = "(string \<times> 'b event) list \<times> NodeResult list \<times> Summary \<times> string option"

definition evalQuery :: "'b arrivals \<Rightarrow> 'b ClusterBackend \<Rightarrow> string \<Rightarrow> 'b evaluated" where
  "evalQuery ar b expr =
     (case Session_Query (cb_codec b) (cb_node b) (cb_session b) (ar_cid ar) expr (map (newReply (cb_codec b)) (ar_events ar)) of
        (sent, out, called, err) \<Rightarrow>
          (sent,
           map (\<lambda>(i, qr). \<lparr>nr_FQDN = qr_FQDN qr, nr_Matched = qr_Matched qr, nr_Err = qr_Error qr,
                            nr_RTT = ar_since ar i\<rparr>) (enumerate 0 called),
           zeroSum\<lparr>sm_Expr := expr,
             sm_Matched := int (length (qo_Matched out)),
             sm_Responded := int (length (qo_Matched out) + length (qo_NotMatched out) + length (qo_Errors out)),
             sm_Errors := int (length (qo_Errors out)),
             sm_Known := int (length (Cached (ar_now ar) b)),
             sm_Elapsed := ar_since ar (length called)\<rparr>,
           err))"

definition evalFilter :: "'b arrivals \<Rightarrow> 'b ClusterBackend \<Rightarrow> string \<Rightarrow> 'b evaluated" where
  "evalFilter ar b expr =
     (case FilterMatch (cb_codec b) (cb_node b) (cb_session b) (ar_cid ar) expr (map (newReply (cb_codec b)) (ar_events ar)) of
        (sent, out, called, err) \<Rightarrow>
          (sent,
           map (\<lambda>(i, fqdn). \<lparr>nr_FQDN = fqdn, nr_Matched = True, nr_Err = '''', nr_RTT = ar_since ar i\<rparr>)
             (enumerate 0 called)
           @ map (\<lambda>(i, fqdn, er). \<lparr>nr_FQDN = fqdn, nr_Matched = False, nr_Err = er, nr_RTT = ar_since ar i\<rparr>)
             (enumerate (length called) (fo_Errors out)),
           zeroSum\<lparr>sm_Expr := expr,
             sm_Matched := int (length (fo_Matched out)),
             sm_Responded := int (Answered out),
             sm_Errors := int (length (fo_Errors out)),
             sm_Known := int (length (Cached (ar_now ar) b)),
             sm_Elapsed := ar_since ar (length called + length (fo_Errors out)),
             sm_Silent := (length (fo_NoMatch out) = 0)\<rparr>,
           err))"

definition cluster_Eval :: "'b arrivals \<Rightarrow> 'b ClusterBackend \<Rightarrow> string \<Rightarrow> 'b evaluated" where
  "cluster_Eval ar b expr =
     (if QueryCapable (ar_now ar) b then evalQuery ar b expr else evalFilter ar b expr)"

text \<open>
  Waiting for nodes returns at the first heartbeat that puts one into the view, or at the
  deadline; the watcher goes on in the meantime.
\<close>

fun WaitForNodes :: "json \<Rightarrow> message list \<Rightarrow> Node gomap \<Rightarrow> Node gomap" where
  "WaitForNodes j [] nodes = nodes"
| "WaitForNodes j (m # ms) nodes =
     (if length nodes > 0 then nodes else WaitForNodes j ms (watcher_run j m nodes))"

definition cluster_Nodes :: "json \<Rightarrow> 'b arrivals \<Rightarrow> 'b ClusterBackend \<Rightarrow> string list \<times> 'b ClusterBackend" where
  "cluster_Nodes j ar b =
     (let nodes = Cached (ar_now ar) b
      in if length nodes > 0 then (nodes, b)
         else let b' = b\<lparr>cb_watcher := WaitForNodes j (ar_heartbeats ar) (cb_watcher b)\<rparr>
           in (Cached (ar_now ar) b', b'))"

definition cluster_Snapshot :: "'b arrivals \<Rightarrow> 'b ClusterBackend \<Rightarrow> string \<Rightarrow> string + Snapshot" where
  "cluster_Snapshot ar b fqdn =
     (if length fqdn = 0 then Inl (backend_errText WhichNode)
      else NodeSnapshot (cb_codec b) (cb_node b) (cb_session b) (ar_cid ar) (ar_cid2 ar) fqdn
             (map (newReply (cb_codec b)) (ar_events ar)) (map (newReply (cb_codec b)) (ar_events2 ar)))"

definition cluster_Close :: "'b ClusterBackend \<Rightarrow> 'b ClusterBackend" where
  "cluster_Close b = b\<lparr>cb_session := Session_Close (cb_session b)\<rparr>"

section \<open>The contract of an evaluator\<close>

definition nr_failed :: "NodeResult \<Rightarrow> bool" where
  "nr_failed r \<longleftrightarrow> nr_Err r \<noteq> []"

definition nr_hit :: "NodeResult \<Rightarrow> bool" where
  "nr_hit r \<longleftrightarrow> nr_Err r = [] \<and> nr_Matched r"

text \<open>
  What a session may rely on: no node has two results, and the summary counts the results. More
  nodes may have responded than have a result, since the fallback has none for a node that did
  not match. The environment \<open>'e\<close> is the backend with all it hears, \<open>env\<close> what is assumed of it;
  a panic gives no result.
\<close>

locale evaluator =
  fixes eval :: "'e \<Rightarrow> string \<Rightarrow> (NodeResult list \<times> Summary) option"
    and env :: "'e \<Rightarrow> bool"
  assumes names: "env e \<Longrightarrow> eval e q = Some (rs, sm) \<Longrightarrow> distinct (map nr_FQDN rs)"
    and matched: "env e \<Longrightarrow> eval e q = Some (rs, sm) \<Longrightarrow> sm_Matched sm = int (length (filter nr_hit rs))"
    and errors: "env e \<Longrightarrow> eval e q = Some (rs, sm) \<Longrightarrow> sm_Errors sm = int (length (filter nr_failed rs))"
    and responded: "env e \<Longrightarrow> eval e q = Some (rs, sm) \<Longrightarrow> int (length rs) \<le> sm_Responded sm"
    and expr: "env e \<Longrightarrow> eval e q = Some (rs, sm) \<Longrightarrow> sm_Expr sm = q"
begin

lemma missed:
  assumes "env e" and "eval e q = Some (rs, sm)"
  shows "int (length (filter (\<lambda>r. \<not> nr_failed r \<and> \<not> nr_hit r) rs)) = int (length rs) - sm_Matched sm - sm_Errors sm"
proof -
  have "length rs = length (filter nr_failed rs) + length (filter (\<lambda>r. \<not> nr_failed r) rs)"
    by (simp add: filter_partition_length)
  also have "length (filter (\<lambda>r. \<not> nr_failed r) rs)
      = length (filter nr_hit (filter (\<lambda>r. \<not> nr_failed r) rs))
        + length (filter (\<lambda>r. \<not> nr_hit r) (filter (\<lambda>r. \<not> nr_failed r) rs))"
    by (simp only: filter_partition_length)
  also have "filter nr_hit (filter (\<lambda>r. \<not> nr_failed r) rs) = filter nr_hit rs"
    by (auto simp: nr_failed_def nr_hit_def intro: filter_cong)
  finally show ?thesis using matched [OF assms] errors [OF assms] by (simp add: conj_commute)
qed

lemma matched_bound: "env e \<Longrightarrow> eval e q = Some (rs, sm) \<Longrightarrow> sm_Matched sm + sm_Errors sm \<le> sm_Responded sm"
  using missed [of e q rs sm] responded [of e q rs sm] by simp

lemma any_match: "env e \<Longrightarrow> eval e q = Some (rs, sm) \<Longrightarrow> 0 < sm_Matched sm \<longleftrightarrow> (\<exists>r \<in> set rs. nr_hit r)"
  by (simp add: matched length_greater_0_conv filter_empty_conv)

lemma any_error: "env e \<Longrightarrow> eval e q = Some (rs, sm) \<Longrightarrow> 0 < sm_Errors sm \<longleftrightarrow> (\<exists>r \<in> set rs. nr_failed r)"
  by (simp add: errors length_greater_0_conv filter_empty_conv)

end

subsection \<open>The local backend keeps it\<close>

definition local_evaluator :: "zygo \<times> QueryHarness \<times> duration \<Rightarrow> string \<Rightarrow> (NodeResult list \<times> Summary) option" where
  "local_evaluator e q =
     (case e of (z, h, elapsed) \<Rightarrow> (case local_Eval z h elapsed q of Ret r \<Rightarrow> Some r | _ \<Rightarrow> None))"

text \<open>The interpreter's errors have a text.\<close>

definition zygo_errors_ok :: "zygo \<Rightarrow> bool" where
  "zygo_errors_ok z \<longleftrightarrow> (\<forall>v. snd (z_goToSexp z v) \<noteq> Some [])"

lemma query_errText_not_Nil [simp]: "query_errText e \<noteq> []"
  by (cases e) (simp_all add: query_errText.simps)

lemma engine_Parse_error:
  assumes "zygo_errors_ok z" and "engine_Parse z e s q = Fail er"
  shows "er \<noteq> []"
proof -
  have "snd (z_goToSexp z (GMap (e_nodeMeta e))) \<noteq> Some []" using assms(1) by (simp add: zygo_errors_ok_def)
  with assms(2) show ?thesis
    by (auto simp: engine_Parse_def Let_def split: prod.splits option.splits outcome.splits if_splits)
qed

lemma local_evaluator_cases:
  assumes "local_evaluator (z, h, d) q = Some (rs, sm)"
  obtains (failed) er where "harness_Parse z h q = Fail er"
      "rs = [\<lparr>nr_FQDN = h_FQDN h, nr_Matched = False, nr_Err = er, nr_RTT = d\<rparr>]"
      "sm = zeroSum\<lparr>sm_Expr := q, sm_Responded := 1, sm_Known := 1, sm_Elapsed := d, sm_Errors := 1\<rparr>"
    | (answered) res where "harness_Parse z h q = Ret res"
      "rs = [\<lparr>nr_FQDN = h_FQDN h, nr_Matched = res_Bool res, nr_Err = '''', nr_RTT = d\<rparr>]"
      "sm = zeroSum\<lparr>sm_Expr := q, sm_Responded := 1, sm_Known := 1, sm_Elapsed := d,
         sm_Type := res_Type res, sm_Value := res_Display res, sm_Boolish := res_Boolish res,
         sm_Matched := (if res_Bool res then 1 else 0)\<rparr>"
  using assms by (cases "harness_Parse z h q") (simp_all add: local_evaluator_def local_Eval_def Let_def zeroSum_def)

interpretation local_ev: evaluator local_evaluator "\<lambda>(z, h, d). zygo_errors_ok z"
proof
  fix e :: "zygo \<times> QueryHarness \<times> duration" and q rs sm
  obtain z h d where e: "e = (z, h, d)" by (cases e)
  assume "case e of (z, h, d) \<Rightarrow> zygo_errors_ok z" and a: "local_evaluator e q = Some (rs, sm)"
  then have ok: "zygo_errors_ok z" by (simp add: e)
  from a [unfolded e] have "distinct (map nr_FQDN rs) \<and> sm_Matched sm = int (length (filter nr_hit rs))
    \<and> sm_Errors sm = int (length (filter nr_failed rs)) \<and> int (length rs) \<le> sm_Responded sm \<and> sm_Expr sm = q"
  proof (cases rule: local_evaluator_cases)
    case (failed er)
    then have "er \<noteq> []" using engine_Parse_error [OF ok] by (simp add: harness_Parse_def)
    with failed show ?thesis by (simp add: nr_hit_def nr_failed_def zeroSum_def)
  next
    case (answered res)
    then show ?thesis by (simp add: nr_hit_def nr_failed_def zeroSum_def)
  qed
  then show "distinct (map nr_FQDN rs)" "sm_Matched sm = int (length (filter nr_hit rs))"
    "sm_Errors sm = int (length (filter nr_failed rs))" "int (length rs) \<le> sm_Responded sm" "sm_Expr sm = q"
    by simp_all
qed

subsection \<open>The cluster backend keeps it\<close>

lemma map_enumerate_snd: "map (\<lambda>p. f (snd p)) (enumerate n xs) = map f xs"
  using map_map [of f snd "enumerate n xs"] by (simp add: comp_def)

lemma filter_enumerate_snd:
  "map (\<lambda>p. f (snd p)) (filter (\<lambda>p. P (snd p)) (enumerate n xs)) = map f (filter P xs)"
  by (induction xs arbitrary: n) simp_all

text \<open>What the sink of the query command has seen is what the outcome counts.\<close>

definition query_calls_inv :: "QueryOutcome \<times> string set \<times> QueryReply list \<Rightarrow> bool" where
  "query_calls_inv st = (case st of (out, seen, called) \<Rightarrow>
     map qr_FQDN (filter (\<lambda>q. qr_Error q = [] \<and> qr_Matched q) called) = qo_Matched out
     \<and> map qr_FQDN (filter (\<lambda>q. qr_Error q = [] \<and> \<not> qr_Matched q) called) = qo_NotMatched out
     \<and> map qr_FQDN (filter (\<lambda>q. qr_Error q \<noteq> []) called) = gm_keys (qo_Errors out))"

lemma query_calls_step:
  assumes "query_wf st" and "query_calls_inv st"
  shows "query_calls_inv (queryReply cd st r)"
proof (cases "query_who cd r = [] \<or> query_who cd r \<in> set (query_nodes (fst st))")
  case True
  then show ?thesis using assms by (simp add: qm.skip)
next
  case False
  obtain out seen called where st: "st = (out, seen, called)" by (cases st)
  from False have n: "query_who cd r \<noteq> []" "query_who cd r \<notin> set (query_nodes out)" by (simp_all add: st)
  obtain vals where c: "queryReply cd (out, seen, called) r =
    ((case query_verdict cd r of
        VError er \<Rightarrow> out\<lparr>qo_Errors := qo_Errors out @ [(query_who cd r, er)], qo_Values := vals\<rparr>
      | VNoMatch \<Rightarrow> out\<lparr>qo_NotMatched := qo_NotMatched out @ [query_who cd r], qo_Values := vals\<rparr>
      | VMatched \<Rightarrow> out\<lparr>qo_Matched := qo_Matched out @ [query_who cd r], qo_Values := vals\<rparr>),
     insert (query_who cd r) seen, called @ [decodeQueryReply cd r])"
    using queryReply_count [OF assms(1) [unfolded st] n] by blast
  show ?thesis
    unfolding st c using assms(2) [unfolded st]
    by (simp add: query_calls_inv_def query_verdict_def query_who_def Let_def)
qed

lemma query_calls_fold:
  "query_wf st \<Longrightarrow> query_calls_inv st \<Longrightarrow> query_calls_inv (foldl (queryReply cd) st rs)"
proof (induction rs arbitrary: st)
  case (Cons r rs)
  from Cons.IH [OF qm.step_wf [OF Cons.prems(1)] query_calls_step [OF Cons.prems]] show ?case by simp
qed simp

lemma empty_query_wf: "query_wf (emptyQueryOutcome expr, {}, [])" "query_calls_inv (emptyQueryOutcome expr, {}, [])"
  by (simp_all add: query_wf_def query_nodes_def emptyQueryOutcome_def query_calls_inv_def)

lemma Session_Call_state:
  assumes "Session_Call cd n s cid req onReply st arrived = (sent, st', err)"
  shows "st' = st \<or> st' = Call_loop onReply st arrived"
  using assms by (auto simp: Session_Call_def split: sum.splits prod.splits option.splits)

lemma Session_Query_inv:
  assumes "Session_Query cd n s cid expr arrived = (sent, out, called, err)"
  shows "\<exists>seen. query_wf (out, seen, called) \<and> query_calls_inv (out, seen, called)
    \<and> distinct (query_nodes out)"
proof -
  let ?st = "(emptyQueryOutcome expr, {}, []) :: QueryOutcome \<times> string set \<times> QueryReply list"
  from assms obtain seen where c: "Session_Call cd n s cid
      \<lparr>rq_Topic = ''puppet'', rq_Command = cmd_Query, rq_Filter = expr, rq_Params = NoParams,
        rq_AnswerAlways = False\<rparr>
      (onEvery (queryReply cd)) ?st arrived = (sent, (out, seen, called), err)"
    by (auto simp: Session_Query_def split: prod.splits)
  have d: "distinct (query_nodes (fst ?st))" by (simp add: query_nodes_def emptyQueryOutcome_def)
  from Session_Call_state [OF c] consider "(out, seen, called) = ?st"
    | "(out, seen, called) = foldl (queryReply cd) ?st arrived" by auto
  then have "query_wf (out, seen, called) \<and> query_calls_inv (out, seen, called)
    \<and> distinct (query_nodes (fst (out, seen, called)))"
  proof cases
    case 1
    then show ?thesis using empty_query_wf d by simp
  next
    case 2
    show ?thesis
      unfolding 2
      by (intro conjI qm.fold_wf query_calls_fold qm.fold_distinct empty_query_wf d)
  qed
  then show ?thesis by auto
qed

lemma evalQuery_parts:
  assumes "evalQuery ar b q = (sent, rs, sm, err)"
  obtains out called where "Session_Query (cb_codec b) (cb_node b) (cb_session b) (ar_cid ar) q
      (map (newReply (cb_codec b)) (ar_events ar)) = (sent, out, called, err)"
    "map nr_FQDN (filter nr_hit rs) = qo_Matched out" "map nr_FQDN (filter nr_failed rs) = gm_keys (qo_Errors out)"
    "mset (map nr_FQDN rs) = mset (query_nodes out)" "distinct (query_nodes out)"
    "sm_Matched sm = int (length (qo_Matched out))" "sm_Errors sm = int (length (gm_keys (qo_Errors out)))"
    "sm_Responded sm = int (length (query_nodes out))" "sm_Expr sm = q"
proof -
  obtain out called where c: "Session_Query (cb_codec b) (cb_node b) (cb_session b) (ar_cid ar) q
      (map (newReply (cb_codec b)) (ar_events ar)) = (sent, out, called, err)"
    using assms by (auto simp: evalQuery_def split: prod.splits)
  obtain seen where w: "query_wf (out, seen, called)" and i: "query_calls_inv (out, seen, called)"
    and d: "distinct (query_nodes out)"
    using Session_Query_inv [OF c] by blast
  have rs: "rs = map (\<lambda>p. \<lparr>nr_FQDN = qr_FQDN (snd p), nr_Matched = qr_Matched (snd p), nr_Err = qr_Error (snd p),
      nr_RTT = ar_since ar (fst p)\<rparr>) (enumerate 0 called)"
    using assms by (simp add: evalQuery_def c case_prod_unfold)
  have fqdns: "map nr_FQDN rs = map qr_FQDN called"
    by (simp add: rs comp_def map_enumerate_snd)
  have "map nr_FQDN (filter nr_hit rs) = map qr_FQDN (filter (\<lambda>q. qr_Error q = [] \<and> qr_Matched q) called)"
    by (simp add: rs filter_map comp_def nr_hit_def
        filter_enumerate_snd [where P = "\<lambda>q. qr_Error q = [] \<and> qr_Matched q" and f = qr_FQDN])
  moreover have "map nr_FQDN (filter nr_failed rs) = map qr_FQDN (filter (\<lambda>q. qr_Error q \<noteq> []) called)"
    by (simp add: rs filter_map comp_def nr_failed_def
        filter_enumerate_snd [where P = "\<lambda>q. qr_Error q \<noteq> []" and f = qr_FQDN])
  moreover have "mset (map nr_FQDN rs) = mset (query_nodes out)" using w by (simp add: query_wf_def fqdns)
  moreover have "sm_Matched sm = int (length (qo_Matched out)) \<and> sm_Errors sm = int (length (gm_keys (qo_Errors out)))
    \<and> sm_Responded sm = int (length (query_nodes out)) \<and> sm_Expr sm = q"
    using assms by (auto simp: evalQuery_def c zeroSum_def query_nodes_def)
  ultimately show ?thesis using i by (intro that [OF c]) (simp_all add: query_calls_inv_def d)
qed

lemma evalQuery_laws:
  assumes "evalQuery ar b q = (sent, rs, sm, err)"
  shows "distinct (map nr_FQDN rs) \<and> sm_Matched sm = int (length (filter nr_hit rs))
    \<and> sm_Errors sm = int (length (filter nr_failed rs)) \<and> sm_Responded sm = int (length rs) \<and> sm_Expr sm = q"
proof -
  from assms obtain out called where p: "map nr_FQDN (filter nr_hit rs) = qo_Matched out"
    "map nr_FQDN (filter nr_failed rs) = gm_keys (qo_Errors out)"
    "mset (map nr_FQDN rs) = mset (query_nodes out)" "distinct (query_nodes out)"
    and s: "sm_Matched sm = int (length (qo_Matched out))" "sm_Errors sm = int (length (gm_keys (qo_Errors out)))"
    "sm_Responded sm = int (length (query_nodes out))" "sm_Expr sm = q"
    by (rule evalQuery_parts)
  have "length (filter nr_hit rs) = length (qo_Matched out)"
    "length (filter nr_failed rs) = length (gm_keys (qo_Errors out))"
    "length rs = length (query_nodes out)"
    using p(1-3) by (metis length_map mset_eq_length)+
  with s mset_eq_imp_distinct_iff [OF p(3)] p(4) show ?thesis by simp
qed

text \<open>A reply that the session made of an event carries an error with a text, or none.\<close>

lemma newReply_error: "rp_NodeErr (newReply cd ev) = Some er \<Longrightarrow> er \<noteq> []"
proof -
  have "nodeError cd body \<noteq> []" for body
    by (auto simp: nodeError_def session_errText.simps split: sum.splits)
  then show "rp_NodeErr (newReply cd ev) = Some er \<Longrightarrow> er \<noteq> []"
    by (auto simp: newReply_def Let_def split: if_splits)
qed

lemma filter_errors_step:
  assumes "filter_wf st" and "[] \<notin> snd ` set (fo_Errors (fst st))" and "rp_NodeErr r \<noteq> Some []"
  shows "[] \<notin> snd ` set (fo_Errors (fst (filterReply st r)))"
proof (cases "rp_FQDN r = [] \<or> rp_FQDN r \<in> set (filter_nodes (fst st))")
  case True
  then show ?thesis using assms by (simp add: filterReply_skip)
next
  case False
  obtain out seen called where st: "st = (out, seen, called)" by (cases st)
  from False have n: "rp_FQDN r \<noteq> []" "rp_FQDN r \<notin> set (filter_nodes out)" by (simp_all add: st)
  show ?thesis
    unfolding st filterReply_count [OF assms(1) [unfolded st] n] using assms(2,3) [unfolded st]
    by (auto simp: filter_verdict_def split: option.splits)
qed

lemma filter_errors_fold:
  "filter_wf st \<Longrightarrow> [] \<notin> snd ` set (fo_Errors (fst st)) \<Longrightarrow> \<forall>r \<in> set rs. rp_NodeErr r \<noteq> Some [] \<Longrightarrow>
     [] \<notin> snd ` set (fo_Errors (fst (foldl filterReply st rs)))"
proof (induction rs arbitrary: st)
  case (Cons r rs)
  have "filter_wf (filterReply st r)" by (rule fm.step_wf) (rule Cons.prems)
  moreover have "[] \<notin> snd ` set (fo_Errors (fst (filterReply st r)))"
    using Cons.prems by (intro filter_errors_step) simp_all
  ultimately show ?case using Cons.IH Cons.prems(3) by simp
qed simp

lemma FilterMatch_inv:
  assumes "FilterMatch cd n s cid expr arrived = (sent, out, called, err)"
    and "\<forall>r \<in> set arrived. rp_NodeErr r \<noteq> Some []"
  shows "called = fo_Matched out \<and> distinct (filter_nodes out) \<and> [] \<notin> snd ` set (fo_Errors out)"
proof -
  let ?st = "(emptyFilterOutcome, {}, []) :: FilterOutcome \<times> string set \<times> string list"
  from assms(1) obtain seen where c: "Session_Call cd n s cid (statusRequest expr) (onEvery filterReply) ?st arrived
      = (sent, (out, seen, called), err)"
    by (auto simp: FilterMatch_def split: prod.splits)
  from Session_Call_state [OF c] consider "(out, seen, called) = ?st"
    | "(out, seen, called) = foldl filterReply ?st arrived" by auto
  then have "filter_wf (out, seen, called) \<and> distinct (filter_nodes (fst (out, seen, called)))
    \<and> [] \<notin> snd ` set (fo_Errors (fst (out, seen, called)))"
  proof cases
    case 1
    then show ?thesis by (simp add: filter_wf_def filter_nodes_def emptyFilterOutcome_def)
  next
    case 2
    show ?thesis
      unfolding 2
      by (intro conjI fm.fold_wf fm.fold_distinct filter_errors_fold assms(2))
        (simp_all add: emptyFilterOutcome_def filter_nodes_def filter_wf_def)
  qed
  then show ?thesis by (simp add: filter_wf_def)
qed

lemma evalFilter_parts:
  assumes "evalFilter ar b q = (sent, rs, sm, err)"
  obtains out called where "FilterMatch (cb_codec b) (cb_node b) (cb_session b) (ar_cid ar) q
      (map (newReply (cb_codec b)) (ar_events ar)) = (sent, out, called, err)"
    "map nr_FQDN (filter nr_hit rs) = fo_Matched out" "map nr_FQDN (filter nr_failed rs) = gm_keys (fo_Errors out)"
    "map nr_FQDN rs = fo_Matched out @ gm_keys (fo_Errors out)" "distinct (filter_nodes out)"
    "sm_Matched sm = int (length (fo_Matched out))" "sm_Errors sm = int (length (gm_keys (fo_Errors out)))"
    "sm_Responded sm = int (length (filter_nodes out))" "sm_Expr sm = q"
proof -
  obtain out called where c: "FilterMatch (cb_codec b) (cb_node b) (cb_session b) (ar_cid ar) q
      (map (newReply (cb_codec b)) (ar_events ar)) = (sent, out, called, err)"
    using assms by (auto simp: evalFilter_def split: prod.splits)
  have called: "called = fo_Matched out" and d: "distinct (filter_nodes out)"
    and ne: "[] \<notin> snd ` set (fo_Errors out)"
    using FilterMatch_inv [OF c] newReply_error by fastforce+
  let ?hits = "map (\<lambda>p. \<lparr>nr_FQDN = snd p, nr_Matched = True, nr_Err = '''', nr_RTT = ar_since ar (fst p)\<rparr>)
      (enumerate 0 called)"
  let ?errs = "map (\<lambda>p. \<lparr>nr_FQDN = fst (snd p), nr_Matched = False, nr_Err = snd (snd p), nr_RTT = ar_since ar (fst p)\<rparr>)
      (enumerate (length called) (fo_Errors out))"
  have rs: "rs = ?hits @ ?errs" using assms by (simp add: evalFilter_def c case_prod_unfold)
  have fqdns: "map nr_FQDN ?hits = called" "map nr_FQDN ?errs = gm_keys (fo_Errors out)"
    by (simp_all add: comp_def map_enumerate_snd [where f = "\<lambda>x. x"] map_enumerate_snd [where f = fst])
  have hits: "filter nr_hit ?hits = ?hits" "filter nr_failed ?hits = []"
    by (auto simp: filter_id_conv filter_empty_conv nr_hit_def nr_failed_def)
  have "snd (snd p) \<noteq> []" if "p \<in> set (enumerate k (fo_Errors out))" for p k
  proof -
    have "snd p \<in> set (fo_Errors out)" using that by (metis enumerate_eq_zip in_set_zipE prod.collapse)
    then show ?thesis using ne by (metis imageI)
  qed
  then have errs: "filter nr_hit ?errs = []" "filter nr_failed ?errs = ?errs"
    by (auto simp: filter_id_conv filter_empty_conv nr_hit_def nr_failed_def)
  have "map nr_FQDN (filter nr_hit rs) = fo_Matched out"
    "map nr_FQDN (filter nr_failed rs) = gm_keys (fo_Errors out)"
    "map nr_FQDN rs = fo_Matched out @ gm_keys (fo_Errors out)"
    unfolding rs filter_append hits errs map_append fqdns by (simp_all add: called)
  moreover have "sm_Matched sm = int (length (fo_Matched out)) \<and> sm_Errors sm = int (length (gm_keys (fo_Errors out)))
    \<and> sm_Responded sm = int (length (filter_nodes out)) \<and> sm_Expr sm = q"
    using assms by (auto simp: evalFilter_def c zeroSum_def Answered_nodes)
  ultimately show ?thesis by (intro that [OF c]) (simp_all add: d)
qed

lemma evalFilter_laws:
  assumes "evalFilter ar b q = (sent, rs, sm, err)"
  shows "distinct (map nr_FQDN rs) \<and> sm_Matched sm = int (length (filter nr_hit rs))
    \<and> sm_Errors sm = int (length (filter nr_failed rs)) \<and> int (length rs) \<le> sm_Responded sm \<and> sm_Expr sm = q"
proof -
  from assms obtain out called where p: "map nr_FQDN (filter nr_hit rs) = fo_Matched out"
    "map nr_FQDN (filter nr_failed rs) = gm_keys (fo_Errors out)"
    "map nr_FQDN rs = fo_Matched out @ gm_keys (fo_Errors out)" "distinct (filter_nodes out)"
    and s: "sm_Matched sm = int (length (fo_Matched out))" "sm_Errors sm = int (length (gm_keys (fo_Errors out)))"
    "sm_Responded sm = int (length (filter_nodes out))" "sm_Expr sm = q"
    by (rule evalFilter_parts)
  have "length (filter nr_hit rs) = length (fo_Matched out)"
    "length (filter nr_failed rs) = length (gm_keys (fo_Errors out))"
    "length rs = length (fo_Matched out @ gm_keys (fo_Errors out))"
    using p(1-3) by (metis length_map)+
  moreover have "distinct (map nr_FQDN rs)" using p(3,4) by (auto simp: filter_nodes_def)
  ultimately show ?thesis using s by (simp add: filter_nodes_def)
qed

definition cluster_evaluator :: "'b arrivals \<times> 'b ClusterBackend \<Rightarrow> string \<Rightarrow> (NodeResult list \<times> Summary) option" where
  "cluster_evaluator e q = (case e of (ar, b) \<Rightarrow> (case cluster_Eval ar b q of (sent, rs, sm, err) \<Rightarrow> Some (rs, sm)))"

interpretation cluster_ev: evaluator cluster_evaluator "\<lambda>_. True"
proof
  fix e :: "'b arrivals \<times> 'b ClusterBackend" and q rs sm
  obtain ar b where e: "e = (ar, b)" by (cases e)
  assume "cluster_evaluator e q = Some (rs, sm)"
  then obtain sent err where "cluster_Eval ar b q = (sent, rs, sm, err)"
    by (auto simp: cluster_evaluator_def e split: prod.splits)
  then have "distinct (map nr_FQDN rs) \<and> sm_Matched sm = int (length (filter nr_hit rs))
    \<and> sm_Errors sm = int (length (filter nr_failed rs)) \<and> int (length rs) \<le> sm_Responded sm \<and> sm_Expr sm = q"
    unfolding cluster_Eval_def using evalQuery_laws [of ar b q] evalFilter_laws [of ar b q]
    by (auto split: if_splits)
  then show "distinct (map nr_FQDN rs)" "sm_Matched sm = int (length (filter nr_hit rs))"
    "sm_Errors sm = int (length (filter nr_failed rs))" "int (length rs) \<le> sm_Responded sm" "sm_Expr sm = q"
    by simp_all
qed

subsection \<open>Which way a query goes\<close>

lemma WithFeature_all:
  "length (WithFeature d f) = length (d_Active d) \<longleftrightarrow> (\<forall>e \<in> set (d_Active d). f \<in> set (nd_Features (snd e)))"
proof -
  have "length (WithFeature d f) = length (filter (\<lambda>e. f \<in> set (nd_Features (snd e))) (d_Active d))"
    by (simp add: WithFeature_def case_prod_unfold)
  then show ?thesis
    by (metis (no_types, lifting) filter_id_conv length_filter_less nat_less_le)
qed

lemma QueryCapable_iff:
  "QueryCapable now b \<longleftrightarrow> d_Active (cluster_Discovery now b) \<noteq> []
     \<and> (\<forall>e \<in> set (d_Active (cluster_Discovery now b)). cmd_Query \<in> set (nd_Features (snd e)))"
  by (simp add: QueryCapable_def Let_def WithFeature_all)

text \<open>A local match is the filter letting the node through.\<close>

lemma engine_Parse_result: "engine_Parse z e st q = Ret res \<Longrightarrow> \<exists>v. res = newResult z v"
  by (auto simp: engine_Parse_def Let_def split: prod.splits option.splits outcome.splits if_splits)

lemma newResult_Bool_Boolish: "res_Bool (newResult z v) \<Longrightarrow> res_Boolish (newResult z v)"
  by (cases v) (simp_all add: newResult_def Let_def)

lemma harness_Query_True_iff:
  "harness_Query z h q = Ret True \<longleftrightarrow> (\<exists>res. harness_Parse z h q = Ret res \<and> res_Bool res)"
proof -
  have "res_Boolish res" if "engine_Parse z (h_Engine h) (h_Facts h, h_Classes h) q = Ret res" "res_Bool res" for res
    using engine_Parse_result [OF that(1)] newResult_Bool_Boolish that(2) by blast
  then show ?thesis
    by (auto simp: harness_Query_def harness_Parse_def engine_ParseBool_def outcome_bind_Ret_iff split: if_splits)
qed

section \<open>Properties\<close>

text \<open>
  C21: A query on the cluster is sent as the query command exactly when the fleet has an active
  node and every active node announces the command. No node is reported twice, the summary
  counts exactly the results that matched and that failed, and on a capable fleet every node
  that responded has its result.
\<close>

theorem cluster_summary_counts_results:
  assumes "cluster_Eval ar b q = (sent, rs, sm, err)"
  shows "distinct (map nr_FQDN rs)
    \<and> sm_Matched sm = int (length (filter nr_hit rs)) \<and> sm_Errors sm = int (length (filter nr_failed rs))
    \<and> (if d_Active (cluster_Discovery (ar_now ar) b) \<noteq> []
          \<and> (\<forall>e \<in> set (d_Active (cluster_Discovery (ar_now ar) b)). cmd_Query \<in> set (nd_Features (snd e)))
       then (sent, rs, sm, err) = evalQuery ar b q \<and> sm_Responded sm = int (length rs)
       else (sent, rs, sm, err) = evalFilter ar b q \<and> int (length rs) \<le> sm_Responded sm)"
proof -
  have "cluster_evaluator (ar, b) q = Some (rs, sm)" by (simp add: cluster_evaluator_def assms)
  note laws = cluster_ev.names [OF _ this] cluster_ev.matched [OF _ this] cluster_ev.errors [OF _ this]
    cluster_ev.responded [OF _ this]
  show ?thesis
    using laws evalQuery_laws [of ar b q sent rs sm err] assms
    unfolding QueryCapable_iff [symmetric] cluster_Eval_def by (auto split: if_splits)
qed

definition plainBackend :: "plainBody ClusterBackend" where
  "plainBackend = \<lparr>cb_MQAddress = ''tcp://mq'', cb_codec = plainCodec, cb_node = plainNode ''c'',
     cb_session = plainSession, cb_watcher = []\<rparr>"

definition plainArrivals :: "plainBody arrivals" where
  "plainArrivals = \<lparr>ar_cid = ''1'', ar_events = [plainEvent (BReply (PSummary zeroSummary))], ar_cid2 = ''2'',
     ar_events2 = [], ar_now = 0, ar_since = int, ar_heartbeats = []\<rparr>"

theorem cluster_summary_counts_results_witness:
  "\<exists>sent rs sm err. cluster_Eval plainArrivals plainBackend ''true'' = (sent, rs, sm, err)
     \<and> sm_Matched sm = int (length (filter nr_hit rs)) \<and> int (length rs) \<le> sm_Responded sm"
proof -
  obtain sent rs sm err where h: "cluster_Eval plainArrivals plainBackend ''true'' = (sent, rs, sm, err)"
    by (rule prod_cases4)
  from cluster_summary_counts_results [OF h] h show ?thesis by (auto split: if_splits)
qed

end
