(* ===== verification/Repl_Complete.thy ===== *)
theory Repl_Complete
  imports Query_Engine
begin

text \<open>
  The data and completion side of the query console: walking facts (\<^verbatim>\<open>query/repl/data.go\<close>), the
  completer (\<^verbatim>\<open>complete.go\<close>), its adapter to the line editor (\<^verbatim>\<open>term.go\<close>) and the table of meta
  commands (\<^verbatim>\<open>meta.go\<close>). A line is a list of characters; a rune is one of them, so the model is of
  lines without multi-byte characters. The YAML encoder, \<^verbatim>\<open>%v\<close> and \<^verbatim>\<open>path.Match\<close> are parameters.
\<close>

section \<open>Facts\<close>

fun walkPath :: "gv \<Rightarrow> string list \<Rightarrow> gv option" where
  "walkPath current [] = Some current"
| "walkPath current (key # keys) =
     (case current of
        GMap v \<Rightarrow> (case gm_get v key of None \<Rightarrow> None | Some nxt \<Rightarrow> walkPath nxt keys)
      | GArr v \<Rightarrow>
          (case atoi key of
             None \<Rightarrow> None
           | Some idx \<Rightarrow> if idx < 0 \<or> idx \<ge> int (length v) then None else walkPath (v ! nat idx) keys)
      | _ \<Rightarrow> None)"

definition factPath :: "gv gomap \<Rightarrow> string list \<Rightarrow> gv option" where
  "factPath facts keys = walkPath (GMap facts) keys"

definition factChildren :: "gv gomap \<Rightarrow> string list \<Rightarrow> string list" where
  "factChildren facts keys =
     (case factPath facts keys of
        None \<Rightarrow> []
      | Some (GMap v) \<Rightarrow> sort (gm_keys v)
      | Some (GArr v) \<Rightarrow> map (\<lambda>i. itoa (int i)) [0..<length v]
      | Some _ \<Rightarrow> [])"

definition matchNames :: "(string \<Rightarrow> string \<Rightarrow> bool option) \<Rightarrow> string list \<Rightarrow> string \<Rightarrow> string list" where
  "matchNames pathMatch names pattern =
     (if pattern = [] then names
      else let glob = containsAny pattern ''*?[''
        in filter (\<lambda>name. if glob then pathMatch pattern name = Some True else hasPrefix name pattern) names)"

definition renderValue :: "(gv \<Rightarrow> string + string) \<Rightarrow> (gv \<Rightarrow> string) \<Rightarrow> gv \<Rightarrow> string" where
  "renderValue yaml fmtv v =
     (case v of
        GNull \<Rightarrow> ''(not set)''
      | GStr s \<Rightarrow> s
      | GBool b \<Rightarrow> fmtv v
      | GInt i \<Rightarrow> fmtv v
      | GFloat f \<Rightarrow> fmtv v
      | _ \<Rightarrow> (case yaml v of Inl er \<Rightarrow> fmtv v | Inr out \<Rightarrow> trimRightBy (\<lambda>c. c = NL) out))"

definition indent :: "string \<Rightarrow> string \<Rightarrow> string" where
  "indent s prefix = strJoin (map (\<lambda>l. prefix @ l) (strSplit s NL)) [NL]"

section \<open>Meta commands\<close>

record metaCmd =
  mc_Name :: string
  mc_Aliases :: "string list"
  mc_Args :: string
  mc_Help :: string

definition metaCommands :: "metaCmd list" where
  "metaCommands =
     [\<lparr>mc_Name = ''help'', mc_Aliases = [''?''], mc_Args = '''', mc_Help = ''this list''\<rparr>,
      \<lparr>mc_Name = ''syntax'', mc_Aliases = [], mc_Args = '''',
       mc_Help = ''query language reference with examples''\<rparr>,
      \<lparr>mc_Name = ''fact'', mc_Aliases = [], mc_Args = ''[path|glob]'',
       mc_Help = ''show fact value, or list fact names''\<rparr>,
      \<lparr>mc_Name = ''class'', mc_Aliases = [], mc_Args = ''[glob]'', mc_Help = ''list classes''\<rparr>,
      \<lparr>mc_Name = ''nodes'', mc_Aliases = [], mc_Args = ''[-r]'',
       mc_Help = ''list known nodes, -r to refresh''\<rparr>,
      \<lparr>mc_Name = ''snapshot'', mc_Aliases = [], mc_Args = ''[fqdn|save <f>|load <f>]'',
       mc_Help = ''pull a node's facts/classes for completion and :fact, or save/load them''\<rparr>,
      \<lparr>mc_Name = ''local'', mc_Aliases = [], mc_Args = ''[facts [classes]]'',
       mc_Help = ''evaluate locally: against files, or against the loaded snapshot''\<rparr>,
      \<lparr>mc_Name = ''cluster'', mc_Aliases = [], mc_Args = '''', mc_Help = ''evaluate on the cluster''\<rparr>,
      \<lparr>mc_Name = ''out'', mc_Aliases = [], mc_Args = ''stderr|csv|json'',
       mc_Help = ''output format for results''\<rparr>,
      \<lparr>mc_Name = ''timeout'', mc_Aliases = [], mc_Args = ''<duration>'',
       mc_Help = ''how long to wait for results''\<rparr>,
      \<lparr>mc_Name = ''verbose'', mc_Aliases = [], mc_Args = '''',
       mc_Help = ''toggle printing nodes that did not match''\<rparr>,
      \<lparr>mc_Name = ''quit'', mc_Aliases = [''q'', ''exit''], mc_Args = '''',
       mc_Help = ''exit (same as Ctrl-D)''\<rparr>]"

definition metaNames :: "string list" where
  "metaNames = sort (map mc_Name metaCommands)"

text \<open>The command, or the commands the name is an ambiguous prefix of.\<close>

definition lookupMeta :: "string \<Rightarrow> metaCmd option \<times> string list" where
  "lookupMeta name =
     (case List.find (\<lambda>c. mc_Name c = name \<or> name \<in> set (mc_Aliases c)) metaCommands of
        Some c \<Rightarrow> (Some c, [])
      | None \<Rightarrow>
          (let matches = filter (\<lambda>c. hasPrefix (mc_Name c) name) metaCommands
           in if length matches = 1 then (Some (matches ! 0), [])
              else (None, map (\<lambda>c. '':'' @ mc_Name c) matches)))"

section \<open>The completer\<close>

record CompletionState =
  cs_Meta :: "string list"
  cs_Funcs :: "string list"
  cs_Facts :: "gv gomap"
  cs_Classes :: "string list"
  cs_Nodes :: "string list"
  cs_NodeMeta :: "gv gomap"
  cs_Formats :: "string list"
  cs_Files :: "(string \<Rightarrow> string list) option"

definition cs_paths :: "CompletionState \<Rightarrow> string \<Rightarrow> string list" where
  "cs_paths st prefix = (case cs_Files st of None \<Rightarrow> [] | Some f \<Rightarrow> f prefix)"

text \<open>
  Completing paths: what the file system library finds for a pattern, sorted, with a slash after a
  directory so that the next part can be typed and a blank after everything else.
\<close>

record globLib =
  gl_Glob :: "string \<Rightarrow> string list option"
  gl_IsDir :: "string \<Rightarrow> bool"

definition GlobPaths :: "globLib \<Rightarrow> string \<Rightarrow> string list" where
  "GlobPaths lib path =
     (case gl_Glob lib (path @ ''*'') of
        None \<Rightarrow> []
      | Some matches \<Rightarrow> map (\<lambda>m. if gl_IsDir lib m then m @ [SLASH] else m @ '' '') (sort matches))"

text \<open>
  What \<^verbatim>\<open>filepath.Glob\<close> documents is that the names it returns match the pattern, so for a pattern that
  is a literal path with a star behind it they begin with that path. The path must have none of the
  pattern characters, and a directory part written as the library writes it: the names come back
  joined to the cleaned directory.
\<close>

definition literal_path :: "string \<Rightarrow> bool" where
  "literal_path p \<longleftrightarrow> \<not> containsAny p [CHR ''*'', CHR ''?'', CHR ''['', BSLASH]
     \<and> (let dir = rev (dropWhile (\<lambda>c. c \<noteq> SLASH) (rev p))
         in dir = [] \<or> dir = [SLASH] \<or> dir = filepathClean dir @ [SLASH] \<and> filepathClean dir \<noteq> ''.'')"

definition glob_ok :: "globLib \<Rightarrow> bool" where
  "glob_ok lib \<longleftrightarrow> (\<forall>path matches. literal_path path \<and> gl_Glob lib (path @ ''*'') = Some matches \<longrightarrow>
     (\<forall>m \<in> set matches. hasPrefix m path))"

text \<open>Where the pattern is taken literally, every path offered extends what was typed.\<close>

lemma GlobPaths_extend:
  assumes "\<And>m matches. gl_Glob lib (path @ ''*'') = Some matches \<Longrightarrow> m \<in> set matches \<Longrightarrow> hasPrefix m path"
    and "c \<in> set (GlobPaths lib path)"
  shows "hasPrefix c path"
proof -
  obtain ms where ms: "gl_Glob lib (path @ ''*'') = Some ms"
    using assms(2) by (cases "gl_Glob lib (path @ ''*'')") (simp_all add: GlobPaths_def)
  then obtain m where m: "m \<in> set ms" "c = (if gl_IsDir lib m then m @ [SLASH] else m @ '' '')"
    using assms(2) by (auto simp: GlobPaths_def)
  obtain r where "m = path @ r" using assms(1) [OF ms m(1)] by (auto simp: hasPrefix_iff)
  then show ?thesis using m(2) by (auto simp: hasPrefix_iff)
qed

definition tokenBreak :: string where
  "tokenBreak = [CHR '' '', TAB, CHR ''('', CHR '')'', QUOTE, CHR 0x27]"

definition isBlank :: "char \<Rightarrow> bool" where
  "isBlank c \<longleftrightarrow> c = CHR '' '' \<or> c = TAB"

definition withPrefix :: "string list \<Rightarrow> string \<Rightarrow> string list" where
  "withPrefix candidates prefix = filter (\<lambda>c. hasPrefix c prefix) candidates"

definition quoteAll :: "string list \<Rightarrow> string list" where
  "quoteAll candidates = map (\<lambda>c. c @ [QUOTE]) candidates"

definition spaceAll :: "string list \<Rightarrow> string list" where
  "spaceAll candidates = map (\<lambda>c. c @ '' '') candidates"

definition endsWithSpace :: "string \<Rightarrow> bool" where
  "endsWithSpace s \<longleftrightarrow> s \<noteq> [] \<and> isBlank (last s)"

text \<open>The loop over the line: the open quote's position, whether the next one is escaped.\<close>

fun stringScan :: "nat \<Rightarrow> nat option \<Rightarrow> bool \<Rightarrow> string \<Rightarrow> nat option" where
  "stringScan i start escaped [] = start"
| "stringScan i start escaped (r # rs) =
     (if escaped then stringScan (i + 1) start False rs
      else if r = BSLASH then stringScan (i + 1) start True rs
      else if r = QUOTE then stringScan (i + 1) (case start of None \<Rightarrow> Some i | Some j \<Rightarrow> None) False rs
      else stringScan (i + 1) start False rs)"

definition stringStart :: "string \<Rightarrow> nat option" where
  "stringStart s = stringScan 0 None False s"

text \<open>The position of the innermost open parenthesis, searched from the end.\<close>

fun openParen :: "nat \<Rightarrow> string \<Rightarrow> nat option" where
  "openParen depth [] = None"
| "openParen depth (c # cs) =
     (if c = CHR '')'' then openParen (depth + 1) cs
      else if c = CHR ''('' then (if depth = 0 then Some (length cs) else openParen (depth - 1) cs)
      else openParen depth cs)"

definition enclosingCall :: "string \<Rightarrow> string \<times> string list" where
  "enclosingCall s =
     (case openParen 0 (rev s) of
        None \<Rightarrow> ('''', [])
      | Some opn \<Rightarrow>
          (let flds = strFields (drop (opn + 1) s)
           in if flds = [] then ('''', [])
              else (flds ! 0, map (trimBy (\<lambda>c. c = QUOTE)) (tl flds))))"

definition classCandidate :: "string \<Rightarrow> string \<Rightarrow> string" where
  "classCandidate partial class =
     (case strIndex (drop (length partial) class) ''::'' of
        Some idx \<Rightarrow> take (length partial + idx + 2) class
      | None \<Rightarrow> class @ [QUOTE])"

definition completeClass :: "string list \<Rightarrow> string \<Rightarrow> string list" where
  "completeClass classes partial =
     sort (fold (\<lambda>class out.
        if \<not> hasPrefix class partial then out
        else let candidate = classCandidate partial class
          in if candidate \<in> set out then out else out @ [candidate]) classes [])"

definition completeQuery :: "CompletionState \<Rightarrow> string \<Rightarrow> string \<times> string list" where
  "completeQuery st left =
     (case stringStart left of
        Some start \<Rightarrow>
          (let partial = drop (start + 1) left; head = take (start + 1) left;
               (fn, args) = enclosingCall (take start left)
           in if fn = ''fact'' then (head, quoteAll (withPrefix (factChildren (cs_Facts st) args) partial))
              else if fn = ''class'' then (head, completeClass (cs_Classes st) partial)
              else (head, []))
      | None \<Rightarrow>
          (let partial = rev (takeWhile (\<lambda>c. c \<notin> set tokenBreak) (rev left));
               head = rev (dropWhile (\<lambda>c. c \<notin> set tokenBreak) (rev left))
           in if hasPrefix partial ''%'' then
                (head, spaceAll (withPrefix (sort (map (\<lambda>k. ''%'' @ k) (gm_keys (cs_NodeMeta st)))) partial))
              else (head, spaceAll (withPrefix (cs_Funcs st) partial))))"

definition metaArgs :: "CompletionState \<Rightarrow> string \<Rightarrow> string list \<Rightarrow> bool \<Rightarrow> string \<Rightarrow> string list" where
  "metaArgs st cmd flds blank partial =
     (if cmd = ''snapshot'' then
        (if length flds > 1 \<and> (flds ! 1 = ''save'' \<or> flds ! 1 = ''load'')
            \<and> (length flds > 2 \<or> blank) then cs_paths st partial
         else spaceAll (withPrefix ([''save'', ''load''] @ cs_Nodes st) partial))
      else if cmd = ''local'' then cs_paths st partial
      else if cmd = ''out'' then spaceAll (withPrefix (cs_Formats st) partial)
      else if cmd = ''fact'' then spaceAll (withPrefix (factChildren (cs_Facts st) []) partial)
      else if cmd = ''class'' then spaceAll (withPrefix (cs_Classes st) partial)
      else [])"

text \<open>\<open>left\<close> has a colon; taking the first field of a blank rest panics.\<close>

definition completeMeta :: "CompletionState \<Rightarrow> string \<Rightarrow> (string \<times> string list) outcome" where
  "completeMeta st left =
     (let colon = length (takeWhile (\<lambda>c. c \<noteq> CHR '':'') left);
          rest = drop (colon + 1) left
      in if \<not> containsAny rest [CHR '' '', TAB] then
           Ret (take (colon + 1) left, spaceAll (withPrefix (cs_Meta st) rest))
         else let flds = strFields rest
           in if flds = [] then Panic
              else case lookupMeta (flds ! 0) of
                (None, _) \<Rightarrow> Ret (left, [])
              | (Some cmd, _) \<Rightarrow>
                  (let partial = (if \<not> endsWithSpace left \<and> length flds > 1 then last flds else '''');
                       head = take (length left - length partial) left
                   in Ret (head, metaArgs st (mc_Name cmd) flds (endsWithSpace left) partial)))"

definition Complete :: "CompletionState \<Rightarrow> string \<Rightarrow> int \<Rightarrow> (string \<times> string list \<times> string) outcome" where
  "Complete st line pos =
     (let p0 = (if pos < 0 then 0 else pos);
          p = nat (if p0 > int (length line) then int (length line) else p0);
          left = take p line; tail = drop p line
      in if hasPrefix (dropWhile isBlank left) '':'' then
           outcome_bind (completeMeta st left) (\<lambda>(head, completions). Ret (head, completions, tail))
         else let (head, completions) = completeQuery st left in Ret (head, completions, tail))"

text \<open>Candidates without what is typed, and how much that is.\<close>

definition completeRunes :: "CompletionState \<Rightarrow> string \<Rightarrow> int \<Rightarrow> (string list \<times> int) outcome" where
  "completeRunes st line pos =
     outcome_bind (Complete st line pos) (\<lambda>(head, completions, tail).
       let typed = pos - int (length head)
       in if typed < 0 then Ret ([], 0)
          else Ret (map (\<lambda>c. drop (nat typed) c) (filter (\<lambda>c. \<not> int (length c) < typed) completions), typed))"

datatype lineError = EOF | Interrupted

definition interruptResult :: "string \<Rightarrow> lineError" where
  "interruptResult line = (if length (trimSpace line) = 0 then EOF else Interrupted)"

section \<open>Lemmas\<close>

subsection \<open>Facts\<close>

lemma walkPath_append:
  "walkPath v (p @ q) = (case walkPath v p of None \<Rightarrow> None | Some u \<Rightarrow> walkPath u q)"
  by (induction v p rule: walkPath.induct) (auto split: gv.splits option.splits)

text \<open>
  The completer's walk and the query function's agree, which only the latter's bounds test spoils: it
  adds one to the index, and the largest 64-bit integer wraps around.
\<close>

definition index_wraps :: "gv \<Rightarrow> string list \<Rightarrow> bool" where
  "index_wraps root keys \<longleftrightarrow>
     (\<exists>p seg q v. keys = p @ seg # q \<and> walkPath root p = Some (GArr v) \<and> atoi seg = Some (2 ^ 63 - 1))"

lemma index_wraps_Nil [simp]: "\<not> index_wraps root []"
  by (simp add: index_wraps_def)

lemma index_wraps_Cons:
  "index_wraps root (key # keys) \<longleftrightarrow> (\<exists>v. root = GArr v) \<and> atoi key = Some (2 ^ 63 - 1)
     \<or> (\<exists>u. walkPath root [key] = Some u \<and> index_wraps u keys)" (is "?l \<longleftrightarrow> ?r")
proof
  assume ?l
  then obtain p seg q v where k: "key # keys = p @ seg # q" "walkPath root p = Some (GArr v)" "atoi seg = Some (2 ^ 63 - 1)"
    unfolding index_wraps_def by blast
  show ?r
  proof (cases p)
    case (Cons a p')
    then obtain u where "walkPath root [key] = Some u" "walkPath u p' = Some (GArr v)"
      using k walkPath_append [of root "[key]" p'] by (cases "walkPath root [key]") auto
    moreover from k Cons calculation(2) have "index_wraps u keys"
      unfolding index_wraps_def by (intro exI [of _ p'] exI [of _ seg] exI [of _ q] exI [of _ v]) simp
    ultimately show ?thesis by blast
  qed (use k in simp)
next
  assume ?r
  then show ?l
  proof
    assume "(\<exists>v. root = GArr v) \<and> atoi key = Some (2 ^ 63 - 1)"
    then obtain v where "key # keys = [] @ key # keys" "walkPath root [] = Some (GArr v)" "atoi key = Some (2 ^ 63 - 1)" by auto
    then show ?thesis unfolding index_wraps_def by blast
  next
    assume "\<exists>u. walkPath root [key] = Some u \<and> index_wraps u keys"
    then obtain u p seg q v where "walkPath root [key] = Some u" "keys = p @ seg # q" "walkPath u p = Some (GArr v)"
      "atoi seg = Some (2 ^ 63 - 1)" unfolding index_wraps_def by blast
    then show ?thesis
      using walkPath_append [of root "[key]" p] unfolding index_wraps_def by (intro exI [of _ "key # p"]) auto
  qed
qed

definition arrays_fit :: "gv \<Rightarrow> string list \<Rightarrow> bool" where
  "arrays_fit root keys \<longleftrightarrow> (\<forall>p q v. keys = p @ q \<and> walkPath root p = Some (GArr v) \<longrightarrow> int (length v) < 2 ^ 63)"

lemma arrays_fit_Cons:
  assumes "arrays_fit root (key # keys)" and "walkPath root [key] = Some u"
  shows "arrays_fit u keys"
  unfolding arrays_fit_def
proof (intro allI impI)
  fix p q v
  assume "keys = p @ q \<and> walkPath u p = Some (GArr v)"
  then have "key # keys = (key # p) @ q" "walkPath root (key # p) = Some (GArr v)"
    using assms(2) walkPath_append [of root "[key]" p] by auto
  then show "int (length v) < 2 ^ 63" using assms(1) unfolding arrays_fit_def by blast
qed

lemma traverseHash_walkPath:
  assumes "arrays_fit v keys"
  shows "traverseHash keys v =
    (if index_wraps v keys then Panic else Ret (case walkPath v keys of Some u \<Rightarrow> u | None \<Rightarrow> GNull))"
  using assms
proof (induction v keys rule: walkPath.induct)
  case (2 current key keys)
  show ?case
  proof (cases current)
    case (GMap m)
    show ?thesis
    proof (cases "gm_get m key")
      case (Some u)
      then have "walkPath current [key] = Some u" by (simp add: GMap)
      with 2(1) [OF GMap Some arrays_fit_Cons [OF "2.prems" this]] Some GMap show ?thesis by (simp add: index_wraps_Cons)
    qed (simp add: GMap index_wraps_Cons)
  next
    case (GArr v)
    have fit: "int (length v) < 2 ^ 63"
      using "2.prems" unfolding arrays_fit_def GArr by (metis append_Nil walkPath.simps(1))
    show ?thesis
    proof (cases "atoi key")
      case None
      with GArr show ?thesis by (simp add: index_wraps_Cons)
    next
      case (Some idx)
      show ?thesis
      proof (cases "idx = 2 ^ 63 - 1")
        case True
        with GArr Some fit show ?thesis by (simp add: index_wraps_Cons wrap64_def)
      next
        case idx: False
        have t: "wrap64 (idx + 1) > int (length v) \<longleftrightarrow> idx \<ge> int (length v)" by (rule index_test [OF Some idx])
        show ?thesis
        proof (cases "idx < 0 \<or> idx \<ge> int (length v)")
          case True
          with GArr Some t idx show ?thesis by (auto simp: index_wraps_Cons)
        next
          case False
          then have "walkPath current [key] = Some (v ! nat idx)" using GArr Some by simp
          from "2.IH"(2) [OF GArr Some False arrays_fit_Cons [OF "2.prems" this]] False GArr Some t idx show ?thesis
            by (cases keys) (simp_all add: index_wraps_Cons)
        qed
      qed
    qed
  qed (simp_all add: index_wraps_Cons)
qed simp

lemma factChildren_walk:
  assumes "c \<in> set (factChildren facts keys)"
    and "\<And>v. factPath facts keys = Some (GArr v) \<Longrightarrow> int (length v) < 2 ^ 63"
  shows "\<exists>v. factPath facts (keys @ [c]) = Some v"
proof -
  from assms(1) obtain u where u: "factPath facts keys = Some u"
    by (cases "factPath facts keys") (simp_all add: factChildren_def)
  with assms(1) consider m where "factPath facts keys = Some (GMap m)" "c \<in> set (gm_keys m)"
    | v i where "factPath facts keys = Some (GArr v)" "i < length v" "c = itoa (int i)"
    by (cases u) (auto simp: factChildren_def)
  then show ?thesis
  proof cases
    case 1
    then have "gm_get m c \<noteq> None" by (simp add: gm_get_None)
    with 1 show ?thesis by (auto simp: factPath_def walkPath_append)
  next
    case 2
    with assms(2) [OF 2(1)] have "atoi c = Some (int i)" by (simp add: atoi_itoa in_int64_def)
    with 2 show ?thesis by (simp add: factPath_def walkPath_append)
  qed
qed

subsection \<open>What the completer offers\<close>

definition extends :: "string \<Rightarrow> string \<times> string list \<Rightarrow> bool" where
  "extends left r \<longleftrightarrow> (\<exists>typed. left = fst r @ typed \<and> (\<forall>c \<in> set (snd r). hasPrefix c typed))"

lemma extendsI: "left = h @ typed \<Longrightarrow> (\<And>c. c \<in> set cs \<Longrightarrow> hasPrefix c typed) \<Longrightarrow> extends left (h, cs)"
  by (auto simp: extends_def)

lemma extends_none [simp]: "hasPrefix left h \<Longrightarrow> extends left (h, [])"
  by (auto simp: extends_def hasPrefix_iff)

lemma hasPrefix_appendI [intro]: "hasPrefix c p \<Longrightarrow> hasPrefix (c @ s) p"
  by (auto simp: hasPrefix_iff)

lemma withPrefix_mem: "c \<in> set (spaceAll (withPrefix cs p)) \<Longrightarrow> hasPrefix c p"
  "c \<in> set (quoteAll (withPrefix cs p)) \<Longrightarrow> hasPrefix c p"
  by (auto simp: spaceAll_def quoteAll_def withPrefix_def)

lemma classCandidate_prefix: "hasPrefix class partial \<Longrightarrow> hasPrefix (classCandidate partial class) partial"
  by (auto simp: classCandidate_def hasPrefix_iff split: option.splits)

lemma completeClass_mem: "c \<in> set (completeClass classes partial) \<Longrightarrow> hasPrefix c partial"
proof -
  have "\<forall>c \<in> set out. hasPrefix c partial \<Longrightarrow>
      c \<in> set (fold (\<lambda>class out. if \<not> hasPrefix class partial then out
        else let candidate = classCandidate partial class
          in if candidate \<in> set out then out else out @ [candidate]) classes out) \<Longrightarrow> hasPrefix c partial" for out c
  proof (induction classes arbitrary: out)
    case (Cons cl classes)
    show ?case
      by (rule Cons.IH [OF _ Cons.prems(2) [simplified]])
        (use Cons.prems(1) in \<open>auto simp: Let_def classCandidate_prefix\<close>)
  qed simp
  note mem = this [of "[]"]
  assume "c \<in> set (completeClass classes partial)"
  then show "hasPrefix c partial" unfolding completeClass_def set_sort by (rule mem [rotated]) simp
qed

lemma rev_take_drop_While: "rev (dropWhile P (rev s)) @ rev (takeWhile P (rev s)) = s"
  by (metis rev_append rev_rev_ident takeWhile_dropWhile_id)

lemma extends_cut: "(\<And>c. c \<in> set cs \<Longrightarrow> hasPrefix c (drop n left)) \<Longrightarrow> extends left (take n left, cs)"
  by (rule extendsI [OF append_take_drop_id [symmetric]])

lemma completeQuery_extends: "extends left (completeQuery st left)"
proof (cases "stringStart left")
  case (Some start)
  obtain fn args where "enclosingCall (take start left) = (fn, args)" by (rule prod.exhaust)
  then show ?thesis
    using Some by (auto simp: completeQuery_def Let_def intro!: extends_cut dest: withPrefix_mem(2) completeClass_mem)
next
  case None
  then show ?thesis
    by (auto simp: completeQuery_def Let_def intro!: extendsI [OF rev_take_drop_While [symmetric]]
        dest: withPrefix_mem(1))
qed

lemma splitBy_single: "splitBy P s = [w] \<Longrightarrow> w = s"
  by (induction s arbitrary: w) (auto split: if_splits list.splits)

text \<open>The last field of a line that does not end in white space is the line's end.\<close>

lemma strFields_last:
  assumes "s \<noteq> []" and "\<not> isSpace (last s)"
  shows "strFields s \<noteq> [] \<and> (\<exists>pre. s = pre @ last (strFields s))"
proof -
  obtain ini c where s: "s = ini @ [c]" "\<not> isSpace c" using assms by (cases s rule: rev_cases) auto
  have "\<exists>ws w. splitBy isSpace s = ws @ [w] \<and> w \<noteq> [] \<and> (\<exists>pre. s = pre @ w)"
    unfolding s(1)
  proof (induction ini)
    case Nil
    with s(2) show ?case by (intro exI [of _ "[]"] exI [of _ "[c]"]) simp
  next
    case (Cons a ini)
    then obtain ws w pre where w: "splitBy isSpace (ini @ [c]) = ws @ [w]" "w \<noteq> []" "ini @ [c] = pre @ w"
      by blast
    show ?case
    proof (cases "isSpace a")
      case True
      with w show ?thesis by (intro exI [of _ "[] # ws"] exI [of _ w]) (auto intro: exI [of _ "a # pre"])
    next
      case False
      show ?thesis
      proof (cases ws)
        case Nil
        with w(1) have "splitBy isSpace (ini @ [c]) = [w]" by simp
        with splitBy_single [OF this] have "splitBy isSpace (a # ini @ [c]) = [] @ [a # ini @ [c]]"
          using False by simp
        moreover have "a # ini @ [c] = [] @ (a # ini @ [c])" by simp
        ultimately show ?thesis unfolding append_Cons by blast
      next
        case (Cons v vs)
        with False w show ?thesis
          by (intro exI [of _ "(a # v) # vs"] exI [of _ w]) (auto intro: exI [of _ "a # pre"])
      qed
    qed
  qed
  then show ?thesis by (auto simp: strFields_def)
qed

lemma metaArgs_prefix:
  assumes "c \<in> set (metaArgs st cmd flds blank partial)"
    and "cmd = ''local'' \<or> cmd = ''snapshot'' \<and> length flds > 1 \<and> (flds ! 1 = ''save'' \<or> flds ! 1 = ''load'') \<Longrightarrow>
      c \<in> set (cs_paths st partial) \<Longrightarrow> hasPrefix c partial"
  shows "hasPrefix c partial"
  using assms by (auto simp: metaArgs_def split: if_splits dest: withPrefix_mem(1))

definition plain_line :: "string \<Rightarrow> bool" where
  "plain_line s \<longleftrightarrow> (\<forall>c \<in> set s. isSpace c \<longrightarrow> isBlank c)"

text \<open>The lines whose word at the cursor is completed as a path: \<^verbatim>\<open>:local\<close>, \<^verbatim>\<open>:snapshot save\<close> and \<^verbatim>\<open>load\<close>.\<close>

definition meta_path :: "string \<Rightarrow> bool" where
  "meta_path left \<longleftrightarrow>
     (let flds = strFields (drop (length (takeWhile (\<lambda>c. c \<noteq> CHR '':'') left) + 1) left)
      in flds \<noteq> [] \<and> (case fst (lookupMeta (flds ! 0)) of
           None \<Rightarrow> False
         | Some cmd \<Rightarrow> mc_Name cmd = ''local'' \<or> mc_Name cmd = ''snapshot'' \<and> length flds > 1
             \<and> (flds ! 1 = ''save'' \<or> flds ! 1 = ''load'')))"

definition path_word :: "string \<Rightarrow> bool" where
  "path_word left \<longleftrightarrow> hasPrefix (dropWhile isBlank left) '':'' \<and> meta_path left"

lemma completeMeta_extends:
  assumes "completeMeta st left = Ret r" and "plain_line left"
    and "\<And>c. meta_path left \<Longrightarrow> c \<in> set (cs_paths st (drop (length (fst r)) left)) \<Longrightarrow> hasPrefix c (drop (length (fst r)) left)"
  shows "extends left r"
proof -
  let ?colon = "length (takeWhile (\<lambda>c. c \<noteq> CHR '':'') left)"
  let ?rest = "drop (?colon + 1) left"
  show ?thesis
  proof (cases "containsAny ?rest [CHR '' '', TAB]")
    case False
    with assms(1) have "r = (take (?colon + 1) left, spaceAll (withPrefix (cs_Meta st) ?rest))"
      by (simp add: completeMeta_def Let_def)
    then show ?thesis by (auto intro!: extends_cut dest: withPrefix_mem(1))
  next
    case True
    define flds where "flds = strFields ?rest"
    define partial where "partial = (if \<not> endsWithSpace left \<and> length flds > 1 then last flds else '''')"
    obtain mc nms where l: "lookupMeta (flds ! 0) = (mc, nms)" by (cases "lookupMeta (flds ! 0)")
    have "completeMeta st left = (if flds = [] then Panic else case lookupMeta (flds ! 0) of
        (None, _) \<Rightarrow> Ret (left, [])
      | (Some cmd, _) \<Rightarrow> Ret (take (length left - length partial) left,
          metaArgs st (mc_Name cmd) flds (endsWithSpace left) partial))"
      unfolding completeMeta_def Let_def flds_def partial_def using True by (simp only: not_True_eq_False if_False)
    with assms(1) l have "r = (left, []) \<or> (\<exists>cmd. r = (take (length left - length partial) left,
        metaArgs st (mc_Name cmd) flds (endsWithSpace left) partial) \<and> mc = Some cmd \<and> flds \<noteq> [])"
      by (cases mc) (auto split: if_splits)
    then consider "r = (left, [])" | cmd where "r = (take (length left - length partial) left,
        metaArgs st (mc_Name cmd) flds (endsWithSpace left) partial)" "mc = Some cmd" "flds \<noteq> []"
      by blast
    then show ?thesis
    proof cases
      case 1
      then show ?thesis by (simp add: hasPrefix_def)
    next
      case 2
      have p: "drop (length left - length partial) left = partial"
      proof (cases "\<not> endsWithSpace left \<and> length flds > 1")
        case False
        then show ?thesis by (auto simp: partial_def)
      next
        case c: True
        have ne: "?rest \<noteq> []" using True by (auto simp: containsAny_def)
        then have "left \<noteq> []" "last ?rest = last left" by (auto simp: last_drop)
        with c assms(2) have "\<not> isSpace (last ?rest)" by (auto simp: endsWithSpace_def plain_line_def)
        with strFields_last [OF ne] obtain pre where "?rest = pre @ last flds" by (auto simp: flds_def)
        then have "left = (take (?colon + 1) left @ pre) @ last flds"
          by (metis append.assoc append_take_drop_id)
        moreover from this have "drop (length left - length (last flds)) left = last flds"
          by (metis append_eq_conv_conj diff_diff_cancel length_append length_drop le_add2 add_diff_cancel_right')
        ultimately show ?thesis using c by (simp add: partial_def)
      qed
      have "length partial \<le> length left" using arg_cong [OF p, of length] by simp
      then have len: "drop (length (fst r)) left = partial" using p 2(1) by simp
      show ?thesis unfolding 2(1)
      proof (rule extends_cut, unfold p, erule metaArgs_prefix)
        fix c
        assume "mc_Name cmd = ''local'' \<or> mc_Name cmd = ''snapshot'' \<and> length flds > 1 \<and> (flds ! 1 = ''save'' \<or> flds ! 1 = ''load'')"
        then have "meta_path left" using l 2(2,3) by (simp add: meta_path_def Let_def flds_def)
        then show "c \<in> set (cs_paths st partial) \<Longrightarrow> hasPrefix c partial" using assms(3) unfolding len by blast
      qed
    qed
  qed
qed

lemma Complete_extends:
  assumes "Complete st line pos = Ret (head, cs, tail)" and "0 \<le> pos" and "pos \<le> int (length line)"
    and "plain_line line" and "cs_Files st = None \<or> (\<exists>lib. cs_Files st = Some (GlobPaths lib) \<and> glob_ok lib)"
    and "path_word (take (nat pos) line) \<Longrightarrow> literal_path (drop (length head) (take (nat pos) line))"
  shows "tail = drop (nat pos) line \<and> extends (take (nat pos) line) (head, cs)"
proof -
  have "plain_line (take (nat pos) line)" using assms(4) by (auto simp: plain_line_def dest: in_set_takeD)
  moreover have p: "nat (if (if pos < 0 then 0 else pos) > int (length line) then int (length line)
      else (if pos < 0 then 0 else pos)) = nat pos" using assms(2,3) by auto
  show ?thesis
  proof (cases "hasPrefix (dropWhile isBlank (take (nat pos) line)) '':''")
    case True
    with assms(1) p have "tail = drop (nat pos) line" "completeMeta st (take (nat pos) line) = Ret (head, cs)"
      by (auto simp: Complete_def Let_def outcome_bind_Ret_iff)
    moreover have "hasPrefix c (drop (length head) (take (nat pos) line))"
      if "meta_path (take (nat pos) line)" "c \<in> set (cs_paths st (drop (length head) (take (nat pos) line)))" for c
    proof -
      have "literal_path (drop (length head) (take (nat pos) line))" using True that(1) assms(6) by (simp add: path_word_def)
      then show ?thesis using assms(5) that(2) GlobPaths_extend unfolding cs_paths_def glob_ok_def by fastforce
    qed
    ultimately show ?thesis
      using completeMeta_extends [of st "take (nat pos) line" "(head, cs)"] \<open>plain_line (take (nat pos) line)\<close> by simp
  next
    case False
    with assms(1) p have "tail = drop (nat pos) line" "completeQuery st (take (nat pos) line) = (head, cs)"
      by (auto simp: Complete_def Let_def split: prod.splits)
    then show ?thesis using completeQuery_extends [of "take (nat pos) line" st] by simp
  qed
qed

lemma splitBy_all: "filter (\<lambda>w. w \<noteq> []) (splitBy P xs) = [] \<longleftrightarrow> (\<forall>x \<in> set xs. P x)"
proof (induction xs)
  case (Cons a xs)
  then show ?case by (cases "splitBy P xs") auto
qed simp

lemma strFields_Nil_iff: "strFields xs = [] \<longleftrightarrow> (\<forall>c \<in> set xs. isSpace c)"
  by (simp add: strFields_def splitBy_all)

lemma completeMeta_Panic_iff:
  "completeMeta st left = Panic \<longleftrightarrow>
     (let rest = drop (length (takeWhile (\<lambda>c. c \<noteq> CHR '':'') left) + 1) left
      in containsAny rest [CHR '' '', TAB] \<and> strFields rest = [])"
  unfolding completeMeta_def Let_def by (simp split: option.split prod.split)

lemma isBlank_colon: "\<not> isBlank CHR '':''"
  by (simp add: isBlank_def)

lemma isBlank_isSpace: "isBlank c \<Longrightarrow> isSpace c"
  by (auto simp: isBlank_def isSpace_def)

lemma Complete_Panic_iff:
  assumes "0 \<le> pos" and "pos \<le> int (length line)"
  shows "Complete st line pos = Panic \<longleftrightarrow>
    hasPrefix (dropWhile isBlank (take (nat pos) line)) '':'' \<and> completeMeta st (take (nat pos) line) = Panic"
proof -
  have "nat (if (if pos < 0 then 0 else pos) > int (length line) then int (length line)
      else (if pos < 0 then 0 else pos)) = nat pos" using assms by auto
  then show ?thesis
    by (cases "completeMeta st (take (nat pos) line)")
      (simp_all add: Complete_def Let_def split: prod.split)
qed

lemma blank_colon_split:
  "hasPrefix (dropWhile isBlank xs) '':'' \<longleftrightarrow>
     (\<exists>a b. xs = a @ CHR '':'' # b \<and> (\<forall>c \<in> set a. isBlank c))"
proof (induction xs)
  case Nil
  then show ?case by (simp add: hasPrefix_iff)
next
  case (Cons x xs)
  show ?case
  proof (cases "isBlank x")
    case True
    with Cons isBlank_colon show ?thesis by (fastforce simp: Cons_eq_append_conv intro: exI [of _ "x # _"])
  next
    case False
    then show ?thesis by (fastforce simp: hasPrefix_iff Cons_eq_append_conv)
  qed
qed

section \<open>Properties\<close>

text \<open>
  C32: What the completer and \<^verbatim>\<open>:fact\<close> find at a path is what the query function finds there: the
  same value, and a null exactly where the path does not exist or holds one. Every name the
  completer offers below a path leads to a value. The two part on one segment only: where
  9223372036854775807 is asked of an array on the path, the completer finds nothing and the query
  function panics.
\<close>

theorem completer_sees_what_queries_see:
  assumes "\<forall>p q v. keys = p @ q \<and> factPath facts p = Some (GArr v) \<longrightarrow> int (length v) < 2 ^ 63"
  shows "traverseHash keys (GMap facts) =
      (if \<exists>p seg q v. keys = p @ seg # q \<and> factPath facts p = Some (GArr v) \<and> atoi seg = Some (2 ^ 63 - 1) then Panic
       else Ret (case factPath facts keys of Some v \<Rightarrow> v | None \<Rightarrow> GNull))
    \<and> (\<forall>c \<in> set (factChildren facts keys). \<exists>v. factPath facts (keys @ [c]) = Some v)"
proof (rule conjI)
  have fit: "arrays_fit (GMap facts) keys" using assms unfolding arrays_fit_def factPath_def .
  show "traverseHash keys (GMap facts) =
      (if \<exists>p seg q v. keys = p @ seg # q \<and> factPath facts p = Some (GArr v) \<and> atoi seg = Some (2 ^ 63 - 1) then Panic
       else Ret (case factPath facts keys of Some v \<Rightarrow> v | None \<Rightarrow> GNull))"
    using traverseHash_walkPath [OF fit] unfolding index_wraps_def factPath_def .
  have "int (length v) < 2 ^ 63" if "factPath facts keys = Some (GArr v)" for v using assms that by (metis append_Nil2)
  then show "\<forall>c \<in> set (factChildren facts keys). \<exists>v. factPath facts (keys @ [c]) = Some v"
    using factChildren_walk [of _ facts keys] by blast
qed

definition someFacts :: "gv gomap" where
  "someFacts = [(''os'', GMap [(''name'', GStr ''linux''), (''cpus'', GArr [GInt 1, GInt 2])])]"

lemma someFacts_children:
  "factPath someFacts [''os'', ''cpus''] = Some (GArr [GInt 1, GInt 2])"
  "factChildren someFacts [''os'', ''cpus''] = [''0'', ''1'']"
  by code_simp+

theorem completer_sees_what_queries_see_witness:
  "(\<exists>v. factPath someFacts ([''os'', ''cpus''] @ [''1'']) = Some v)
   \<and> traverseHash [''os'', ''cpus''] (GMap someFacts) = Ret (GArr [GInt 1, GInt 2])"
proof -
  have "\<forall>p q v. [''os'', ''cpus''] = p @ q \<and> factPath someFacts p = Some (GArr v) \<longrightarrow> int (length v) < 2 ^ 63"
    by (auto simp: Cons_eq_append_conv factPath_def someFacts_def)
  note a = completer_sees_what_queries_see [OF this]
  have "''1'' \<in> set (factChildren someFacts [''os'', ''cpus''])" by (simp add: someFacts_children)
  moreover have "\<not> (\<exists>p seg q v. [''os'', ''cpus''] = p @ seg # q \<and> factPath someFacts p = Some (GArr v) \<and> atoi seg = Some (2 ^ 63 - 1))"
    by (auto simp: Cons_eq_append_conv factPath_def someFacts_def)
  ultimately show ?thesis using a by (simp add: someFacts_children)
qed


definition someState :: CompletionState where
  "someState = \<lparr>cs_Meta = metaNames, cs_Funcs = [''fact''], cs_Facts = someFacts, cs_Classes = [''role::web''],
     cs_Nodes = [''web1''], cs_NodeMeta = [], cs_Formats = [''csv'', ''json''], cs_Files = None\<rparr>"

text \<open>A directory with two files.\<close>

definition someDir :: globLib where
  "someDir = \<lparr>gl_Glob = (\<lambda>pattern. if pattern = ''n*'' \<or> pattern = ''**'' \<or> pattern = ''*''
     then Some [''notes'', ''nodes''] else Some []), gl_IsDir = (\<lambda>m. False)\<rparr>"

lemma someDir_ok: "glob_ok someDir"
  by (auto simp: glob_ok_def someDir_def literal_path_def containsAny_def hasPrefix_iff append_eq_Cons_conv)

definition dirState :: CompletionState where
  "dirState = someState\<lparr>cs_Files := Some (GlobPaths someDir)\<rparr>"


text \<open>
  A typed star is a pattern for the library: the names it finds do not begin with the star, and the
  editor is handed the wrong rest of each, here \<^verbatim>\<open>otes\<close> to be put behind the star.
\<close>

lemma typed_pattern_garbles_the_line:
  "completeRunes dirState '':local *'' 8 = Ret ([''odes '', ''otes ''], 1)"
  by code_simp

text \<open>
  The completer takes the console down on exactly one shape of line: blanks, a colon, and then
  nothing but white space with a blank in it. The unknown command is looked up by the first field,
  and there is none.
\<close>

theorem completion_panics_on_bare_colon:
  assumes "0 \<le> pos" and "pos \<le> int (length line)"
  shows "Complete st line pos = Panic \<longleftrightarrow>
    (\<exists>a b. take (nat pos) line = a @ CHR '':'' # b \<and> (\<forall>c \<in> set a. isBlank c)
       \<and> (\<forall>c \<in> set b. isSpace c) \<and> (\<exists>c \<in> set b. isBlank c))"
proof -
  have bare: "completeMeta st (a @ CHR '':'' # b) = Panic \<longleftrightarrow> (\<forall>c \<in> set b. isSpace c) \<and> (\<exists>c \<in> set b. isBlank c)"
    if a: "\<forall>c \<in> set a. isBlank c" for a b
  proof -
    have "\<forall>c \<in> set a. c \<noteq> CHR '':''" using a isBlank_colon by blast
    then have "takeWhile (\<lambda>c. c \<noteq> CHR '':'') (a @ CHR '':'' # b) = a" by (simp add: takeWhile_append2)
    then show ?thesis
      by (auto simp: completeMeta_Panic_iff Let_def containsAny_def strFields_Nil_iff isBlank_def list_ex_iff)
  qed
  have "(\<exists>a b. l = a @ CHR '':'' # b \<and> (\<forall>c \<in> set a. isBlank c)) \<and> completeMeta st l = Panic \<longleftrightarrow>
      (\<exists>a b. l = a @ CHR '':'' # b \<and> (\<forall>c \<in> set a. isBlank c)
        \<and> (\<forall>c \<in> set b. isSpace c) \<and> (\<exists>c \<in> set b. isBlank c))" (is "?A l \<longleftrightarrow> ?B l") for l
  proof
    assume "?A l"
    then obtain a b where l: "l = a @ CHR '':'' # b" and a: "\<forall>c \<in> set a. isBlank c"
      and panics: "completeMeta st l = Panic"
      by (elim conjE exE)
    from panics bare [OF a] l have "\<forall>c \<in> set b. isSpace c" "\<exists>c \<in> set b. isBlank c" by simp_all
    with l a show "?B l" by (intro exI conjI)
  next
    assume "?B l"
    then obtain a b where l: "l = a @ CHR '':'' # b" and a: "\<forall>c \<in> set a. isBlank c"
      and b: "\<forall>c \<in> set b. isSpace c" "\<exists>c \<in> set b. isBlank c"
      by (elim conjE exE)
    from b bare [OF a] l have "completeMeta st l = Panic" by simp
    with l a show "?A l" by (intro exI conjI)
  qed
  then show ?thesis unfolding Complete_Panic_iff [OF assms] blank_colon_split .
qed

theorem completion_panics_on_bare_colon_witness: "Complete someState '': '' 2 = Panic"
proof -
  have "(2 :: int) \<le> int (length '': '')" by simp
  moreover have "take (nat 2) '': '' = [] @ CHR '':'' # '' ''" by simp
  moreover have "\<forall>c \<in> set '' ''. isSpace c" "\<exists>c \<in> set '' ''. isBlank c" by (simp_all add: isSpace_def isBlank_def)
  ultimately show ?thesis
    using completion_panics_on_bare_colon [of 2 "'': ''" someState] by (metis empty_iff empty_set zero_le_numeral)
qed

end
