(* ===== verification/Repl_Session.thy ===== *)
theory Repl_Session
  imports Repl_Backend Repl_Complete
begin

text \<open>
  The query console: the session of \<^verbatim>\<open>query/repl/session.go\<close>, its output (\<^verbatim>\<open>format.go\<close>), its meta
  commands (\<^verbatim>\<open>meta.go\<close>), \<^verbatim>\<open>help.go\<close>, the script reader (\<^verbatim>\<open>line.go\<close>) and the command that starts
  it (\<^verbatim>\<open>cmd/rv/commands/query/query.go\<close>).

  What a session does to the outside is a list of effects, in order. Writing them never fails.
  What the outside does to it during one line is a record \<open>world\<close>.
\<close>

section \<open>Sessions and effects\<close>

datatype 'b backend = LocalB QueryHarness | ClusterB "'b ClusterBackend"

record queryJSON =
  qj_Expr :: string
  qj_ElapsedMs :: int
  qj_Matched :: "string list"
  qj_Unmatched :: "string list"
  qj_Errors :: "string gomap"
  qj_SumMatched :: int
  qj_SumResponded :: int
  qj_SumKnown :: int
  qj_SumErrors :: int
  qj_Type :: string
  qj_Value :: string

datatype 'b effect =
    EText string
  | ECSV "string list"
  | EJSONQuery queryJSON
  | EJSONFacts string "gv gomap"
  | EJSONClasses string "string list"
  | ESent "(string \<times> 'b event) list"
  | EDisk "disk list"
  | EClosed "'b backend"

record 'b sess =
  ss_backend :: "'b backend"
  ss_hasCluster :: bool
  ss_out :: "'b effect list"
  ss_format :: string
  ss_timeout :: duration
  ss_snapshot :: "Snapshot option"
  ss_nodeMeta :: "gv gomap"
  ss_nodes :: "string list"
  ss_interactive :: bool
  ss_verbose :: bool
  ss_quiet :: bool
  ss_quit :: bool
  ss_stream :: bool
  ss_streamed :: int
  ss_suppressed :: int
  ss_hintedInterrupt :: bool
  ss_hintedNoData :: bool
  ss_csvHeader :: "string list"
  ss_queries :: int
  ss_matched :: int
  ss_failed :: int

text \<open>
  The interpreter, the files, the clock, JSON, what reaches a cluster backend, the clock reading
  of a local evaluation, the result of connecting, \<^verbatim>\<open>Snapshot_Save\<close> on the disk of the moment, and
  the library's renderings.
\<close>

record 'b world =
  w_zygo :: zygo
  w_files :: files
  w_now :: gotime
  w_json :: json
  w_arrivals :: "'b arrivals"
  w_elapsed :: duration
  w_newCluster :: "string + 'b ClusterBackend"
  w_save :: "string \<Rightarrow> Snapshot \<Rightarrow> disk list \<times> string option"
  w_yaml :: "gv \<Rightarrow> string + string"
  w_fmtv :: "gv \<Rightarrow> string"
  w_pathMatch :: "string \<Rightarrow> string \<Rightarrow> bool option"
  w_fmtDuration :: "duration \<Rightarrow> string"
  w_parseDuration :: "string \<Rightarrow> string + duration"
  w_redactURL :: "string \<Rightarrow> string"

definition FormatHuman :: string where "FormatHuman = ''stderr''"
definition FormatCSV :: string where "FormatCSV = ''csv''"
definition FormatJSON :: string where "FormatJSON = ''json''"
definition DefaultTimeout :: duration where "DefaultTimeout = 4 * second"
definition streamLimit :: int where "streamLimit = 20"

lemmas formats = FormatHuman_def FormatCSV_def FormatJSON_def

definition emit :: "'b effect list \<Rightarrow> 'b sess \<Rightarrow> 'b sess" where
  "emit es s = s\<lparr>ss_out := ss_out s @ es\<rparr>"

definition printf :: "string \<Rightarrow> 'b sess \<Rightarrow> 'b sess" where
  "printf t s = emit [EText (t @ [NL])] s"

definition errorf :: "string \<Rightarrow> 'b sess \<Rightarrow> 'b sess" where
  "errorf t s = emit [EText (''error: '' @ trimRightBy (\<lambda>c. c = NL) t @ [NL])] s"

definition isLocal :: "'b backend \<Rightarrow> bool" where
  "isLocal b = (case b of LocalB h \<Rightarrow> True | ClusterB c \<Rightarrow> False)"

definition backend_Describe :: "'b world \<Rightarrow> 'b backend \<Rightarrow> string" where
  "backend_Describe w b =
     (case b of LocalB h \<Rightarrow> local_Describe h | ClusterB c \<Rightarrow> cluster_Describe (w_redactURL w) c)"

definition backend_Close :: "'b backend \<Rightarrow> 'b backend" where
  "backend_Close b = (case b of LocalB h \<Rightarrow> LocalB h | ClusterB c \<Rightarrow> ClusterB (cluster_Close c))"

text \<open>A new backend is never the old one: both are fresh objects.\<close>

definition setBackend :: "'b backend \<Rightarrow> 'b sess \<Rightarrow> 'b sess" where
  "setBackend b s =
     emit [EClosed (backend_Close (ss_backend s))] (s\<lparr>ss_backend := b, ss_stream := \<not> isLocal b\<rparr>)"

definition session_Quit :: "'b sess \<Rightarrow> bool" where
  "session_Quit s = ss_quit s"

definition session_Close :: "'b sess \<Rightarrow> 'b sess" where
  "session_Close s = emit [EClosed (backend_Close (ss_backend s))] s"

definition backend_Nodes :: "'b world \<Rightarrow> 'b backend \<Rightarrow> string list \<times> 'b backend" where
  "backend_Nodes w b =
     (case b of
        LocalB h \<Rightarrow> (local_Nodes h, b)
      | ClusterB c \<Rightarrow> (case cluster_Nodes (w_json w) (w_arrivals w) c of (ns, c') \<Rightarrow> (ns, ClusterB c')))"

definition backend_Snapshot :: "'b world \<Rightarrow> 'b backend \<Rightarrow> string \<Rightarrow> string + Snapshot" where
  "backend_Snapshot w b fqdn =
     (case b of
        LocalB h \<Rightarrow> local_Snapshot (w_now w) h fqdn
      | ClusterB c \<Rightarrow> cluster_Snapshot (w_arrivals w) c fqdn)"

text \<open>Every backend's evaluation in one shape: nothing is sent by a local one.\<close>

definition backend_Eval :: "'b world \<Rightarrow> 'b backend \<Rightarrow> string \<Rightarrow> 'b evaluated outcome" where
  "backend_Eval w b expr =
     (case b of
        LocalB h \<Rightarrow> outcome_bind (local_Eval (w_zygo w) h (w_elapsed w) expr) (\<lambda>(rs, sm). Ret ([], rs, sm, None))
      | ClusterB c \<Rightarrow> Ret (cluster_Eval (w_arrivals w) c expr))"

section \<open>Output\<close>

definition streamResult :: "NodeResult \<Rightarrow> 'b sess \<Rightarrow> 'b sess" where
  "streamResult r s =
     (if ss_format s \<noteq> FormatHuman \<or> \<not> ss_stream s then s
      else if length (nr_Err r) > 0 then s
      else if \<not> nr_Matched r \<and> \<not> ss_verbose s then s
      else if ss_streamed s \<ge> streamLimit \<and> \<not> ss_verbose s then s\<lparr>ss_suppressed := ss_suppressed s + 1\<rparr>
      else (let s1 = s\<lparr>ss_streamed := ss_streamed s + 1\<rparr>
            in if nr_Matched r then printf (''  + '' @ nr_FQDN r) s1 else printf (''  - '' @ nr_FQDN r) s1))"

text \<open>Errors in the order they first appear, each with its nodes.\<close>

definition errorGroups :: "NodeResult list \<Rightarrow> string list gomap" where
  "errorGroups results =
     fold (\<lambda>r g. if length (nr_Err r) = 0 then g
                 else gm_put (nr_Err r) ((case gm_get g (nr_Err r) of None \<Rightarrow> [] | Some ns \<Rightarrow> ns) @ [nr_FQDN r]) g)
       results []"

definition errorLine :: "string \<times> string list \<Rightarrow> string" where
  "errorLine g =
     (case g of (er, nodes) \<Rightarrow>
        if length nodes = 1 then nodes ! 0 @ '': '' @ er
        else if length nodes = 2 \<or> length nodes = 3 then strJoin nodes '' '' @ '': '' @ er
        else itoa (int (length nodes)) @ '' nodes ('' @ nodes ! 0 @ '' ...): '' @ er)"

definition collapseErrors :: "NodeResult list \<Rightarrow> string list" where
  "collapseErrors results = map errorLine (errorGroups results)"

text \<open>\<^verbatim>\<open>Duration.Round\<close> to milliseconds of a duration that is not negative.\<close>

definition millisecond :: duration where "millisecond = 1000000"

definition round_ms :: "duration \<Rightarrow> duration" where
  "round_ms d = (let r = d mod millisecond in if r + r < millisecond then d - r else d + millisecond - r)"

definition bool_str :: "bool \<Rightarrow> string" where
  "bool_str b = (if b then ''true'' else ''false'')"

definition printQueryHuman :: "'b world \<Rightarrow> Summary \<Rightarrow> NodeResult list \<Rightarrow> 'b sess \<Rightarrow> 'b sess" where
  "printQueryHuman w sm results s0 =
     (let s = fold (\<lambda>line. printf (''  ! '' @ line)) (collapseErrors results) s0
      in if length (sm_Type sm) > 0 \<and> sm_Known sm = 1 \<and> sm_Responded sm = 1 \<and> length results = 1 then
           (let r = results ! 0
            in if length (nr_Err r) > 0 then s
               else if sm_Boolish sm then printf (''=> '' @ bool_str (nr_Matched r)) s
               else (let value = trimSpace (sm_Value sm);
                         s1 = (if strContains value [NL] then printf (''=>'' @ [NL] @ indent value ''   '') s
                               else printf (''=> '' @ value) s)
                     in printf (''   ('' @ sm_Type sm @ '', not a boolean - this query would not match anything)'') s1))
         else
           (let total = (if sm_Known sm > 0 then ''/'' @ itoa (sm_Known sm) else '''');
                errs = (if sm_Errors sm > 0 then '', '' @ itoa (sm_Errors sm) @ '' errors'' else '''');
                answered = (if sm_Known sm > 0 \<and> sm_Responded sm < sm_Known sm then
                    '', '' @ itoa (sm_Responded sm) @ '' of '' @ itoa (sm_Known sm) @ '' answered''
                  else '', '' @ itoa (sm_Responded sm) @ '' answered'');
                s1 = (if ss_suppressed s > 0 then
                    printf (''  ... '' @ itoa (ss_suppressed s) @ '' more not listed (:verbose to list every node)'') s
                  else s);
                s2 = printf (itoa (sm_Matched sm) @ total @ '' matched'' @ answered @ errs @ '', ''
                       @ w_fmtDuration w (round_ms (sm_Elapsed sm))) s1
            in if sm_Responded sm = 0 \<and> sm_Known sm = 0 then
                 printf ''   no node answered and none were discovered - is the MQ reachable? (:nodes -r)'' s2
               else if sm_Silent sm \<and> sm_Responded sm < sm_Known sm then
                 printf ''   nodes that did not match stayed silent, so only the match count is exact'' s2
               else if sm_Known sm > 0 \<and> sm_Responded sm < sm_Known sm then
                 printf (''   '' @ itoa (sm_Known sm - sm_Responded sm) @ '' nodes did not answer within ''
                   @ w_fmtDuration w (ss_timeout s2) @ '' (:timeout to wait longer)'') s2
               else s2))"

definition csvHead :: "string \<Rightarrow> string list \<Rightarrow> 'b sess \<Rightarrow> 'b sess" where
  "csvHead name cols s =
     (if name \<in> set (ss_csvHeader s) then s
      else emit [ECSV cols] (s\<lparr>ss_csvHeader := name # ss_csvHeader s\<rparr>))"

definition printQueryCSV :: "Summary \<Rightarrow> NodeResult list \<Rightarrow> 'b sess \<Rightarrow> 'b sess" where
  "printQueryCSV sm results s =
     emit (map (\<lambda>r. ECSV [sm_Expr sm, nr_FQDN r, (if nr_Matched r then ''1'' else ''0''), nr_Err r]) results)
       (csvHead ''query'' [''expr'', ''fqdn'', ''matched'', ''error''] s)"

definition jsonResult :: "NodeResult \<Rightarrow> queryJSON \<Rightarrow> queryJSON" where
  "jsonResult r out =
     (if length (nr_Err r) > 0 then out\<lparr>qj_Errors := gm_put (nr_FQDN r) (nr_Err r) (qj_Errors out)\<rparr>
      else if nr_Matched r then out\<lparr>qj_Matched := qj_Matched out @ [nr_FQDN r]\<rparr>
      else out\<lparr>qj_Unmatched := qj_Unmatched out @ [nr_FQDN r]\<rparr>)"

definition queryRecord :: "Summary \<Rightarrow> NodeResult list \<Rightarrow> queryJSON" where
  "queryRecord sm results =
     (let out = fold jsonResult results
            \<lparr>qj_Expr = sm_Expr sm, qj_ElapsedMs = sm_Elapsed sm div millisecond, qj_Matched = [], qj_Unmatched = [],
             qj_Errors = [], qj_SumMatched = sm_Matched sm, qj_SumResponded = sm_Responded sm,
             qj_SumKnown = sm_Known sm, qj_SumErrors = sm_Errors sm, qj_Type = sm_Type sm, qj_Value = sm_Value sm\<rparr>
      in out\<lparr>qj_Matched := sort (qj_Matched out), qj_Unmatched := sort (qj_Unmatched out)\<rparr>)"

definition printQueryJSON :: "Summary \<Rightarrow> NodeResult list \<Rightarrow> 'b sess \<Rightarrow> 'b sess" where
  "printQueryJSON sm results s = emit [EJSONQuery (queryRecord sm results)] s"

definition printQuery :: "'b world \<Rightarrow> Summary \<Rightarrow> NodeResult list \<Rightarrow> 'b sess \<Rightarrow> 'b sess" where
  "printQuery w sm results s =
     (if ss_format s = FormatCSV then printQueryCSV sm results s
      else if ss_format s = FormatJSON then printQueryJSON sm results s
      else printQueryHuman w sm results s)"

definition snapshotFQDN :: "'b sess \<Rightarrow> string" where
  "snapshotFQDN s = (case ss_snapshot s of None \<Rightarrow> '''' | Some sn \<Rightarrow> sn_FQDN sn)"

definition factLine :: "'b world \<Rightarrow> string \<times> gv \<Rightarrow> 'b sess \<Rightarrow> 'b sess" where
  "factLine w nv =
     (case nv of (name, v) \<Rightarrow>
        (let value = renderValue (w_yaml w) (w_fmtv w) v
         in if strContains value [NL] then printf (name @ '':'' @ [NL] @ indent value ''  '')
            else printf (name @ '': '' @ value)))"

definition printFacts :: "'b world \<Rightarrow> gv gomap \<Rightarrow> 'b sess \<Rightarrow> 'b sess" where
  "printFacts w facts s =
     (let sorted = map (\<lambda>n. (n, the (gm_get facts n))) (sort (gm_keys facts))
      in if ss_format s = FormatCSV then
           emit (map (\<lambda>(n, v). ECSV [snapshotFQDN s, n, renderValue (w_yaml w) (w_fmtv w) v]) sorted)
             (csvHead ''fact'' [''fqdn'', ''fact'', ''value''] s)
         else if ss_format s = FormatJSON then emit [EJSONFacts (snapshotFQDN s) facts] s
         else fold (factLine w) sorted s)"

definition printClasses :: "string list \<Rightarrow> 'b sess \<Rightarrow> 'b sess" where
  "printClasses classes s =
     (if ss_format s = FormatCSV then
        emit (map (\<lambda>c. ECSV [snapshotFQDN s, c]) classes) (csvHead ''class'' [''fqdn'', ''class''] s)
      else if ss_format s = FormatJSON then emit [EJSONClasses (snapshotFQDN s) classes] s
      else printf (itoa (int (length classes)) @ '' classes'') (fold (\<lambda>c. printf (''  '' @ c)) classes s))"

section \<open>Help\<close>

definition syntaxHelp :: string where \<open>syntaxHelp = strJoin
   [''Queries are zygomys lisp, evaluated on each node; result must be a boolean'',
    ''(a non-empty string or an int > 0 also count as true).'',
    '''',
    ''fact - facter data, from facts.yaml'',
    ''  (== (fact "virtual") "kvm")                        flat fact'',
    ''  (== (fact "os" "distro" "codename") "bookworm")    nested: one argument per level'',
    ''  (== (fact "processors" "count") 4)                 numbers compare with == < >'',
    ''  (fact "is_virtual")                                a boolean fact is a query by itself'',
    ''  (== (fact "networking" "interfaces" "eth0" "bindings" 0 "address") "10.100.101.33")'',
    ''                                                     ints index into arrays'',
    '''',
    ''class - classes applied by the last puppet run, from classes.txt'',
    ''  (== (class "nginx") true)                          class is present'',
    ''  (!= (class "apache") true)                         class is absent'',
    '''',
    ''node - node_meta from the daemon config file, not facter'',
    ''  (== (-> node %fqdn) "d1-lg.example.com")'',
    ''  (regexp (-> node %fqdn) "^d1-")                    regexp match'',
    ''  (regexp (-> node %certname) "example.com$")'',
    '''',
    ''combine with and / or / not'',
    ''  (and (== (fact "virtual") "kvm") (== (class "nginx") true))'',
    ''  (or (== (class "apache") true) (== (class "nginx") true))'',
    ''  (not (== (class "apache") true))'',
    '''',
    ''Inspect data instead of matching it:'',
    ''  :fact os.distro       show a fact value      :fact apt_*    glob fact names'',
    ''  :class mon::*         grep classes           :nodes         list nodes'',
    ''Full language reference: https://github.com/glycerine/zygomys/wiki/Language''] [NL]\<close>

definition padTo :: "nat \<Rightarrow> string \<Rightarrow> string" where
  "padTo n t = t @ replicate (n - length t) CHR '' ''"

definition helpLine :: "metaCmd \<Rightarrow> string" where
  "helpLine c =
     ''  '' @ padTo 24 ('':'' @ mc_Name c @ (if length (mc_Args c) > 0 then '' '' @ mc_Args c else ''''))
       @ '' '' @ mc_Help c @ [NL]"

definition Help :: string where
  "Help = ''commands:'' @ [NL] @ concat (map helpLine metaCommands)
     @ [NL] @ ''anything else is evaluated as a query. :syntax shows the query language,'' @ [NL]
     @ ''TAB completes commands, functions, fact and class names'' @ [NL]"

definition dataSummary :: "'b sess \<Rightarrow> string" where
  "dataSummary s =
     (case ss_snapshot s of
        None \<Rightarrow> ''''
      | Some sn \<Rightarrow> itoa (int (length (or_empty (sn_Facts sn)))) @ '' facts, ''
          @ itoa (int (length (or_empty (sn_Classes sn)))) @ '' classes'')"

definition Banner :: "'b world \<Rightarrow> 'b sess \<Rightarrow> string" where
  \<open>Banner w s =
     (let n = length (ss_nodes s);
          nodes1 = (if n > 0 then '', '' @ itoa (int n) @ '' nodes'' else '''');
          nodes = (if dataSummary s \<noteq> [] then '', '' @ dataSummary s else nodes1)
      in ''rv query - '' @ backend_Describe w (ss_backend s) @ nodes @ [NL]
         @ ''  (== (class "nginx") true)          which nodes have that class'' @ [NL]
         @ ''  (== (fact "virtual") "kvm")        which nodes have that fact value'' @ [NL]
         @ '':help for commands, :syntax for the query language, TAB completes'' @ [NL])\<close>

section \<open>Queries\<close>

definition connectionHint :: "string \<Rightarrow> string" where
  "connectionHint msg =
     (if list_ex (strContains msg) [''not currently connected'', ''subscription failed'', ''connection to'']
      then [NL] @ ''       the MQ client reconnects in the background, retry in a moment'' else '''')"

text \<open>The counters behind the exit code.\<close>

definition judge :: "Summary \<Rightarrow> 'b sess \<Rightarrow> 'b sess" where
  "judge sm s0 =
     (let s1 = (if sm_Matched sm > 0 then s0\<lparr>ss_matched := ss_matched s0 + 1\<rparr> else s0);
          s2 = (if sm_Errors sm > 0 then s1\<lparr>ss_failed := ss_failed s1 + 1\<rparr> else s1)
      in if sm_Responded sm = 0 \<and> \<not> sm_Silent sm then s2\<lparr>ss_failed := ss_failed s2 + 1\<rparr> else s2)"

definition runQuery :: "'b world \<Rightarrow> string \<Rightarrow> 'b sess \<Rightarrow> 'b sess outcome" where
  "runQuery w expr s =
     (let s1 = s\<lparr>ss_queries := ss_queries s + 1\<rparr> in
      case CheckSyntax (w_zygo w) expr of
        Some er \<Rightarrow> Ret (errorf er (s1\<lparr>ss_failed := ss_failed s1 + 1\<rparr>))
      | None \<Rightarrow>
        (let s2 = s1\<lparr>ss_streamed := 0, ss_suppressed := 0\<rparr>
         in outcome_bind (backend_Eval w (ss_backend s2) expr) (\<lambda>(sent, results, sm, err).
              let s3 = fold streamResult results (emit [ESent sent] s2)
              in case err of
                   None \<Rightarrow> Ret (printQuery w sm results (judge sm s3))
                 | Some er \<Rightarrow>
                     (let s4 = errorf (er @ connectionHint er) (s3\<lparr>ss_failed := ss_failed s3 + 1\<rparr>)
                      in if sm_Responded sm = 0 then Ret s4
                         else Ret (printQuery w sm results (judge sm s4))))))"

definition ExitCode :: "'b sess \<Rightarrow> int" where
  "ExitCode s = (if ss_failed s > 0 then 2 else if ss_queries s = 0 \<or> ss_matched s > 0 then 0 else 1)"

definition mode :: "'b world \<Rightarrow> 'b sess \<Rightarrow> string" where
  "mode w s =
     (let desc = backend_Describe w (ss_backend s); idx = length (takeWhile (\<lambda>c. c \<noteq> CHR '' '') desc)
      in if idx < length desc \<and> idx > 0 then take idx desc else desc)"

definition Prompt :: "'b world \<Rightarrow> 'b sess \<Rightarrow> string" where
  "Prompt w s = ''rv('' @ mode w s @ '')> ''"

definition queryFuncs :: "'b world \<Rightarrow> 'b sess \<Rightarrow> string list" where
  "queryFuncs w s =
     sort (rev (remdups (rev (Completions (w_zygo w)
       @ (case ss_backend s of LocalB h \<Rightarrow> DataMaps (h_Engine h) | ClusterB c \<Rightarrow> [''fact'', ''class''])))))"

definition session_CompletionState :: "'b world \<Rightarrow> globLib \<Rightarrow> 'b sess \<Rightarrow> CompletionState" where
  "session_CompletionState w lib s =
     \<lparr>cs_Meta = metaNames, cs_Funcs = queryFuncs w s,
      cs_Facts = (case ss_snapshot s of None \<Rightarrow> [] | Some sn \<Rightarrow> or_empty (sn_Facts sn)),
      cs_Classes = (case ss_snapshot s of None \<Rightarrow> [] | Some sn \<Rightarrow> or_empty (sn_Classes sn)),
      cs_Nodes = ss_nodes s,
      cs_NodeMeta = (case ss_backend s of LocalB h \<Rightarrow> e_nodeMeta (h_Engine h) | ClusterB c \<Rightarrow> []),
      cs_Formats = [FormatHuman, FormatCSV, FormatJSON], cs_Files = Some (GlobPaths lib)\<rparr>"

section \<open>Meta commands\<close>

datatype meta_err =
    UnknownFormat string
  | BadDuration string string
  | TimeoutNotPositive
  | SaveWhere
  | NothingToSave
  | LoadWhat
  | NoDataLoaded
  | NoCluster
  | NoFactMatches string
  | NoClassMatches string
  | BadNodeMeta string

fun meta_errText :: "meta_err \<Rightarrow> string" where
  "meta_errText (UnknownFormat f) = ''unknown format '' @ f @ '', use one of: '' @ FormatHuman @ '' '' @ FormatCSV @ '' '' @ FormatJSON"
| "meta_errText (BadDuration a er) = ''can''@ [CHR 0x27] @ ''t parse duration ['' @ a @ '']: '' @ er"
| "meta_errText TimeoutNotPositive = ''timeout must be positive''"
| "meta_errText SaveWhere = ''save where? :snapshot save <file>''"
| "meta_errText NothingToSave = ''nothing loaded to save: run :snapshot <fqdn> first''"
| "meta_errText LoadWhat = ''load what? :snapshot load <file>''"
| "meta_errText NoDataLoaded = ''no data loaded: pass fact/class files, or run :snapshot <fqdn> first''"
| "meta_errText NoCluster = ''no cluster connection in this session (started in local mode)''"
| "meta_errText (NoFactMatches a) = ''no fact matches ['' @ a @ '']''"
| "meta_errText (NoClassMatches a) = ''no class matches ['' @ a @ '']''"
| "meta_errText (BadNodeMeta a) = ''node metadata has to be key=value, got ['' @ a @ '']''"

declare meta_errText.simps [simp del]

text \<open>A command's result: the new session and the error it returned.\<close>

type_synonym 'b ran = "'b sess \<times> string option"

definition metaHelp :: "string list \<Rightarrow> 'b sess \<Rightarrow> 'b ran" where
  "metaHelp args s = (emit [EText Help] s, None)"

definition metaSyntax :: "string list \<Rightarrow> 'b sess \<Rightarrow> 'b ran" where
  "metaSyntax args s = (printf syntaxHelp s, None)"

definition metaQuit :: "string list \<Rightarrow> 'b sess \<Rightarrow> 'b ran" where
  "metaQuit args s = (s\<lparr>ss_quit := True\<rparr>, None)"

definition metaVerbose :: "string list \<Rightarrow> 'b sess \<Rightarrow> 'b ran" where
  "metaVerbose args s =
     (let s1 = s\<lparr>ss_verbose := \<not> ss_verbose s\<rparr> in (printf (''verbose: '' @ bool_str (ss_verbose s1)) s1, None))"

definition metaOut :: "string list \<Rightarrow> 'b sess \<Rightarrow> 'b ran" where
  "metaOut args s =
     (case args of
        [] \<Rightarrow> (printf (''output format: '' @ ss_format s) s, None)
      | a # _ \<Rightarrow>
          if a = FormatHuman \<or> a = FormatCSV \<or> a = FormatJSON then
            (printf (''output format: '' @ a) (s\<lparr>ss_format := a, ss_csvHeader := []\<rparr>), None)
          else (s, Some (meta_errText (UnknownFormat a))))"

definition metaTimeout :: "'b world \<Rightarrow> string list \<Rightarrow> 'b sess \<Rightarrow> 'b ran" where
  "metaTimeout w args s =
     (case args of
        [] \<Rightarrow> (printf (''timeout: '' @ w_fmtDuration w (ss_timeout s)) s, None)
      | a # _ \<Rightarrow>
          (case w_parseDuration w a of
             Inl er \<Rightarrow> (s, Some (meta_errText (BadDuration a er)))
           | Inr d \<Rightarrow>
               if d \<le> 0 then (s, Some (meta_errText TimeoutNotPositive))
               else (printf (''timeout: '' @ w_fmtDuration w d) (s\<lparr>ss_timeout := d\<rparr>), None)))"

definition metaNodes :: "'b world \<Rightarrow> string list \<Rightarrow> 'b sess \<Rightarrow> 'b ran" where
  "metaNodes w args s =
     (let (nodes, b') = backend_Nodes w (ss_backend s);
          s1 = s\<lparr>ss_backend := b', ss_nodes := nodes\<rparr>
      in if length nodes = 0 then (printf ''no nodes answered discovery'' s1, None)
         else
           (let s2 = printf (itoa (int (length nodes)) @ '' nodes'')
                  (fold (\<lambda>n. printf (''  '' @ n)) (sort nodes) s1)
            in (case b' of
                  LocalB h \<Rightarrow> s2
                | ClusterB c \<Rightarrow>
                    (let caps = Capabilities (ar_now (w_arrivals w)) c
                     in if length caps > 0 then printf caps s2 else s2), None)))"

definition metaSnapshot :: "'b world \<Rightarrow> string list \<Rightarrow> 'b sess \<Rightarrow> 'b ran" where
  "metaSnapshot w args s =
     (let fqdn = (case args of [] \<Rightarrow> '''' | a # _ \<Rightarrow> a);
          loaded = (\<lambda>sn. let s1 = s\<lparr>ss_snapshot := Some sn\<rparr>
            in printf (''loaded '' @ sn_FQDN sn @ '' from '' @ sn_Source sn @ '': '' @ dataSummary s1) s1)
      in if fqdn = ''save'' then
           (if length args < 2 then (s, Some (meta_errText SaveWhere))
            else case ss_snapshot s of
                None \<Rightarrow> (s, Some (meta_errText NothingToSave))
              | Some sn \<Rightarrow>
                (case w_save w (args ! 1) sn of
                   (disks, Some er) \<Rightarrow> (emit [EDisk disks] s, Some er)
                 | (disks, None) \<Rightarrow>
                     (printf (''saved '' @ sn_FQDN sn @ '' to '' @ args ! 1 @ '' ('' @ dataSummary s @ '')'')
                        (emit [EDisk disks] s), None)))
         else if fqdn = ''load'' then
           (if length args < 2 then (s, Some (meta_errText LoadWhat))
            else case LoadSnapshotFile (w_files w) (args ! 1) of
                Inl er \<Rightarrow> (s, Some er)
              | Inr sn \<Rightarrow> (loaded sn, None))
         else case (fqdn, ss_snapshot s) of
             ([], Some sn) \<Rightarrow>
               (printf (''loaded: '' @ sn_FQDN sn @ '' from '' @ sn_Source sn @ '' ('' @ dataSummary s @ '')'') s, None)
           | _ \<Rightarrow>
             (case backend_Snapshot w (ss_backend s) fqdn of
                Inl er \<Rightarrow> (s, Some er)
              | Inr sn \<Rightarrow> (loaded sn, None)))"

text \<open>The metadata of a local harness: what the facts say, then the overrides.\<close>

definition harnessMeta :: "'b world \<Rightarrow> Snapshot \<Rightarrow> 'b sess \<Rightarrow> gv gomap option" where
  "harnessMeta w sn s =
     (if length (ss_nodeMeta s) = 0 then None
      else
        (let base = (case Snapshot_Harness (w_files w) sn None of
               Inl er \<Rightarrow> []
             | Inr h \<Rightarrow> fold (\<lambda>(k, v) m. gm_put k v m) (e_nodeMeta (h_Engine h)) [])
         in Some (fold (\<lambda>(k, v) m. gm_put k v m) (ss_nodeMeta s) base)))"

definition goLocal :: "'b world \<Rightarrow> Snapshot \<Rightarrow> 'b sess \<Rightarrow> 'b ran" where
  "goLocal w sn s =
     (case Snapshot_Harness (w_files w) sn (harnessMeta w sn s) of
        Inl er \<Rightarrow> (s, Some er)
      | Inr h \<Rightarrow>
          (printf (''evaluating locally: '' @ h_Source h @ '' ('' @ dataSummary s @ '')'')
             (setBackend (LocalB h) s), None))"

definition metaLocal :: "'b world \<Rightarrow> string list \<Rightarrow> 'b sess \<Rightarrow> 'b ran" where
  "metaLocal w args s =
     (case args of
        a # rest \<Rightarrow>
          (case LoadSnapshotFiles (w_files w) (w_now w) a (case rest of [] \<Rightarrow> '''' | c # _ \<Rightarrow> c) '''' of
             Inl er \<Rightarrow> (s, Some er)
           | Inr sn \<Rightarrow> goLocal w sn (s\<lparr>ss_snapshot := Some sn\<rparr>))
      | [] \<Rightarrow>
          (case ss_snapshot s of
             Some sn \<Rightarrow> goLocal w sn s
           | None \<Rightarrow> (s, Some (meta_errText NoDataLoaded))))"

definition metaCluster :: "'b world \<Rightarrow> string list \<Rightarrow> 'b sess \<Rightarrow> 'b ran" where
  "metaCluster w args s =
     (if \<not> ss_hasCluster s then (s, Some (meta_errText NoCluster))
      else case w_newCluster w of
          Inl er \<Rightarrow> (s, Some er)
        | Inr c \<Rightarrow>
            (printf (''evaluating on the cluster: '' @ backend_Describe w (ClusterB c)) (setBackend (ClusterB c) s), None))"

definition noteDataSource :: "'b sess \<Rightarrow> 'b sess" where
  "noteDataSource s =
     (case ss_snapshot s of
        None \<Rightarrow> s
      | Some sn \<Rightarrow>
          if ss_format s \<noteq> FormatHuman \<or> isLocal (ss_backend s) then s
          else printf (''('' @ sn_FQDN sn @ '', from '' @ sn_Source sn @ '' - queries still run on the cluster)'') s)"

definition hintNoData :: "'b sess \<Rightarrow> 'b sess" where
  "hintNoData s =
     (if ss_hintedNoData s then printf ''no fact data loaded'' s
      else printf ''no fact data loaded - run :snapshot <fqdn>, or start with --facts/--data-dir''
             (s\<lparr>ss_hintedNoData := True\<rparr>))"

definition factData :: "'b sess \<Rightarrow> gv gomap option" where
  "factData s =
     (case ss_snapshot s of
        None \<Rightarrow> None
      | Some sn \<Rightarrow> if length (or_empty (sn_Facts sn)) = 0 then None else sn_Facts sn)"

definition metaFact :: "'b world \<Rightarrow> string list \<Rightarrow> 'b sess \<Rightarrow> 'b ran" where
  "metaFact w args s =
     (case factData s of
        None \<Rightarrow> (hintNoData s, None)
      | Some facts \<Rightarrow>
        (case args of
           [] \<Rightarrow>
             (let names = factChildren facts []
              in (printf (itoa (int (length names)) @ '' facts. :fact <name> shows a value, :fact <glob> filters'')
                    (printf (strJoin names '' '') (noteDataSource s)), None))
         | arg # _ \<Rightarrow>
             (let s1 = noteDataSource s in
              case factPath facts (strSplit arg CHR ''.'') of
                Some v \<Rightarrow> (printFacts w [(arg, v)] s1, None)
              | None \<Rightarrow>
                (let names = matchNames (w_pathMatch w) (factChildren facts []) arg
                 in if length names = 0 then (s1, Some (meta_errText (NoFactMatches arg)))
                    else (printFacts w (fold (\<lambda>n m. gm_put n (case factPath facts [n] of Some v \<Rightarrow> v | None \<Rightarrow> GNull) m)
                            names []) s1, None)))))"

definition metaClass :: "'b world \<Rightarrow> string list \<Rightarrow> 'b sess \<Rightarrow> 'b ran" where
  "metaClass w args s =
     (case ss_snapshot s of
        None \<Rightarrow> (hintNoData s, None)
      | Some sn \<Rightarrow>
        (let s1 = noteDataSource s; all = or_empty (sn_Classes sn) in
         case args of
           [] \<Rightarrow> (printClasses all s1, None)
         | a # _ \<Rightarrow>
             (let classes = matchNames (w_pathMatch w) all a
              in if length classes = 0 then (s1, Some (meta_errText (NoClassMatches a)))
                 else (printClasses classes s1, None))))"

definition metaRun :: "'b world \<Rightarrow> string \<Rightarrow> string list \<Rightarrow> 'b sess \<Rightarrow> 'b ran" where
  "metaRun w name args s =
     (if name = ''help'' then metaHelp args s
      else if name = ''syntax'' then metaSyntax args s
      else if name = ''fact'' then metaFact w args s
      else if name = ''class'' then metaClass w args s
      else if name = ''nodes'' then metaNodes w args s
      else if name = ''snapshot'' then metaSnapshot w args s
      else if name = ''local'' then metaLocal w args s
      else if name = ''cluster'' then metaCluster w args s
      else if name = ''out'' then metaOut args s
      else if name = ''timeout'' then metaTimeout w args s
      else if name = ''verbose'' then metaVerbose args s
      else metaQuit args s)"

definition runMeta :: "'b world \<Rightarrow> string \<Rightarrow> 'b sess \<Rightarrow> 'b sess" where
  "runMeta w line s =
     (let flds = strFields (trimPrefix line '':'') in
      if flds = [] then printf Help s
      else case lookupMeta (flds ! 0) of
          (None, similar) \<Rightarrow>
            if length similar > 1 then
              errorf (''ambiguous command :'' @ flds ! 0 @ '', matches '' @ strJoin similar '' '') s
            else errorf (''unknown command :'' @ flds ! 0 @ '', try :help'') s
        | (Some cmd, _) \<Rightarrow>
            (case metaRun w (mc_Name cmd) (tl flds) s of
               (s', None) \<Rightarrow> s'
             | (s', Some er) \<Rightarrow> errorf er s'))"

section \<open>The loop\<close>

definition EvalLine :: "'b world \<Rightarrow> string \<Rightarrow> 'b sess \<Rightarrow> 'b sess outcome" where
  "EvalLine w raw s =
     (let line = trimSpace raw
      in if line = [] \<or> hasPrefix line ''#'' then Ret s
         else if hasPrefix line '':'' then Ret (runMeta w line s)
         else runQuery w line s)"

text \<open>What a prompt brings; the end of the list is the end of the input.\<close>

datatype prompted = Line string | Interrupted | PromptError string

fun Run_loop :: "(prompted \<times> 'b world) list \<Rightarrow> 'b sess \<Rightarrow> ('b sess \<times> string option) outcome" where
  "Run_loop [] s =
     (if ss_quit s then Ret (s, None)
      else Ret (if ss_interactive s then emit [EText [NL]] s else s, None))"
| "Run_loop ((p, w) # ps) s =
     (if ss_quit s then Ret (s, None)
      else case p of
          PromptError er \<Rightarrow> Ret (s, Some er)
        | Interrupted \<Rightarrow>
            Run_loop ps (if ss_hintedInterrupt s then s
              else printf ''(line cleared - Ctrl-C on an empty line exits)'' (s\<lparr>ss_hintedInterrupt := True\<rparr>))
        | Line line \<Rightarrow> outcome_bind (EvalLine w line s) (Run_loop ps))"

definition Session_Run :: "'b world \<Rightarrow> (prompted \<times> 'b world) list \<Rightarrow> 'b sess \<Rightarrow> ('b sess \<times> string option) outcome" where
  "Session_Run w0 ps s =
     Run_loop ps (if ss_interactive s \<and> \<not> ss_quiet s then emit [EText (Banner w0 s)] s else s)"

definition script :: "(nat \<Rightarrow> 'b world) \<Rightarrow> string \<Rightarrow> (prompted \<times> 'b world) list" where
  "script ws content =
     (let (ls, err) = scanLines content;
          ps = map Line ls @ (case err of None \<Rightarrow> [] | Some er \<Rightarrow> [PromptError er])
      in map (\<lambda>(i, p). (p, ws i)) (enumerate 0 ps))"

definition RunScript :: "'b world \<Rightarrow> (nat \<Rightarrow> 'b world) \<Rightarrow> string \<Rightarrow> 'b sess \<Rightarrow> ('b sess \<times> string option) outcome" where
  "RunScript w0 ws content s = Session_Run w0 (script ws content) s"

section \<open>Starting a session\<close>

record 'b Config =
  co_Backend :: "'b backend option"
  co_Format :: string
  co_Timeout :: duration
  co_Snapshot :: "Snapshot option"
  co_NodeMeta :: "gv gomap"
  co_NewCluster :: bool
  co_Interactive :: bool
  co_Verbose :: bool
  co_Quiet :: bool

definition New :: "'b world \<Rightarrow> 'b Config \<Rightarrow> string + 'b sess" where
  "New w cfg =
     (case co_Backend cfg of
        None \<Rightarrow> Inl ''need a backend''
      | Some b0 \<Rightarrow>
          (let (nodes, b) = backend_Nodes w b0
           in Inr \<lparr>ss_backend = b, ss_hasCluster = co_NewCluster cfg, ss_out = [],
                ss_format = (if length (co_Format cfg) = 0 then FormatHuman else co_Format cfg),
                ss_timeout = (if co_Timeout cfg = 0 then DefaultTimeout else co_Timeout cfg),
                ss_snapshot = co_Snapshot cfg, ss_nodeMeta = co_NodeMeta cfg, ss_nodes = nodes,
                ss_interactive = co_Interactive cfg, ss_verbose = co_Verbose cfg, ss_quiet = co_Quiet cfg,
                ss_quit = False, ss_stream = \<not> isLocal b, ss_streamed = 0, ss_suppressed = 0,
                ss_hintedInterrupt = False, ss_hintedNoData = False, ss_csvHeader = [],
                ss_queries = 0, ss_matched = 0, ss_failed = 0\<rparr>))"

definition SetInteractive :: "bool \<Rightarrow> 'b sess \<Rightarrow> 'b sess" where
  "SetInteractive i s = s\<lparr>ss_interactive := i\<rparr>"

fun parseMetaArgs :: "string list \<Rightarrow> gv gomap \<Rightarrow> string + gv gomap" where
  "parseMetaArgs [] out = Inr out"
| "parseMetaArgs (arg # args) out =
     (let (key0, value, found) = strCut arg CHR ''=''; key = trimSpace key0
      in if \<not> found \<or> length key = 0 then Inl (meta_errText (BadNodeMeta arg))
         else parseMetaArgs args (gm_put key (GStr value) out))"

definition ParseNodeMeta :: "string list \<Rightarrow> string + gv gomap option" where
  "ParseNodeMeta args =
     (if length args = 0 then Inr None
      else case parseMetaArgs args [] of Inl er \<Rightarrow> Inl er | Inr m \<Rightarrow> Inr (Some m))"

section \<open>The query command\<close>

record queryFlags =
  qf_facts :: string
  qf_classes :: string
  qf_lastRun :: string
  qf_dataDir :: string
  qf_local :: bool
  qf_quiet :: bool
  qf_format :: string
  qf_timeout :: duration
  qf_snapshotNode :: string
  qf_snapshotFile :: string
  qf_nodeMeta :: "string list"
  qf_eval :: "string list"
  qf_history :: string
  qf_noHistory :: bool

definition loadLocal :: "'b world \<Rightarrow> queryFlags \<Rightarrow> string + Snapshot" where
  "loadLocal w f =
     (if length (qf_snapshotFile f) > 0 then LoadSnapshotFile (w_files w) (qf_snapshotFile f)
      else if length (qf_dataDir f) > 0 then
        LoadSnapshotFiles (w_files w) (w_now w) (qf_dataDir f @ ''/'' @ HarnessFactsFile) (qf_dataDir f @ ''/'' @ HarnessClassfile)
          (qf_dataDir f @ ''/'' @ HarnessLastRunSummaryFile)
      else if length (qf_facts f) = 0 then
        Inl ''need --facts (or --data-dir) to evaluate queries locally''
      else LoadSnapshotFiles (w_files w) (w_now w) (qf_facts f) (qf_classes f) (qf_lastRun f))"

definition historyPath :: "string \<Rightarrow> string \<Rightarrow> bool \<Rightarrow> string" where
  "historyPath defaultFile flagValue noHistory =
     (if noHistory then '''' else if length flagValue > 0 then flagValue else defaultFile)"

definition wantsLocal :: "queryFlags \<Rightarrow> bool" where
  "wantsLocal f \<longleftrightarrow> qf_local f \<or> length (qf_facts f) > 0 \<or> length (qf_classes f) > 0
     \<or> length (qf_dataDir f) > 0 \<or> length (qf_snapshotFile f) > 0"

text \<open>
  The configuration, or the error on the way to it. \<open>connected\<close> is the cluster backend the
  connection gives; nothing sets \<^verbatim>\<open>NewCluster\<close>.
\<close>

definition commandConfig ::
  "'b world \<Rightarrow> string + 'b ClusterBackend \<Rightarrow> queryFlags \<Rightarrow> gv gomap option \<Rightarrow> string + 'b Config" where
  "commandConfig w connected f nodeMeta =
     (let cfg = \<lparr>co_Backend = None, co_Format = qf_format f, co_Timeout = qf_timeout f, co_Snapshot = None,
            co_NodeMeta = or_empty nodeMeta, co_NewCluster = False, co_Interactive = False, co_Verbose = False,
            co_Quiet = qf_quiet f\<rparr>
      in if length (qf_dataDir f) > 0 \<and> (length (qf_facts f) > 0 \<or> length (qf_classes f) > 0) then
           Inl ''--data-dir can not be combined with --facts/--classes''
         else if wantsLocal f then
           (case loadLocal w f of
              Inl er \<Rightarrow> Inl er
            | Inr sn \<Rightarrow>
              (case Snapshot_Harness (w_files w) sn nodeMeta of
                 Inl er \<Rightarrow> Inl er
               | Inr h \<Rightarrow> Inr (cfg\<lparr>co_Snapshot := Some sn, co_Backend := Some (LocalB h)\<rparr>)))
         else
           (case connected of
              Inl er \<Rightarrow> Inl er
            | Inr c \<Rightarrow>
                (let cfg1 = cfg\<lparr>co_Backend := Some (ClusterB c)\<rparr>
                 in if length (qf_snapshotNode f) > 0 then
                      (case cluster_Snapshot (w_arrivals w) c (qf_snapshotNode f) of
                         Inl er \<Rightarrow> Inr cfg1
                       | Inr sn \<Rightarrow> Inr (cfg1\<lparr>co_Snapshot := Some sn\<rparr>))
                    else Inr cfg1)))"

text \<open>Where the lines come from when no expression is given: a terminal, or a pipe's content.\<close>

datatype 'b stdin = Terminal "(prompted \<times> 'b world) list" | Piped string

text \<open>The exit code and what the session put out; an error on the way goes to standard error.\<close>

definition finish :: "bool \<Rightarrow> ('b sess \<times> string option) outcome \<Rightarrow> (int \<times> 'b effect list \<times> string option) outcome" where
  "finish interactive r =
     outcome_bind r (\<lambda>(s, err).
       case err of
         Some er \<Rightarrow> Ret (2, ss_out s, Some er)
       | None \<Rightarrow> Ret (if interactive then 0 else ExitCode s, ss_out s, None))"

definition query_Query ::
  "'b world \<Rightarrow> (nat \<Rightarrow> 'b world) \<Rightarrow> string + 'b ClusterBackend \<Rightarrow> 'b stdin \<Rightarrow> queryFlags \<Rightarrow> string list
     \<Rightarrow> (int \<times> 'b effect list \<times> string option) outcome" where
  "query_Query w ws connected input f args =
     (case ParseNodeMeta (qf_nodeMeta f) of
        Inl er \<Rightarrow> Ret (2, [], Some er)
      | Inr nodeMeta \<Rightarrow>
        (let exprs = qf_eval f @ (if length args > 0 then [strJoin args '' ''] else [])
         in case commandConfig w connected f nodeMeta of
              Inl er \<Rightarrow> Ret (2, [], Some er)
            | Inr cfg \<Rightarrow>
              (case New w cfg of
                 Inl er \<Rightarrow> Ret (2, [], Some er)
               | Inr s \<Rightarrow>
                   if length exprs > 0 then finish False (RunScript w ws (strJoin exprs [NL]) s)
                   else (case input of
                       Piped content \<Rightarrow> finish False (RunScript w ws content (SetInteractive False s))
                     | Terminal ps \<Rightarrow> finish True (Session_Run w ps (SetInteractive True s))))))"

end
