(* ===== verification/Repl_Results.thy ===== *)
theory Repl_Results
  imports Repl_Session
begin

text \<open>
  What a console session reports: that every backend keeps the contract of an evaluator, and what
  follows for the JSON record, the listing of nodes, and the exit code of a script.
\<close>

section \<open>Every backend is an evaluator\<close>

definition backend_evaluator :: "'b world \<times> 'b backend \<Rightarrow> string \<Rightarrow> (NodeResult list \<times> Summary) option" where
  "backend_evaluator e q =
     (case e of (w, b) \<Rightarrow>
        (case backend_Eval w b q of Ret (sent, rs, sm, err) \<Rightarrow> Some (rs, sm) | _ \<Rightarrow> None))"

lemma backend_evaluator_local:
  "backend_evaluator (w, LocalB h) q = local_evaluator (w_zygo w, h, w_elapsed w) q"
  by (cases "local_Eval (w_zygo w) h (w_elapsed w) q")
    (auto simp: backend_evaluator_def backend_Eval_def local_evaluator_def split: prod.splits)

lemma backend_evaluator_cluster:
  "backend_evaluator (w, ClusterB c) q = cluster_evaluator (w_arrivals w, c) q"
  by (simp add: backend_evaluator_def backend_Eval_def cluster_evaluator_def split: prod.splits)

definition world_ok :: "'b world \<Rightarrow> bool" where
  "world_ok w \<longleftrightarrow> zygo_errors_ok (w_zygo w)"

interpretation ev: evaluator backend_evaluator "\<lambda>(w, b). world_ok w"
proof
  fix e :: "'b world \<times> 'b backend" and q rs sm
  obtain w b where e: "e = (w, b)" by (cases e)
  assume "case e of (w, b) \<Rightarrow> world_ok w" and a: "backend_evaluator e q = Some (rs, sm)"
  then have ok: "case (w_zygo w, h, w_elapsed w) of (z, h, d) \<Rightarrow> zygo_errors_ok z" for h :: QueryHarness
    by (simp add: e world_ok_def)
  have "distinct (map nr_FQDN rs) \<and> sm_Matched sm = int (length (filter nr_hit rs))
    \<and> sm_Errors sm = int (length (filter nr_failed rs)) \<and> int (length rs) \<le> sm_Responded sm \<and> sm_Expr sm = q"
  proof (cases b)
    case (LocalB h)
    with a have l: "local_evaluator (w_zygo w, h, w_elapsed w) q = Some (rs, sm)"
      by (simp add: e backend_evaluator_local)
    show ?thesis
      using local_ev.names [OF ok l] local_ev.matched [OF ok l] local_ev.errors [OF ok l]
        local_ev.responded [OF ok l] local_ev.expr [OF ok l] by (intro conjI)
  next
    case (ClusterB c)
    with a have l: "cluster_evaluator (w_arrivals w, c) q = Some (rs, sm)"
      by (simp add: e backend_evaluator_cluster)
    show ?thesis
      using cluster_ev.names [OF TrueI l] cluster_ev.matched [OF TrueI l] cluster_ev.errors [OF TrueI l]
        cluster_ev.responded [OF TrueI l] cluster_ev.expr [OF TrueI l] by (intro conjI)
  qed
  then show "distinct (map nr_FQDN rs)" "sm_Matched sm = int (length (filter nr_hit rs))"
    "sm_Errors sm = int (length (filter nr_failed rs))" "int (length rs) \<le> sm_Responded sm" "sm_Expr sm = q"
    by simp_all
qed

section \<open>The JSON record\<close>

lemma nr_cases: "\<not> nr_failed r \<and> \<not> nr_hit r \<longleftrightarrow> nr_Err r = [] \<and> \<not> nr_Matched r"
  by (auto simp: nr_failed_def nr_hit_def)

lemma jsonResult_fold:
  assumes "distinct (map nr_FQDN rs)" and "set (gm_keys (qj_Errors out)) \<inter> set (map nr_FQDN rs) = {}"
  shows "fold jsonResult rs out = out\<lparr>
      qj_Matched := qj_Matched out @ map nr_FQDN (filter nr_hit rs),
      qj_Unmatched := qj_Unmatched out @ map nr_FQDN (filter (\<lambda>r. \<not> nr_failed r \<and> \<not> nr_hit r) rs),
      qj_Errors := qj_Errors out @ map (\<lambda>r. (nr_FQDN r, nr_Err r)) (filter nr_failed rs)\<rparr>"
  using assms
proof (induction rs arbitrary: out)
  case (Cons r rs)
  let ?o = "jsonResult r out"
  have "nr_FQDN r \<notin> set (gm_keys (qj_Errors out))" using Cons.prems(2) by auto
  then have put: "gm_put (nr_FQDN r) v (qj_Errors out) = qj_Errors out @ [(nr_FQDN r, v)]" for v
    by (rule gm_put_new)
  have "set (gm_keys (qj_Errors ?o)) \<subseteq> insert (nr_FQDN r) (set (gm_keys (qj_Errors out)))"
    by (auto simp: jsonResult_def)
  moreover have "nr_FQDN r \<notin> set (map nr_FQDN rs)" "set (gm_keys (qj_Errors out)) \<inter> set (map nr_FQDN rs) = {}"
    using Cons.prems by auto
  ultimately have "set (gm_keys (qj_Errors ?o)) \<inter> set (map nr_FQDN rs) = {}" by blast
  with Cons.IH [of ?o] Cons.prems(1) have f: "fold jsonResult (r # rs) out = ?o\<lparr>
      qj_Matched := qj_Matched ?o @ map nr_FQDN (filter nr_hit rs),
      qj_Unmatched := qj_Unmatched ?o @ map nr_FQDN (filter (\<lambda>r. \<not> nr_failed r \<and> \<not> nr_hit r) rs),
      qj_Errors := qj_Errors ?o @ map (\<lambda>r. (nr_FQDN r, nr_Err r)) (filter nr_failed rs)\<rparr>" by simp
  show ?case
    unfolding f by (cases "nr_Err r = []"; cases "nr_Matched r")
      (simp_all add: jsonResult_def nr_hit_def [of r] nr_failed_def [of r] put)
qed simp

lemma queryRecord_parts:
  assumes "distinct (map nr_FQDN rs)"
  shows "qj_Matched (queryRecord sm rs) = sort (map nr_FQDN (filter nr_hit rs))"
    "qj_Unmatched (queryRecord sm rs) = sort (map nr_FQDN (filter (\<lambda>r. \<not> nr_failed r \<and> \<not> nr_hit r) rs))"
    "qj_Errors (queryRecord sm rs) = map (\<lambda>r. (nr_FQDN r, nr_Err r)) (filter nr_failed rs)"
    "qj_SumMatched (queryRecord sm rs) = sm_Matched sm" "qj_SumErrors (queryRecord sm rs) = sm_Errors sm"
    "qj_SumResponded (queryRecord sm rs) = sm_Responded sm" "qj_Expr (queryRecord sm rs) = sm_Expr sm"
  by (simp_all add: queryRecord_def Let_def jsonResult_fold assms)

context evaluator
begin

lemma json_record:
  assumes "env e" and "eval e q = Some (rs, sm)"
  defines "j \<equiv> queryRecord sm rs"
  shows "qj_Expr j = q \<and> int (length (qj_Matched j)) = qj_SumMatched j
    \<and> int (length (qj_Errors j)) = qj_SumErrors j
    \<and> int (length (qj_Matched j) + length (qj_Unmatched j) + length (qj_Errors j)) \<le> qj_SumResponded j
    \<and> distinct (qj_Matched j @ qj_Unmatched j @ gm_keys (qj_Errors j))
    \<and> set (qj_Matched j @ qj_Unmatched j @ gm_keys (qj_Errors j)) = set (map nr_FQDN rs)"
proof -
  note d = names [OF assms(1,2)]
  note parts = queryRecord_parts [OF d, of sm, folded j_def]
  have inj: "inj_on nr_FQDN (set rs)" using d by (simp add: distinct_map)
  have "distinct (map nr_FQDN (filter P rs))" for P using d by (rule distinct_map_filter)
  moreover have "nr_FQDN ` (set rs \<inter> {r. P r}) \<inter> nr_FQDN ` (set rs \<inter> {r. Q r}) = {}"
    if "\<And>r. P r \<Longrightarrow> \<not> Q r" for P Q
    using inj that by (auto simp: inj_on_def)
  moreover have "nr_hit r \<Longrightarrow> \<not> nr_failed r" for r by (simp add: nr_hit_def nr_failed_def)
  ultimately have "distinct (qj_Matched j @ qj_Unmatched j @ gm_keys (qj_Errors j))"
    using inj by (auto simp: parts comp_def inj_on_def)
  moreover have "set (qj_Matched j @ qj_Unmatched j @ gm_keys (qj_Errors j)) = set (map nr_FQDN rs)"
    by (auto simp: parts)
  moreover have "int (length (qj_Matched j) + length (qj_Unmatched j) + length (qj_Errors j)) = int (length rs)"
    using missed [OF assms(1,2)] matched [OF assms(1,2)] errors [OF assms(1,2)] by (simp add: parts)
  ultimately show ?thesis
    using matched [OF assms(1,2)] errors [OF assms(1,2)] responded [OF assms(1,2)] expr [OF assms(1,2)]
    by (simp add: parts)
qed

end

section \<open>What is listed\<close>

text \<open>Equal errors are one line: the texts are those reported, each with exactly its nodes.\<close>

definition groupStep :: "NodeResult \<Rightarrow> string list gomap \<Rightarrow> string list gomap" where
  "groupStep r g = (if length (nr_Err r) = 0 then g
     else gm_put (nr_Err r) ((case gm_get g (nr_Err r) of None \<Rightarrow> [] | Some ns \<Rightarrow> ns) @ [nr_FQDN r]) g)"

lemma groupStep_fold:
  assumes "gm_ok g"
  shows "gm_ok (fold groupStep rs g)
    \<and> set (gm_keys (fold groupStep rs g)) = set (gm_keys g) \<union> nr_Err ` {r \<in> set rs. nr_failed r}
    \<and> (e \<noteq> [] \<longrightarrow> (case gm_get (fold groupStep rs g) e of None \<Rightarrow> [] | Some ns \<Rightarrow> ns)
          = (case gm_get g e of None \<Rightarrow> [] | Some ns \<Rightarrow> ns) @ map nr_FQDN (filter (\<lambda>r. nr_Err r = e) rs))"
  using assms
proof (induction rs arbitrary: g)
  case (Cons r rs)
  have "gm_ok (groupStep r g)" using Cons.prems by (simp add: groupStep_def)
  note ih = Cons.IH [OF this]
  have "set (gm_keys (groupStep r g)) = set (gm_keys g) \<union> nr_Err ` {x \<in> {r}. nr_failed x}"
    by (auto simp: groupStep_def nr_failed_def)
  moreover have "(case gm_get (groupStep r g) e of None \<Rightarrow> [] | Some ns \<Rightarrow> ns)
      = (case gm_get g e of None \<Rightarrow> [] | Some ns \<Rightarrow> ns) @ (if nr_Err r = e \<and> e \<noteq> [] then [nr_FQDN r] else [])"
    by (auto simp: groupStep_def)
  moreover have "nr_Err ` {x \<in> set (r # rs). nr_failed x}
      = nr_Err ` {x \<in> {r}. nr_failed x} \<union> nr_Err ` {x \<in> set rs. nr_failed x}" by auto
  ultimately show ?case using ih by (auto simp only: fold_simps o_apply append_assoc Un_assoc filter.simps list.map if_True append.simps split: if_splits)
qed simp

lemma errorGroups_fold: "errorGroups rs = fold groupStep rs []"
  by (simp add: errorGroups_def groupStep_def [abs_def])

text \<open>Streaming: of the matches, at most the limit is printed, the rest is counted.\<close>

lemma streamResult_other:
  "ss_format (streamResult r s) = ss_format s" "ss_stream (streamResult r s) = ss_stream s"
  "ss_verbose (streamResult r s) = ss_verbose s"
  by (simp_all add: streamResult_def Let_def printf_def emit_def)

lemma streamResult_counts:
  assumes "ss_format s = FormatHuman" and "ss_stream s" and "\<not> ss_verbose s" and "ss_streamed s \<le> streamLimit"
  shows "ss_streamed (streamResult r s) + ss_suppressed (streamResult r s)
      = ss_streamed s + ss_suppressed s + (if nr_hit r then 1 else 0)
    \<and> ss_streamed (streamResult r s) \<le> streamLimit
    \<and> length (ss_out (streamResult r s)) = length (ss_out s) + nat (ss_streamed (streamResult r s) - ss_streamed s)
    \<and> ss_streamed s \<le> ss_streamed (streamResult r s)"
  using assms by (auto simp: streamResult_def Let_def printf_def emit_def nr_hit_def)

lemma streamResult_fold:
  assumes "ss_format s = FormatHuman" and "ss_stream s" and "\<not> ss_verbose s" and "ss_streamed s \<le> streamLimit"
  shows "ss_streamed (fold streamResult rs s) + ss_suppressed (fold streamResult rs s)
      = ss_streamed s + ss_suppressed s + int (length (filter nr_hit rs))
    \<and> ss_streamed (fold streamResult rs s) \<le> streamLimit
    \<and> length (ss_out (fold streamResult rs s)) = length (ss_out s) + nat (ss_streamed (fold streamResult rs s) - ss_streamed s)
    \<and> ss_streamed s \<le> ss_streamed (fold streamResult rs s)"
  using assms
proof (induction rs arbitrary: s)
  case (Cons r rs)
  note c = streamResult_counts [OF Cons.prems, of r]
  have "ss_streamed (streamResult r s) \<le> streamLimit" using c by blast
  with Cons.IH [of "streamResult r s"] Cons.prems c show ?case by (auto simp: streamResult_other)
qed simp

section \<open>The exit code\<close>

text \<open>The counters of a session; printing and meta commands leave them alone.\<close>

definition counters :: "'b sess \<Rightarrow> int \<times> int \<times> int" where
  "counters s = (ss_queries s, ss_matched s, ss_failed s)"

named_theorems counter_simps \<open>the counters after an operation\<close>

lemma counters_emit [counter_simps]: "counters (emit es s) = counters s"
  by (simp add: counters_def emit_def)

lemma counters_printf [counter_simps]: "counters (printf t s) = counters s" "counters (errorf t s) = counters s"
  by (simp_all add: printf_def errorf_def counter_simps)

lemma counters_other [counter_simps]:
  "counters (s\<lparr>ss_out := v1\<rparr>) = counters s" "counters (s\<lparr>ss_format := v2\<rparr>) = counters s"
  "counters (s\<lparr>ss_timeout := v3\<rparr>) = counters s" "counters (s\<lparr>ss_snapshot := v4\<rparr>) = counters s"
  "counters (s\<lparr>ss_nodes := v5\<rparr>) = counters s" "counters (s\<lparr>ss_verbose := v6\<rparr>) = counters s"
  "counters (s\<lparr>ss_quit := v7\<rparr>) = counters s" "counters (s\<lparr>ss_stream := v8\<rparr>) = counters s"
  "counters (s\<lparr>ss_streamed := v9\<rparr>) = counters s" "counters (s\<lparr>ss_suppressed := v10\<rparr>) = counters s"
  "counters (s\<lparr>ss_hintedInterrupt := v11\<rparr>) = counters s" "counters (s\<lparr>ss_hintedNoData := v11\<rparr>) = counters s"
  "counters (s\<lparr>ss_csvHeader := v12\<rparr>) = counters s" "counters (s\<lparr>ss_backend := v13\<rparr>) = counters s"
  by (simp_all add: counters_def)

lemma counters_fold: "(\<And>x s. counters (f x s) = counters s) \<Longrightarrow> counters (fold f xs s) = counters s"
  by (induction xs arbitrary: s) simp_all

lemma counters_fold_printf [counter_simps]: "counters (fold (\<lambda>x. printf (f x)) xs s) = counters s"
  by (rule counters_fold) (simp add: counter_simps)

lemma counters_stream [counter_simps]: "counters (fold streamResult rs s) = counters s"
  by (rule counters_fold) (simp add: streamResult_def Let_def counter_simps)

lemma counters_print [counter_simps]:
  "counters (csvHead n cols s) = counters s"
  "counters (printQueryHuman w sm rs s) = counters s"
  by (simp_all add: csvHead_def printQueryHuman_def Let_def counter_simps)

lemma counters_printQuery [counter_simps]: "counters (printQuery w sm rs s) = counters s"
  by (simp add: printQuery_def printQueryCSV_def printQueryJSON_def counter_simps)

lemma counters_printFacts [counter_simps]: "counters (printFacts w facts s) = counters s"
proof -
  have "counters (fold (factLine w) fs s) = counters s" for fs
    by (rule counters_fold) (simp add: factLine_def Let_def counter_simps split: prod.splits)
  then show ?thesis by (simp add: printFacts_def Let_def counter_simps)
qed

lemma counters_printClasses [counter_simps]: "counters (printClasses cs s) = counters s"
  by (simp add: printClasses_def counter_simps)

lemma counters_setBackend [counter_simps]: "counters (setBackend b s) = counters s"
  by (simp add: setBackend_def counter_simps)

lemma counters_hints [counter_simps]:
  "counters (noteDataSource s) = counters s" "counters (hintNoData s) = counters s"
  by (simp_all add: noteDataSource_def hintNoData_def counter_simps split: option.splits)

lemma counters_goLocal [counter_simps]: "counters (fst (goLocal w sn s)) = counters s"
  by (simp add: goLocal_def counter_simps split: sum.splits)

lemma counters_meta1:
  "counters (fst (metaOut args s)) = counters s"
  "counters (fst (metaTimeout w args s)) = counters s"
  "counters (fst (metaCluster w args s)) = counters s"
  "counters (fst (metaLocal w args s)) = counters s"
  by (simp_all add: metaOut_def metaTimeout_def metaCluster_def metaLocal_def counter_simps
      split: list.split sum.split option.split)

lemma counters_metaNodes: "counters (fst (metaNodes w args s)) = counters s"
  by (simp add: metaNodes_def Let_def counter_simps split: prod.split backend.split)

lemma counters_metaSnapshot: "counters (fst (metaSnapshot w args s)) = counters s"
  by (simp add: metaSnapshot_def Let_def counter_simps split: list.split prod.split sum.split option.split)

lemma counters_metaFact: "counters (fst (metaFact w args s)) = counters s"
  by (simp add: metaFact_def Let_def counter_simps split: list.split option.split)

lemma counters_metaClass: "counters (fst (metaClass w args s)) = counters s"
  by (simp add: metaClass_def Let_def counter_simps split: list.split option.split)

lemma counters_metaRun: "counters (fst (metaRun w name args s)) = counters s"
  by (simp add: metaRun_def counters_meta1 counters_metaNodes counters_metaSnapshot counters_metaFact
      counters_metaClass metaHelp_def metaSyntax_def metaVerbose_def metaQuit_def Let_def counter_simps)

lemma counters_runMeta [counter_simps]: "counters (runMeta w line s) = counters s"
proof -
  have "counters (case metaRun w n args s of (s', None) \<Rightarrow> s' | (s', Some er) \<Rightarrow> errorf er s') = counters s" for n args
    using counters_metaRun [of w n args s] by (auto simp: counter_simps split: prod.split option.split)
  then show ?thesis
    unfolding runMeta_def Let_def by (simp add: counter_simps split: prod.split option.split)
qed

text \<open>What a query did: a syntax error, a transport error, a node's error or no answer at all fail
  it; a node's match is a match.\<close>

definition query_failed :: "'b world \<Rightarrow> 'b backend \<Rightarrow> string \<Rightarrow> bool" where
  "query_failed w b q \<longleftrightarrow> CheckSyntax (w_zygo w) q \<noteq> None
     \<or> (case backend_Eval w b q of
          Ret (sent, rs, sm, err) \<Rightarrow> err \<noteq> None \<or> (\<exists>r \<in> set rs. nr_failed r) \<or> sm_Responded sm = 0 \<and> \<not> sm_Silent sm
        | _ \<Rightarrow> False)"

definition query_matched :: "'b world \<Rightarrow> 'b backend \<Rightarrow> string \<Rightarrow> bool" where
  "query_matched w b q \<longleftrightarrow> CheckSyntax (w_zygo w) q = None
     \<and> (case backend_Eval w b q of Ret (sent, rs, sm, err) \<Rightarrow> (\<exists>r \<in> set rs. nr_hit r) | _ \<Rightarrow> False)"

text \<open>The counters only tell zero from more: that is all the exit code reads.\<close>

definition tally :: "'b sess \<Rightarrow> bool \<times> bool \<times> bool" where
  "tally s = (ss_queries s > 0, ss_matched s > 0, ss_failed s > 0)"

definition counting :: "'b sess \<Rightarrow> bool" where
  "counting s \<longleftrightarrow> ss_queries s \<ge> 0 \<and> ss_matched s \<ge> 0 \<and> ss_failed s \<ge> 0"

lemma counters_tally:
  assumes "counters s' = counters s"
  shows "tally s' = tally s" "counting s' = counting s"
  using assms by (simp_all add: counters_def tally_def counting_def)

lemma judge_counters:
  assumes "counters s = (a, b, c)"
  shows "counters (judge sm s) = (a, b + (if sm_Matched sm > 0 then 1 else 0),
     c + (if sm_Errors sm > 0 then 1 else 0) + (if sm_Responded sm = 0 \<and> \<not> sm_Silent sm then 1 else 0))"
  using assms by (simp add: judge_def Let_def counters_def)

lemma counters_failed:
  assumes "counters s = (a, b, c)"
  shows "counters (errorf t (s\<lparr>ss_failed := ss_failed s + 1\<rparr>)) = (a, b, c + 1)"
  using assms by (simp only: counter_simps) (simp add: counters_def)

lemma counters_intro:
  assumes "counters s' = (a, b, c)" and "0 < a" and "0 \<le> b" and "0 \<le> c" and "0 < b \<longleftrightarrow> B" and "0 < c \<longleftrightarrow> C"
  shows "counting s' \<and> tally s' = (True, B, C)"
  using assms by (simp add: counters_def counting_def tally_def)

lemma runQuery_counters:
  assumes "world_ok w" and "runQuery w q s = Ret s'" and "counting s"
  shows "counting s' \<and> tally s' = (True, ss_matched s > 0 \<or> query_matched w (ss_backend s) q,
    ss_failed s > 0 \<or> query_failed w (ss_backend s) q)"
proof (cases "CheckSyntax (w_zygo w) q")
  case (Some er)
  with assms(2) have "counters s' = (ss_queries s + 1, ss_matched s, ss_failed s + 1)"
    by (auto simp: runQuery_def Let_def counter_simps) (simp add: counters_def)
  with Some assms(3) show ?thesis
    by (auto simp: counters_def tally_def counting_def query_failed_def query_matched_def)
next
  case None
  obtain sent rs sm err where e: "backend_Eval w (ss_backend s) q = Ret (sent, rs, sm, err)"
    using assms(2) None by (auto simp: runQuery_def Let_def outcome_bind_Ret_iff)
  let ?s2 = "s\<lparr>ss_queries := ss_queries s + 1, ss_streamed := 0, ss_suppressed := 0\<rparr>"
  let ?s3 = "fold streamResult rs (emit [ESent sent] ?s2)"
  have c3: "counters ?s3 = (ss_queries s + 1, ss_matched s, ss_failed s)"
    by (simp add: counter_simps) (simp add: counters_def)
  have be: "backend_evaluator (w, ss_backend s) q = Some (rs, sm)" by (simp add: backend_evaluator_def e)
  have ok: "case (w, ss_backend s) of (w, b) \<Rightarrow> world_ok w" using assms(1) by simp
  note any = ev.any_match [OF ok be] ev.any_error [OF ok be]
  have bound: "sm_Matched sm + sm_Errors sm \<le> sm_Responded sm" "0 \<le> sm_Matched sm" "0 \<le> sm_Errors sm"
    using ev.matched_bound [OF ok be] ev.matched [OF ok be] ev.errors [OF ok be] by simp_all
  show ?thesis
  proof (cases err)
    case None': None
    then have "s' = printQuery w sm rs (judge sm ?s3)"
      using assms(2) None by (simp add: runQuery_def Let_def e)
    then have "counters s' = counters (judge sm ?s3)" by (simp only: counter_simps)
    then show ?thesis
      unfolding judge_counters [OF c3]
      by (rule counters_intro)
        (use any None None' assms(3) in \<open>auto simp: counting_def query_failed_def query_matched_def e\<close>)
  next
    case (Some er)
    let ?s4 = "errorf (er @ connectionHint er) (?s3\<lparr>ss_failed := ss_failed ?s3 + 1\<rparr>)"
    have c4: "counters ?s4 = (ss_queries s + 1, ss_matched s, ss_failed s + 1)"
      by (rule counters_failed [OF c3])
    have "s' = (if sm_Responded sm = 0 then ?s4 else printQuery w sm rs (judge sm ?s4))"
      using assms(2) None Some by (simp add: runQuery_def Let_def e split: if_splits)
    then have "counters s' = (if sm_Responded sm = 0 then counters ?s4 else counters (judge sm ?s4))"
      by (simp only: counter_simps if_distrib [of counters])
    then have "counters s' = (ss_queries s + 1, ss_matched s + (if sm_Matched sm > 0 then 1 else 0),
        ss_failed s + 1 + (if sm_Errors sm > 0 then 1 else 0))"
      unfolding judge_counters [OF c4] c4 using bound by (auto split: if_splits)
    then show ?thesis
      by (rule counters_intro)
        (use any None Some assms(3) in \<open>auto simp: counting_def query_failed_def query_matched_def e\<close>)
  qed
qed

text \<open>
  The queries a session runs, with the backend each runs on: the lines that are neither empty,
  nor a comment, nor a command, up to the end of the session.
\<close>

fun queries_run :: "(prompted \<times> 'b world) list \<Rightarrow> 'b sess \<Rightarrow> ('b world \<times> 'b backend \<times> string) list" where
  "queries_run [] s = []"
| "queries_run ((p, w) # ps) s =
     (if ss_quit s then []
      else case p of
          PromptError er \<Rightarrow> []
        | Interrupted \<Rightarrow>
            queries_run ps (if ss_hintedInterrupt s then s
              else printf ''(line cleared - Ctrl-C on an empty line exits)'' (s\<lparr>ss_hintedInterrupt := True\<rparr>))
        | Line raw \<Rightarrow>
            (let q = trimSpace raw
             in (if q = [] \<or> hasPrefix q ''#'' \<or> hasPrefix q '':'' then [] else [(w, ss_backend s, q)])
                @ (case EvalLine w raw s of Ret s' \<Rightarrow> queries_run ps s' | _ \<Rightarrow> [])))"

lemma tally_emit [counter_simps]: "tally (emit es s) = tally s" "counting (emit es s) = counting s"
  by (simp_all add: emit_def tally_def counting_def)

lemma EvalLine_tally:
  assumes "world_ok w" and "EvalLine w raw s = Ret s'" and "counting s"
  shows "counting s' \<and> tally s' =
    (let q = trimSpace raw
     in if q = [] \<or> hasPrefix q ''#'' \<or> hasPrefix q '':'' then tally s
        else (True, ss_matched s > 0 \<or> query_matched w (ss_backend s) q, ss_failed s > 0 \<or> query_failed w (ss_backend s) q))"
proof -
  consider "trimSpace raw = [] \<or> hasPrefix (trimSpace raw) ''#''" "s' = s"
    | "hasPrefix (trimSpace raw) '':''" "s' = runMeta w (trimSpace raw) s"
    | "\<not> (trimSpace raw = [] \<or> hasPrefix (trimSpace raw) ''#'' \<or> hasPrefix (trimSpace raw) '':'')"
      "runQuery w (trimSpace raw) s = Ret s'"
    using assms(2) by (auto simp: EvalLine_def Let_def split: if_splits)
  then show ?thesis
  proof cases
    case 1
    with assms(3) show ?thesis by (auto simp: Let_def)
  next
    case 2
    have "counters s' = counters s" unfolding 2(2) by (rule counters_runMeta)
    with 2(1) assms(3) counters_tally [OF this] show ?thesis by (auto simp: Let_def)
  next
    case 3
    with runQuery_counters [OF assms(1) _ assms(3)] show ?thesis by (simp add: Let_def)
  qed
qed

lemma Run_loop_tally:
  assumes "\<forall>p \<in> set ps. world_ok (snd p)" and "Run_loop ps s = Ret (s', err)" and "counting s"
  shows "tally s' =
    (ss_queries s > 0 \<or> queries_run ps s \<noteq> [],
     ss_matched s > 0 \<or> (\<exists>(w, b, q) \<in> set (queries_run ps s). query_matched w b q),
     ss_failed s > 0 \<or> (\<exists>(w, b, q) \<in> set (queries_run ps s). query_failed w b q))"
  using assms
proof (induction ps s rule: Run_loop.induct)
  case (1 s)
  then have "tally s' = tally s" by (auto simp: counter_simps split: if_splits)
  then show ?case by (simp add: tally_def)
next
  case (2 p w ps s)
  show ?case
  proof (cases "ss_quit s")
    case True
    with "2.prems" show ?thesis by (simp add: tally_def)
  next
    case q: False
    show ?thesis
    proof (cases p)
      case (Line raw)
      from "2.prems"(2) q Line obtain s1 where s1: "EvalLine w raw s = Ret s1" "Run_loop ps s1 = Ret (s', err)"
        by (auto simp: outcome_bind_Ret_iff)
      have w: "world_ok w" "\<forall>p \<in> set ps. world_ok (snd p)" using "2.prems"(1) by simp_all
      note e = EvalLine_tally [OF w(1) s1(1) "2.prems"(3)]
      have IH: "tally s' =
        (ss_queries s1 > 0 \<or> queries_run ps s1 \<noteq> [],
         ss_matched s1 > 0 \<or> (\<exists>(w, b, q) \<in> set (queries_run ps s1). query_matched w b q),
         ss_failed s1 > 0 \<or> (\<exists>(w, b, q) \<in> set (queries_run ps s1). query_failed w b q))"
        using "2.IH"(1) [OF q Line w(2) s1(2)] e by blast
      have t1: "tally s1 = (ss_queries s1 > 0, ss_matched s1 > 0, ss_failed s1 > 0)" by (simp add: tally_def)
      show ?thesis
        using e t1 unfolding IH by (auto simp: q Line s1(1) Let_def tally_def)
    next
      case Interrupted
      let ?s1 = "if ss_hintedInterrupt s then s
        else printf ''(line cleared - Ctrl-C on an empty line exits)'' (s\<lparr>ss_hintedInterrupt := True\<rparr>)"
      have c: "counters ?s1 = counters s" by (simp add: counter_simps)
      then have same: "ss_queries ?s1 = ss_queries s" "ss_matched ?s1 = ss_matched s" "ss_failed ?s1 = ss_failed s"
        by (simp_all add: counters_def split: if_splits)
      have "queries_run ((p, w) # ps) s = queries_run ps ?s1" using q Interrupted by simp
      moreover have "Run_loop ps ?s1 = Ret (s', err)" using "2.prems"(2) q Interrupted by simp
      ultimately show ?thesis
        using "2.IH"(2) [OF q Interrupted _ _ counters_tally(2) [OF c, THEN iffD2, OF "2.prems"(3)]] "2.prems"(1)
        unfolding same by simp
    next
      case (PromptError er)
      with "2.prems" q show ?thesis by (simp add: tally_def)
    qed
  qed
qed

lemma ExitCode_tally:
  assumes "tally s = (a, b, c)" and "counting s"
  shows "ExitCode s = (if c then 2 else if \<not> a \<or> b then 0 else 1)"
  using assms by (auto simp: ExitCode_def tally_def counting_def)

lemma Run_loop_counting:
  "\<forall>p \<in> set ps. world_ok (snd p) \<Longrightarrow> Run_loop ps s = Ret (s', err) \<Longrightarrow> counting s \<Longrightarrow> counting s'"
proof (induction ps s rule: Run_loop.induct)
  case (1 s)
  then show ?case by (auto simp: counter_simps split: if_splits)
next
  case (2 p w ps s)
  show ?case
  proof (cases "ss_quit s")
    case True
    with "2.prems" show ?thesis by simp
  next
    case q: False
    let ?s1 = "if ss_hintedInterrupt s then s
      else printf ''(line cleared - Ctrl-C on an empty line exits)'' (s\<lparr>ss_hintedInterrupt := True\<rparr>)"
    have c: "counters ?s1 = counters s" by (simp add: counter_simps)
    show ?thesis
    proof (cases p)
      case (Line raw)
      with "2.prems"(2) q obtain s1 where s1: "EvalLine w raw s = Ret s1" "Run_loop ps s1 = Ret (s', err)"
        by (auto simp: outcome_bind_Ret_iff)
      then show ?thesis
        using "2.IH"(1) [OF q Line _ s1(2)] EvalLine_tally [OF _ s1(1) "2.prems"(3)] "2.prems"(1) by simp
    next
      case Interrupted
      have "Run_loop ps ?s1 = Ret (s', err)" using "2.prems"(2) q Interrupted by simp
      then show ?thesis
        using "2.IH"(2) [OF q Interrupted _ _ counters_tally(2) [OF c, THEN iffD2, OF "2.prems"(3)]] "2.prems"(1)
        by simp
    next
      case (PromptError er)
      with "2.prems" q show ?thesis by simp
    qed
  qed
qed

definition fresh :: "'b sess \<Rightarrow> bool" where
  "fresh s \<longleftrightarrow> ss_queries s = 0 \<and> ss_matched s = 0 \<and> ss_failed s = 0 \<and> \<not> ss_interactive s"

lemma New_fresh: "New w cfg = Inr s \<Longrightarrow> \<not> co_Interactive cfg \<Longrightarrow> fresh s"
  by (auto simp: New_def fresh_def Let_def split: option.splits prod.splits)

lemma script_worlds: "\<forall>i. world_ok (ws i) \<Longrightarrow> \<forall>p \<in> set (script ws content). world_ok (snd p)"
  by (auto simp: script_def Let_def split: prod.splits)

subsection \<open>A one-line script\<close>

definition one_line :: "string \<Rightarrow> bool" where
  "one_line q \<longleftrightarrow> q \<noteq> [] \<and> NL \<notin> set q \<and> CHR 0x0D \<notin> set q \<and> length q < maxScanTokenSize \<and> trimSpace q = q
     \<and> \<not> hasPrefix q ''#'' \<and> \<not> hasPrefix q '':''"

lemma scanLines_one:
  assumes "q \<noteq> []" and "NL \<notin> set q" and "CHR 0x0D \<notin> set q" and "length q < maxScanTokenSize"
  shows "scanLines q = ([q], None)"
proof -
  have "strSplit q NL = [q]" using assms(2) by (auto simp: strSplit_def intro: splitBy_whole)
  moreover have "dropCR q = q"
  proof -
    have "\<not> hasPrefix (rev q) [c]" if "c \<notin> set q" for c
      using that by (cases q rule: rev_cases) (auto simp: hasPrefix_def)
    then have "\<not> hasPrefix (rev q) [CHR 0x0D]" using assms(3) by blast
    then show ?thesis by (simp add: dropCR_def trimSuffix_def hasSuffix_def)
  qed
  ultimately show ?thesis using assms(1,4) by (simp add: scanLines_def raw_lines_def)
qed

lemma one_line_script: "one_line q \<Longrightarrow> script ws q = [(Line q, ws 0)]"
  by (simp add: one_line_def script_def scanLines_one)

lemma one_line_EvalLine: "one_line q \<Longrightarrow> EvalLine w q s = runQuery w q s"
  by (simp add: one_line_def EvalLine_def)

lemma ExitCode_emit: "ExitCode (emit es s) = ExitCode s"
  by (simp add: ExitCode_def emit_def)

lemma harness_Parse_error: "world_ok w \<Longrightarrow> harness_Parse (w_zygo w) h q \<noteq> Fail []"
  using engine_Parse_error unfolding world_ok_def harness_Parse_def by metis

subsection \<open>Overriding metadata\<close>

lemma gm_get_overrides:
  "gm_get (fold (\<lambda>(k, v) m. gm_put k v m) xs m) = gm_get m ++ gm_get (rev xs)"
proof (induction xs arbitrary: m)
  case (Cons x xs)
  obtain k v where "x = (k, v)" by (cases x)
  with Cons show ?case by (simp add: update_conv' map_add_upd_left fun_eq_iff map_add_def split: option.split)
qed simp

lemma gm_get_rev: "gm_ok m \<Longrightarrow> gm_get (rev m) = gm_get m"
proof (rule ext)
  fix k assume "gm_ok m"
  then have "gm_get (rev m) k = Some v \<longleftrightarrow> gm_get m k = Some v" for v
    by (simp add: map_of_eq_Some_iff rev_map [symmetric])
  then show "gm_get (rev m) k = gm_get m k" by (metis option.exhaust)
qed

lemma NodeMeta_ok: "gm_ok (NodeMetaFromFacts f)"
proof -
  have fold_ok: "gm_ok m \<Longrightarrow> gm_ok (fold (\<lambda>key meta. case gm_get facts key of Some v \<Rightarrow> gm_put key v meta | None \<Rightarrow> meta) keys m)"
    for facts m and keys :: "string list"
    by (induction keys arbitrary: m) (auto split: option.split)
  show ?thesis unfolding NodeMetaFromFacts_def Let_def by (rule fold_ok) simp
qed

lemma Snapshot_Harness_meta:
  "Snapshot_Harness fs sn meta = Inr h \<Longrightarrow>
     e_nodeMeta (h_Engine h) = (case meta of None \<Rightarrow> NodeMetaFromFacts (NewFactsFromMap (sn_Facts sn)) | Some m \<Rightarrow> m)"
  "Snapshot_Harness fs sn meta = Inr h \<Longrightarrow> \<exists>h'. Snapshot_Harness fs sn meta' = Inr h'"
  by (auto simp: Snapshot_Harness_def NewQueryHarnessOpts_def harness_facts_def harness_classes_def
      harness_lastrun_def harness_engine_def RegisterMap_def NewQueryEngine_def Let_def
      split: option.splits if_splits sum.splits)

section \<open>Properties\<close>

text \<open>
  C34: The JSON record of a query agrees with its own summary, on whatever backend: as many matched
  nodes and errors as the summary says, every node in exactly one of the three lists, and no more
  of them than responded.
\<close>

theorem json_record_matches_summary:
  assumes "world_ok w" and "backend_Eval w b q = Ret (sent, rs, sm, err)"
  shows "qj_Expr (queryRecord sm rs) = q
    \<and> int (length (qj_Matched (queryRecord sm rs))) = qj_SumMatched (queryRecord sm rs)
    \<and> int (length (qj_Errors (queryRecord sm rs))) = qj_SumErrors (queryRecord sm rs)
    \<and> int (length (qj_Matched (queryRecord sm rs)) + length (qj_Unmatched (queryRecord sm rs))
        + length (qj_Errors (queryRecord sm rs))) \<le> qj_SumResponded (queryRecord sm rs)
    \<and> distinct (qj_Matched (queryRecord sm rs) @ qj_Unmatched (queryRecord sm rs)
        @ gm_keys (qj_Errors (queryRecord sm rs)))
    \<and> set (qj_Matched (queryRecord sm rs) @ qj_Unmatched (queryRecord sm rs)
        @ gm_keys (qj_Errors (queryRecord sm rs))) = set (map nr_FQDN rs)"
proof -
  have "backend_evaluator (w, b) q = Some (rs, sm)" using assms(2) by (simp add: backend_evaluator_def)
  moreover have "case (w, b) of (w, b) \<Rightarrow> world_ok w" using assms(1) by simp
  ultimately show ?thesis by (intro ev.json_record)
qed

text \<open>
  The human output of a query on the cluster accounts for every node: of the matching nodes at
  most twenty are listed and the rest are counted as not listed, and the nodes that failed are
  grouped by error without losing or adding one.
\<close>

theorem human_output_accounts_for_nodes:
  assumes "ss_format s = FormatHuman" and "ss_stream s" and "\<not> ss_verbose s"
    and "ss_streamed s = 0" and "ss_suppressed s = 0"
  shows "ss_streamed (fold streamResult rs s) + ss_suppressed (fold streamResult rs s) = int (length (filter nr_hit rs))
    \<and> ss_streamed (fold streamResult rs s) \<le> 20
    \<and> length (ss_out (fold streamResult rs s)) = length (ss_out s) + nat (ss_streamed (fold streamResult rs s))
    \<and> length (collapseErrors rs) = card (nr_Err ` {r \<in> set rs. nr_failed r})
    \<and> (\<forall>r \<in> set rs. nr_failed r \<longrightarrow> gm_get (errorGroups rs) (nr_Err r) = Some (map nr_FQDN (filter (\<lambda>x. nr_Err x = nr_Err r) rs)))"
proof -
  have "ss_streamed s \<le> streamLimit" using assms(4) by (simp add: streamLimit_def)
  note f = streamResult_fold [OF assms(1-3) this, of rs]
  have g: "gm_ok (errorGroups rs)" "set (gm_keys (errorGroups rs)) = nr_Err ` {r \<in> set rs. nr_failed r}"
    using groupStep_fold [of "[]" rs] by (simp_all add: errorGroups_fold)
  have "gm_get (errorGroups rs) (nr_Err r) = Some (map nr_FQDN (filter (\<lambda>x. nr_Err x = nr_Err r) rs))"
    if r: "r \<in> set rs" "nr_failed r" for r
  proof -
    have "nr_Err r \<noteq> []" using r(2) by (simp add: nr_failed_def)
    then have "(case gm_get (errorGroups rs) (nr_Err r) of None \<Rightarrow> [] | Some ns \<Rightarrow> ns)
        = map nr_FQDN (filter (\<lambda>x. nr_Err x = nr_Err r) rs)"
      using groupStep_fold [of "[]" rs "nr_Err r"] by (simp add: errorGroups_fold)
    moreover have "gm_get (errorGroups rs) (nr_Err r) \<noteq> None" using r g(2) by (auto simp: gm_get_None)
    ultimately show ?thesis by auto
  qed
  moreover have "length (collapseErrors rs) = card (nr_Err ` {r \<in> set rs. nr_failed r})"
    using length_gm_keys [OF g(1)] g(2) by (simp add: collapseErrors_def)
  ultimately show ?thesis using f assms(4,5) by (simp add: streamLimit_def)
qed

text \<open>
  C6: The exit code of a script says what its queries did, through every change of backend and
  every command between them: 2 if one failed (syntax, transport, a node's error, or no answer
  where silence is no answer), otherwise 0 if one matched or none was run, otherwise 1.
\<close>

theorem exit_code_reports_the_script:
  assumes "fresh s" and "\<forall>i. world_ok (ws i)" and "RunScript w0 ws content s = Ret (s', err)"
  shows "ExitCode s' =
    (if \<exists>(w, b, q) \<in> set (queries_run (script ws content) s). query_failed w b q then 2
     else if queries_run (script ws content) s = []
          \<or> (\<exists>(w, b, q) \<in> set (queries_run (script ws content) s). query_matched w b q) then 0
     else 1)"
proof -
  have s: "counting s" "ss_queries s = 0" "ss_matched s = 0" "ss_failed s = 0" "\<not> ss_interactive s"
    using assms(1) by (simp_all add: fresh_def counting_def)
  have r: "Run_loop (script ws content) s = Ret (s', err)"
    using assms(3) s(5) by (simp add: RunScript_def Session_Run_def)
  note w = script_worlds [OF assms(2), of content]
  from ExitCode_tally [OF Run_loop_tally [OF w r s(1)] Run_loop_counting [OF w r s(1)]] s show ?thesis by simp
qed

text \<open>
  C23: A query given on the command line and evaluated locally exits with 0 exactly when the
  expression, as a filter, lets the node through; with 2 when it does not parse or does not run;
  with 1 otherwise, a value that is no boolean included.
\<close>

theorem one_shot_local_exit_code:
  assumes "ParseNodeMeta (qf_nodeMeta f) = Inr nodeMeta" and "commandConfig w connected f nodeMeta = Inr cfg"
    and "co_Backend cfg = Some (LocalB h)" and "qf_eval f = [q]" and "one_line q" and "world_ok (ws 0)"
    and "harness_Parse (w_zygo (ws 0)) h q \<noteq> Panic"
  shows "\<exists>out. query_Query w ws connected input f [] =
    Ret (if CheckSyntax (w_zygo (ws 0)) q \<noteq> None \<or> (\<exists>er. harness_Parse (w_zygo (ws 0)) h q = Fail er) then 2
         else if harness_Query (w_zygo (ws 0)) h q = Ret True then 0 else 1, out, None)"
proof -
  have "\<not> co_Interactive cfg"
    using assms(2) by (auto simp: commandConfig_def Let_def split: if_splits sum.splits)
  obtain s where s: "New w cfg = Inr s" "ss_backend s = LocalB h" "fresh s" "\<not> ss_quit s"
    using New_fresh [of w cfg] \<open>\<not> co_Interactive cfg\<close>
    by (auto simp: New_def assms(3) backend_Nodes_def Let_def)
  have c: "counting s" "ss_matched s = 0" "ss_failed s = 0" "\<not> ss_interactive s"
    using s(3) by (simp_all add: fresh_def counting_def)
  obtain s' where run: "runQuery (ws 0) q s = Ret s'"
    using assms(7) by (cases "harness_Parse (w_zygo (ws 0)) h q"; cases "CheckSyntax (w_zygo (ws 0)) q")
      (auto simp: runQuery_def Let_def s(2) backend_Eval_def local_Eval_def)
  have code: "ExitCode s' = (if CheckSyntax (w_zygo (ws 0)) q \<noteq> None \<or> (\<exists>er. harness_Parse (w_zygo (ws 0)) h q = Fail er)
      then 2 else if harness_Query (w_zygo (ws 0)) h q = Ret True then 0 else 1)"
  proof -
    have t: "tally s' = (True, query_matched (ws 0) (LocalB h) q, query_failed (ws 0) (LocalB h) q)" "counting s'"
      using runQuery_counters [OF assms(6) run c(1)] c(2,3) s(2) by simp_all
    have ne: "harness_Parse (w_zygo (ws 0)) h q \<noteq> Fail []"
      by (rule harness_Parse_error) (rule assms(6))
    have "query_failed (ws 0) (LocalB h) q \<longleftrightarrow>
        CheckSyntax (w_zygo (ws 0)) q \<noteq> None \<or> (\<exists>er. harness_Parse (w_zygo (ws 0)) h q = Fail er)"
      using ne by (cases "harness_Parse (w_zygo (ws 0)) h q")
        (auto simp: query_failed_def backend_Eval_def local_Eval_def Let_def nr_failed_def zeroSum_def)
    moreover have "query_matched (ws 0) (LocalB h) q \<longleftrightarrow>
        CheckSyntax (w_zygo (ws 0)) q = None \<and> harness_Query (w_zygo (ws 0)) h q = Ret True"
      unfolding harness_Query_True_iff using ne by (cases "harness_Parse (w_zygo (ws 0)) h q")
        (auto simp: query_matched_def backend_Eval_def local_Eval_def Let_def nr_hit_def zeroSum_def)
    ultimately show ?thesis unfolding ExitCode_tally [OF t] by auto
  qed
  have "\<exists>s2. Run_loop [] s' = Ret (s2, None) \<and> ExitCode s2 = ExitCode s'" by (simp add: ExitCode_emit)
  then obtain s2 where "RunScript w ws q s = Ret (s2, None)" "ExitCode s2 = ExitCode s'"
    using c(4) by (auto simp: RunScript_def Session_Run_def one_line_script [OF assms(5)]
        one_line_EvalLine [OF assms(5)] run s(4) simp del: Run_loop.simps(1))
  then show ?thesis
    using code by (simp add: query_Query_def assms(1,2,4) s(1) finish_def)
qed

text \<open>
  What \<^verbatim>\<open>--node-meta\<close> does depends on how the data is loaded. A local session that the command
  starts sees nothing but the entries given on the command line; after \<^verbatim>\<open>:local\<close> over the same
  snapshot it sees the metadata generated from the facts with those entries overriding it.
\<close>

theorem node_meta_flag_replaces_until_local:
  assumes "commandConfig w connected f (Some nm) = Inr cfg" and "nm \<noteq> []"
    and "wantsLocal f" and "New w cfg = Inr s"
  shows "\<exists>sn h0 s' h. ss_snapshot s = Some sn \<and> ss_backend s = LocalB h0 \<and> e_nodeMeta (h_Engine h0) = nm
    \<and> metaLocal w [] s = (s', None) \<and> ss_backend s' = LocalB h
    \<and> gm_get (e_nodeMeta (h_Engine h)) = gm_get (NodeMetaFromFacts (NewFactsFromMap (sn_Facts sn))) ++ gm_get (rev nm)"
proof -
  obtain sn h0 where sn: "Snapshot_Harness (w_files w) sn (Some nm) = Inr h0"
    "co_Snapshot cfg = Some sn" "co_Backend cfg = Some (LocalB h0)" "co_NodeMeta cfg = nm"
    using assms(1,3) by (auto simp: commandConfig_def Let_def or_empty_def split: if_splits sum.splits)
  have s: "ss_snapshot s = Some sn" "ss_backend s = LocalB h0" "ss_nodeMeta s = nm"
    using assms(4) sn by (auto simp: New_def backend_Nodes_def Let_def)
  let ?gen = "NodeMetaFromFacts (NewFactsFromMap (sn_Facts sn))"
  obtain hg where hg: "Snapshot_Harness (w_files w) sn None = Inr hg" using Snapshot_Harness_meta(2) [OF sn(1)] by blast
  have gen: "e_nodeMeta (h_Engine hg) = ?gen" using Snapshot_Harness_meta(1) [OF hg] by simp
  let ?meta = "fold (\<lambda>(k, v) m. gm_put k v m) nm (fold (\<lambda>(k, v) m. gm_put k v m) ?gen [])"
  have hm: "harnessMeta w sn s = Some ?meta" using assms(2) by (simp add: harnessMeta_def s hg gen Let_def)
  obtain h where h: "Snapshot_Harness (w_files w) sn (Some ?meta) = Inr h"
    using Snapshot_Harness_meta(2) [OF sn(1)] by blast
  have "gm_get (e_nodeMeta (h_Engine h)) = gm_get ?gen ++ gm_get (rev nm)"
    using Snapshot_Harness_meta(1) [OF h] by (simp add: gm_get_overrides gm_get_rev NodeMeta_ok)
  moreover have "e_nodeMeta (h_Engine h0) = nm" using Snapshot_Harness_meta(1) [OF sn(1)] by simp
  moreover have "\<exists>s'. metaLocal w [] s = (s', None) \<and> ss_backend s' = LocalB h"
    by (simp add: metaLocal_def s(1) goLocal_def hm h printf_def emit_def setBackend_def)
  ultimately show ?thesis using s by blast
qed

section \<open>The properties at concrete inputs\<close>

definition plainWorld :: "plainBody world" where
  "plainWorld = \<lparr>w_zygo = plainZygo, w_files = plainFiles, w_now = 0,
     w_json = \<lparr>j_nodeInfo = (\<lambda>s. Inl ''x''), j_marshal = (\<lambda>v. Inl ''x''), j_rodrev = (\<lambda>s. Inl ''x'')\<rparr>,
     w_arrivals = plainArrivals, w_elapsed = 1, w_newCluster = Inl ''x'', w_save = (\<lambda>p sn. ([], None)),
     w_yaml = (\<lambda>v. Inl ''x''), w_fmtv = (\<lambda>v. ''v''), w_pathMatch = (\<lambda>p n. None),
     w_fmtDuration = (\<lambda>d. ''4s''), w_parseDuration = (\<lambda>s. Inl ''x''), w_redactURL = (\<lambda>u. u)\<rparr>"

definition plainHarness :: QueryHarness where
  "plainHarness = \<lparr>h_Facts = plainFacts, h_Classes = plainClasses, h_LastRunSummary = zeroSummary,
     h_Engine = harness_engine [], h_FQDN = ''n1'', h_Source = ''f''\<rparr>"

definition plainConf :: "plainBody Config" where
  "plainConf = \<lparr>co_Backend = Some (ClusterB plainBackend), co_Format = FormatHuman, co_Timeout = 0, co_Snapshot = None,
     co_NodeMeta = [], co_NewCluster = False, co_Interactive = False, co_Verbose = False, co_Quiet = False\<rparr>"

lemma plain_world_ok: "world_ok plainWorld"
  by (simp add: world_ok_def zygo_errors_ok_def plainWorld_def plainZygo_def)

lemma plain_true: "harness_Parse plainZygo plainHarness ''true'' = Ret (newResult plainZygo (SexpBool True))"
  by (simp add: harness_Parse_def engine_Parse_def plainHarness_def harness_engine_def RegisterMap_def
      NewQueryEngine_def newSandbox_def plainZygo_def Let_def)

theorem json_record_matches_summary_witness:
  "\<exists>sent rs sm err. backend_Eval plainWorld (ClusterB plainBackend) ''true'' = Ret (sent, rs, sm, err)
     \<and> int (length (qj_Matched (queryRecord sm rs))) = qj_SumMatched (queryRecord sm rs)"
proof -
  obtain sent rs sm err where "cluster_Eval plainArrivals plainBackend ''true'' = (sent, rs, sm, err)"
    by (rule prod_cases4)
  then have e: "backend_Eval plainWorld (ClusterB plainBackend) ''true'' = Ret (sent, rs, sm, err)"
    by (simp add: backend_Eval_def plainWorld_def)
  from json_record_matches_summary [OF plain_world_ok e] e show ?thesis by blast
qed

lemma plain_New:
  "\<exists>s. New plainWorld plainConf = Inr s \<and> ss_format s = FormatHuman \<and> ss_stream s \<and> \<not> ss_verbose s
     \<and> ss_streamed s = 0 \<and> ss_suppressed s = 0 \<and> fresh s"
  by (simp add: New_def plainConf_def backend_Nodes_def cluster_Nodes_def Cached_def fresh_def isLocal_def
      Let_def formats split: prod.splits)

theorem human_output_accounts_for_nodes_witness:
  "\<exists>s. New plainWorld plainConf = Inr s \<and>
     ss_streamed (fold streamResult (map (\<lambda>i. \<lparr>nr_FQDN = itoa i, nr_Matched = True, nr_Err = '''', nr_RTT = 0\<rparr>) [1..30]) s) \<le> 20"
proof -
  obtain s where s: "New plainWorld plainConf = Inr s" "ss_format s = FormatHuman" "ss_stream s" "\<not> ss_verbose s"
    "ss_streamed s = 0" "ss_suppressed s = 0"
    using plain_New by blast
  from human_output_accounts_for_nodes [OF s(2-6)] s(1) show ?thesis by blast
qed

theorem exit_code_reports_the_script_witness:
  "\<exists>s s'. New plainWorld plainConf = Inr s \<and> RunScript plainWorld (\<lambda>i. plainWorld) '''' s = Ret (s', None)
     \<and> ExitCode s' = 0"
proof -
  obtain s where s: "New plainWorld plainConf = Inr s" "fresh s" using plain_New by blast
  have sc: "script (\<lambda>i. plainWorld) '''' = []"
    by (simp add: script_def scanLines_def raw_lines_def strSplit_def)
  obtain s' where r: "RunScript plainWorld (\<lambda>i. plainWorld) '''' s = Ret (s', None)"
    using s(2) by (simp add: RunScript_def Session_Run_def sc fresh_def)
  have "\<forall>i. world_ok ((\<lambda>i :: nat. plainWorld) i)" using plain_world_ok by simp
  from exit_code_reports_the_script [OF s(2) this r] have "ExitCode s' = 0" by (simp add: sc)
  with s r show ?thesis by blast
qed

definition plainFlags :: queryFlags where
  "plainFlags = \<lparr>qf_facts = ''f'', qf_classes = ''a'', qf_lastRun = '''', qf_dataDir = '''', qf_local = True,
     qf_quiet = False, qf_format = '''', qf_timeout = 0, qf_snapshotNode = '''', qf_snapshotFile = '''',
     qf_nodeMeta = [], qf_eval = [''true''], qf_history = '''', qf_noHistory = True\<rparr>"

lemma plain_loadLocal: "\<exists>sn. loadLocal plainWorld plainFlags = Inr sn \<and> sn_Facts sn = Some (Facts_Map plainFacts)"
  by (simp add: loadLocal_def plainFlags_def plainWorld_def LoadSnapshotFiles_def NewQueryHarnessOpts_def
      harness_facts_def harness_classes_def harness_lastrun_def plain_loads Let_def)

lemma plain_commandConfig:
  "\<exists>cfg h. commandConfig plainWorld connected plainFlags nm = Inr cfg \<and> co_Backend cfg = Some (LocalB h)"
proof -
  obtain sn where sn: "loadLocal plainWorld plainFlags = Inr sn" "sn_Facts sn = Some (Facts_Map plainFacts)"
    using plain_loadLocal by blast
  obtain h where "Snapshot_Harness (w_files plainWorld) sn nm = Inr h"
    by (cases "sn_Classes sn") (simp_all add: Snapshot_Harness_def NewQueryHarnessOpts_def harness_facts_def harness_classes_def
        harness_lastrun_def sn Let_def)
  moreover have "wantsLocal plainFlags" "length (qf_dataDir plainFlags) = 0"
    by (simp_all add: wantsLocal_def plainFlags_def)
  ultimately show ?thesis by (simp add: commandConfig_def sn Let_def)
qed

lemma plain_true_any:
  "harness_Parse plainZygo h ''true'' = Ret (newResult plainZygo (SexpBool True))"
  by (simp add: harness_Parse_def engine_Parse_def plainZygo_def Let_def)

theorem one_shot_local_exit_code_witness:
  "\<exists>out. query_Query plainWorld (\<lambda>i. plainWorld) (Inl ''x'') (Piped '''') plainFlags [] = Ret (0, out, None)"
proof -
  have m: "ParseNodeMeta (qf_nodeMeta plainFlags) = Inr None" by (simp add: ParseNodeMeta_def plainFlags_def)
  obtain cfg h where c: "commandConfig plainWorld (Inl ''x'') plainFlags None = Inr cfg"
    "co_Backend cfg = Some (LocalB h)"
    using plain_commandConfig by blast
  have z: "w_zygo ((\<lambda>i. plainWorld) 0) = plainZygo" by (simp add: plainWorld_def)
  have l: "one_line ''true''"
    by (simp add: one_line_def maxScanTokenSize_def trimSpace_def trimBy_def trimRightBy_def isSpace_def hasPrefix_def)
  have p: "harness_Parse (w_zygo ((\<lambda>i. plainWorld) 0)) h ''true'' \<noteq> Panic"
    unfolding z plain_true_any by simp
  have q: "harness_Query plainZygo h ''true'' = Ret True"
    by (simp add: harness_Query_True_iff plain_true_any newResult_def Let_def)
  have e: "qf_eval plainFlags = [''true'']" by (simp add: plainFlags_def)
  have s: "CheckSyntax plainZygo ''true'' = None" by (simp add: CheckSyntax_def plainZygo_def)
  from one_shot_local_exit_code [where ws = "\<lambda>i. plainWorld" and input = "Piped ''''", OF m c e l plain_world_ok p]
  show ?thesis by (simp only: z plain_true_any q s simp_thms if_False if_True outcome.distinct)
qed

theorem node_meta_flag_replaces_until_local_witness:
  "\<exists>cfg s s' h0 h. commandConfig plainWorld (Inl ''x'') plainFlags (Some [(''site'', GStr ''dc2'')]) = Inr cfg
     \<and> New plainWorld cfg = Inr s \<and> ss_backend s = LocalB h0
     \<and> gm_get (e_nodeMeta (h_Engine h0)) ''fqdn'' = None
     \<and> metaLocal plainWorld [] s = (s', None) \<and> ss_backend s' = LocalB h
     \<and> gm_get (e_nodeMeta (h_Engine h)) ''site'' = Some (GStr ''dc2'')"
proof -
  let ?nm = "[(''site'', GStr ''dc2'')]"
  obtain cfg hc where c: "commandConfig plainWorld (Inl ''x'') plainFlags (Some ?nm) = Inr cfg"
    "co_Backend cfg = Some (LocalB hc)"
    using plain_commandConfig by blast
  obtain s where s: "New plainWorld cfg = Inr s" by (simp add: New_def c(2) backend_Nodes_def)
  have "wantsLocal plainFlags" by (simp add: wantsLocal_def plainFlags_def)
  from node_meta_flag_replaces_until_local [OF c(1) not_Cons_self2 [of _ "[]"] this s] obtain sn :: Snapshot and h0 s' h where
    r: "ss_backend s = LocalB h0" "e_nodeMeta (h_Engine h0) = ?nm" "metaLocal plainWorld [] s = (s', None)"
      "ss_backend s' = LocalB h"
      "gm_get (e_nodeMeta (h_Engine h)) = gm_get (NodeMetaFromFacts (NewFactsFromMap (sn_Facts sn))) ++ gm_get (rev ?nm)"
    by blast
  have "gm_get (e_nodeMeta (h_Engine h0)) ''fqdn'' = None" unfolding r(2) by simp
  moreover have "gm_get (e_nodeMeta (h_Engine h)) ''site'' = Some (GStr ''dc2'')" unfolding r(5) by simp
  ultimately show ?thesis using c(1) s r(1,3,4) by blast
qed

end
