(* ===== verification/Fleet.thy ===== *)
theory Fleet
  imports Repl_Backend Puppet_Server
begin

text \<open>
  Client and daemons together: what a fleet of nodes (\<^verbatim>\<open>plugin/puppet/server.go\<close>) sends back to a
  request of the client (\<^verbatim>\<open>client/query.go\<close>, \<^verbatim>\<open>query/repl/eval_cluster.go\<close>), and what the client makes
  of it. There is no new code here; the broker is the relation between the events the daemons
  send and the replies that arrive: every reply arrives at least once, in any order.
\<close>

section \<open>What a fleet answers\<close>

definition fleet_replies ::
  "zygo \<Rightarrow> 'b codec \<Rightarrow> (string \<Rightarrow> gotime) \<Rightarrow> 'b event \<Rightarrow> 'b puppet list \<Rightarrow> 'b Reply list" where
  "fleet_replies z cd now ev ps =
     concat (map (\<lambda>p. map (\<lambda>(t, re). newReply cd re) (fst (HandleEvent z cd (now (p_fqdn p)) ev p))) ps)"

definition fleet_ok :: "zygo \<Rightarrow> string \<Rightarrow> 'b puppet list \<Rightarrow> bool" where
  "fleet_ok z q ps \<longleftrightarrow> distinct (map p_fqdn ps) \<and> [] \<notin> p_fqdn ` set ps
     \<and> (\<forall>p \<in> set ps. can_send p \<and> puppet_ParseBool z p q \<noteq> Panic)"

text \<open>A verdict says the same as the outcome of a node's own evaluation.\<close>

fun says :: "verdict \<Rightarrow> bool outcome \<Rightarrow> bool" where
  "says VMatched r \<longleftrightarrow> r = Ret True"
| "says VNoMatch r \<longleftrightarrow> r = Ret False"
| "says (VError er) r \<longleftrightarrow> (\<exists>e. r = Fail e)"

section \<open>From answers to verdicts\<close>

lemma first_answers_fleet:
  assumes "distinct (map p_fqdn ps)" and "[] \<notin> p_fqdn ` set ps"
    and "set rs = set (map rep ps)"
    and "\<And>p. p \<in> set ps \<Longrightarrow> who (rep p) = p_fqdn p \<and> says (verd (rep p)) (oc p)"
  shows "first_answers who verd rs f = Some v \<Longrightarrow> \<exists>p \<in> set ps. p_fqdn p = f \<and> says v (oc p)"
    and "p \<in> set ps \<Longrightarrow> \<exists>v. first_answers who verd rs (p_fqdn p) = Some v \<and> says v (oc p)"
    and "who ` set rs - {[]} = p_fqdn ` set ps"
proof -
  have entries: "(f, v) \<in> set (map (\<lambda>r. (who r, verd r)) (filter (\<lambda>r. who r \<noteq> []) rs))
      \<longleftrightarrow> (\<exists>p \<in> set ps. p_fqdn p = f \<and> verd (rep p) = v)" for f v
    using assms(2-4) by (force simp: image_iff)
  show some: "\<exists>p \<in> set ps. p_fqdn p = f \<and> says v (oc p)"
    if "first_answers who verd rs f = Some v" for f v
    using map_of_SomeD [OF that [unfolded first_answers_def], THEN entries [THEN iffD1]] assms(4) by blast
  show "\<exists>v. first_answers who verd rs (p_fqdn p) = Some v \<and> says v (oc p)" if p: "p \<in> set ps" for p
  proof -
    have "p_fqdn p \<in> fst ` set (map (\<lambda>r. (who r, verd r)) (filter (\<lambda>r. who r \<noteq> []) rs))"
      using entries [of "p_fqdn p" "verd (rep p)"] p by force
    then obtain v where v: "first_answers who verd rs (p_fqdn p) = Some v"
      unfolding first_answers_def by (metis map_of_eq_None_iff not_None_eq)
    then obtain p' where "p' \<in> set ps" "p_fqdn p' = p_fqdn p" "says v (oc p')" using some by blast
    with p assms(1) v show ?thesis by (metis distinct_map inj_on_eq_iff)
  qed
  show "who ` set rs - {[]} = p_fqdn ` set ps" using assms(2-4) by (force simp: image_iff)
qed

text \<open>The names a tally puts under each verdict, when it is that of the nodes' first answers.\<close>

lemma tally_fleet:
  assumes "\<And>f v. tag f = Some v \<Longrightarrow> \<exists>p \<in> set ps. p_fqdn p = f \<and> says v (oc p)"
    and "\<And>p. p \<in> set ps \<Longrightarrow> \<exists>v. tag (p_fqdn p) = Some v \<and> says v (oc p)"
    and "distinct (map p_fqdn ps)"
  shows "{f. tag f = Some VMatched} = p_fqdn ` {p \<in> set ps. oc p = Ret True}"
    and "{f. \<exists>er. tag f = Some (VError er)} = p_fqdn ` {p \<in> set ps. \<exists>er. oc p = Fail er}"
proof -
  have cases: "tag (p_fqdn p) = Some VMatched \<longleftrightarrow> oc p = Ret True"
    "(\<exists>er. tag (p_fqdn p) = Some (VError er)) \<longleftrightarrow> (\<exists>er. oc p = Fail er)" if p: "p \<in> set ps" for p
  proof -
    obtain v where v: "tag (p_fqdn p) = Some v" "says v (oc p)" using assms(2) [OF p] by blast
    then show "tag (p_fqdn p) = Some VMatched \<longleftrightarrow> oc p = Ret True"
      "(\<exists>er. tag (p_fqdn p) = Some (VError er)) \<longleftrightarrow> (\<exists>er. oc p = Fail er)" by (cases v; auto)+
  qed
  show "{f. tag f = Some VMatched} = p_fqdn ` {p \<in> set ps. oc p = Ret True}"
    using assms(1) cases(1) by (fastforce simp: image_iff)
  show "{f. \<exists>er. tag f = Some (VError er)} = p_fqdn ` {p \<in> set ps. \<exists>er. oc p = Fail er}"
    using assms(1) cases(2) by (fastforce simp: image_iff)
qed

section \<open>One node's answer\<close>

lemma Session_Call_sent:
  assumes "Session_Call cd n s cid req onReply st arrived = (sent, st', None)"
  shows "\<exists>ev b. sent = [(rq_Topic req, ev)] \<and> ev_Body ev = b \<and> ev_ReplyTo ev \<noteq> []
    \<and> c_encodeCmd cd \<lparr>ps_Command = rq_Command req, ps_Filter = rq_Filter req,
        ps_AnswerAlways = rq_AnswerAlways req, ps_Parameters = rq_Params req\<rparr> = Inr b"
  using assms
  by (auto simp: Session_Call_def Call_event_def split: sum.splits prod.splits option.splits)

lemma codec_ok_decode:
  assumes "codec_ok cd" and "c_encodeCmd cd c = Inr b"
  obtains r where "c_decodeCmd cd b = Inr r" "pr_Command r = ps_Command c" "pr_Filter r = ps_Filter c"
    "pr_AnswerAlways r = ps_AnswerAlways c" "params_ok cd (ps_Parameters c) (pr_Parameters r)"
proof -
  obtain b' r where "c_encodeCmd cd c = Inr b'" "c_decodeCmd cd b' = Inr r" "pr_Command r = ps_Command c"
    "pr_Filter r = ps_Filter c" "pr_AnswerAlways r = ps_AnswerAlways c"
    "params_ok cd (ps_Parameters c) (pr_Parameters r)"
    using assms(1) unfolding codec_ok_def by blast
  with assms(2) that show ?thesis by auto
qed

lemma newReply_reply_event:
  "rp_FQDN (newReply cd (reply_event p ev b t)) = p_fqdn p"
  "rp_Body (newReply cd (reply_event p ev b t)) = b"
  "rp_NodeErr (newReply cd (reply_event p ev b t)) = (if t = rpc_Error then Some (nodeError cd b) else None)"
  "rp_NoMatch (newReply cd (reply_event p ev b t)) \<longleftrightarrow> t = rpc_PuppetNoMatch"
  by (simp_all add: newReply_def reply_event_headers)

text \<open>The bytes a reply travels as.\<close>

definition carried :: "'b codec \<Rightarrow> payload \<Rightarrow> 'b \<Rightarrow> bool" where
  "carried cd body b \<longleftrightarrow> c_encode cd body = Inr b \<and> reply_ok cd body b"

lemma answer_one:
  assumes "c_decodeCmd cd (ev_Body ev) = Inr cmd" and "ev_ReplyTo ev \<noteq> []"
    and "length (strSplit (ev_RoutingKey ev) SLASH) \<ge> 2" and "codec_ok cd" and "can_send p"
    and "handleCommand z cd now cmd (strSplit (ev_RoutingKey ev) SLASH) p = (Ret (replyWith body t, er), p')"
  obtains b where "carried cd body b"
    "map (\<lambda>(t, re). newReply cd re) (fst (HandleEvent z cd now ev p)) = [newReply cd (reply_event p ev b t)]"
proof -
  obtain b where b: "c_encode cd body = Inr b" "reply_ok cd body b"
    using assms(4) unfolding codec_ok_def by blast
  then have "carried cd body b" by (simp add: carried_def)
  from that [OF this] HandleEvent_reply [OF assms(1-3) assms(6) b(1) assms(5)] show ?thesis by simp
qed

text \<open>A filtered status request and a query command, as one node answers them.\<close>

lemma filter_answer:
  assumes "c_decodeCmd cd (ev_Body ev) = Inr cmd" and "ev_ReplyTo ev \<noteq> []"
    and "length (strSplit (ev_RoutingKey ev) SLASH) \<ge> 2" and "codec_ok cd" and "can_send p"
    and "pr_Command cmd = cmd_Status" and "pr_Filter cmd = q" and "q \<noteq> []" and "pr_AnswerAlways cmd"
    and "puppet_ParseBool z p q \<noteq> Panic"
  shows "\<exists>r. map (\<lambda>(t, re). newReply cd re) (fst (HandleEvent z cd now ev p)) = [r]
    \<and> rp_FQDN r = p_fqdn p \<and> says (filter_verdict r) (puppet_ParseBool z p q)"
proof -
  let ?path = "strSplit (ev_RoutingKey ev) SLASH"
  have "pr_Filter cmd \<noteq> []" by (simp add: assms(7,8))
  note h = handleCommand_status [OF assms(6) this, of z cd now ?path p, unfolded assms(7)]
  define body where "body = (case puppet_ParseBool z p q of Ret True \<Rightarrow> PSummary (p_lastRunSummary p)
    | Ret False \<Rightarrow> PQuery (zeroQueryReply\<lparr>qr_FQDN := p_fqdn p\<rparr>) | Fail er \<Rightarrow> PMsg (server_errText (FilterMsg er)))"
  define t where "t = (case puppet_ParseBool z p q of Ret True \<Rightarrow> rpc_PuppetRunSummary
    | Ret False \<Rightarrow> rpc_PuppetNoMatch | Fail er \<Rightarrow> rpc_Error)"
  define er where "er = (case puppet_ParseBool z p q of Fail er \<Rightarrow> Some (server_errText (RemoteQuery er)) | _ \<Rightarrow> None)"
  have c: "handleCommand z cd now cmd ?path p = (Ret (replyWith body t, er), p)"
    using assms(9,10) unfolding h by (simp add: body_def t_def er_def split: outcome.split bool.split)
  have s: "says (if t = rpc_Error then VError '''' else if t = rpc_PuppetNoMatch then VNoMatch else VMatched)
      (puppet_ParseBool z p q)"
    using assms(10) rpc_distinct(1) [THEN not_sym] by (simp add: t_def split: outcome.split bool.split)
  obtain b where "map (\<lambda>(t, re). newReply cd re) (fst (HandleEvent z cd now ev p)) = [newReply cd (reply_event p ev b t)]"
    by (rule answer_one [OF assms(1-5) c])
  then show ?thesis
    using s rpc_distinct(1) [THEN not_sym] by (simp add: filter_verdict_def newReply_reply_event split: if_splits)
qed

definition reply_verdict :: "QueryReply \<Rightarrow> verdict" where
  "reply_verdict qr =
     (if qr_Error qr \<noteq> [] then VError (qr_Error qr) else if qr_Matched qr then VMatched else VNoMatch)"

lemma query_verdict_reply: "query_verdict cd r = reply_verdict (decodeQueryReply cd r)"
  by (simp add: query_verdict_def reply_verdict_def Let_def)

lemma handleQuery_says:
  assumes "pr_Filter cmd = q" and "q \<noteq> []" and "puppet_ParseBool z p q \<noteq> Panic" and "zygo_errors_ok z"
  obtains qr where "handleQuery z cmd p = Ret (replyWith (PQuery qr) rpc_PuppetQuery, None)"
    "qr_FQDN qr = p_fqdn p" "says (reply_verdict qr) (puppet_ParseBool z p q)"
proof (cases "engine_Parse z (p_query p) (p_facts p, p_classes p) q")
  case (Ret res)
  have h: "handleQuery z cmd p = Ret (replyWith (PQuery
      (if \<not> res_Boolish res then zeroQueryReply\<lparr>qr_FQDN := p_fqdn p, qr_Type := res_Type res,
         qr_Value := res_Display res, qr_Error := server_errText (NotABoolean (res_Type res))\<rparr>
       else zeroQueryReply\<lparr>qr_FQDN := p_fqdn p, qr_Matched := res_Bool res, qr_Type := res_Type res\<rparr>)) rpc_PuppetQuery, None)"
    using Ret assms(1,2) by (simp add: handleQuery_def puppet_Parse_def Let_def)
  show ?thesis
    by (rule that [OF h])
      (auto simp: zeroQueryReply_def reply_verdict_def puppet_ParseBool_def engine_ParseBool_def Ret)
next
  case (Fail er)
  have h: "handleQuery z cmd p = Ret (replyWith (PQuery
      (zeroQueryReply\<lparr>qr_FQDN := p_fqdn p, qr_Error := er\<rparr>)) rpc_PuppetQuery, None)"
    using Fail assms(1,2) by (simp add: handleQuery_def puppet_Parse_def Let_def)
  show ?thesis
    by (rule that [OF h])
      (simp_all add: zeroQueryReply_def reply_verdict_def puppet_ParseBool_def engine_ParseBool_def Fail
        engine_Parse_error [OF assms(4) Fail])
next
  case Panic
  with assms(3) show ?thesis by (simp add: puppet_ParseBool_def engine_ParseBool_def)
qed

lemma query_answer:
  assumes "c_decodeCmd cd (ev_Body ev) = Inr cmd" and "ev_ReplyTo ev \<noteq> []"
    and "length (strSplit (ev_RoutingKey ev) SLASH) \<ge> 2" and "codec_ok cd" and "can_send p"
    and "pr_Command cmd = cmd_Query" and "pr_Filter cmd = q" and "q \<noteq> []"
    and "puppet_ParseBool z p q \<noteq> Panic" and "zygo_errors_ok z" and "p_fqdn p \<noteq> []"
  shows "\<exists>r. map (\<lambda>(t, re). newReply cd re) (fst (HandleEvent z cd now ev p)) = [r]
    \<and> query_who cd r = p_fqdn p \<and> says (query_verdict cd r) (puppet_ParseBool z p q)"
proof -
  let ?path = "strSplit (ev_RoutingKey ev) SLASH"
  obtain qr where hq: "handleQuery z cmd p = Ret (replyWith (PQuery qr) rpc_PuppetQuery, None)"
    and f: "qr_FQDN qr = p_fqdn p" and v: "says (reply_verdict qr) (puppet_ParseBool z p q)"
    by (rule handleQuery_says [OF assms(7-10)])
  have "handleCommand z cd now cmd ?path p = (Ret (replyWith (PQuery qr) rpc_PuppetQuery, None), p)"
    by (simp add: handleCommand_def assms(6) hq)
  then obtain b where b: "carried cd (PQuery qr) b" "map (\<lambda>(t, re). newReply cd re) (fst (HandleEvent z cd now ev p))
      = [newReply cd (reply_event p ev b rpc_PuppetQuery)]"
    by (rule answer_one [OF assms(1-5)])
  have "decodeQueryReply cd (newReply cd (reply_event p ev b rpc_PuppetQuery)) = qr"
    using b(1) f assms(11) by (simp add: decodeQueryReply_def newReply_reply_event carried_def reply_ok_def Let_def)
  then show ?thesis using b(2) f v by (simp add: query_who_def query_verdict_reply)
qed

section \<open>The whole fleet\<close>

lemma fleet_replies_single:
  assumes "\<And>p. p \<in> set ps \<Longrightarrow>
    map (\<lambda>(t, re). newReply cd re) (fst (HandleEvent z cd (now (p_fqdn p)) ev p)) = [rep p]"
  shows "fleet_replies z cd now ev ps = map rep ps"
  using assms by (induction ps) (simp_all add: fleet_replies_def)

lemma fleet_filter:
  assumes "FilterMatch cd n s cid q arrived = ([(topic, ev)], out, called, None)" and "q \<noteq> []" and "codec_ok cd"
    and "fleet_ok z q ps" and "length (strSplit key SLASH) \<ge> 2"
    and "set arrived = set (fleet_replies z cd now (ev\<lparr>ev_RoutingKey := key\<rparr>) ps)"
  shows "set (fo_Matched out) = p_fqdn ` {p \<in> set ps. puppet_ParseBool z p q = Ret True}"
    and "set (gm_keys (fo_Errors out)) = p_fqdn ` {p \<in> set ps. \<exists>er. puppet_ParseBool z p q = Fail er}"
    and "set (filter_nodes out) = p_fqdn ` set ps"
proof -
  let ?ev = "ev\<lparr>ev_RoutingKey := key\<rparr>" and ?oc = "\<lambda>p. puppet_ParseBool z p q"
  from assms(1) obtain st where "Session_Call cd n s cid (statusRequest q) (onEvery filterReply)
      (emptyFilterOutcome, {}, []) arrived = ([(topic, ev)], st, None)"
    by (auto simp: FilterMatch_def split: prod.splits)
  from Session_Call_sent [OF this] obtain b where b: "ev_Body ev = b" "ev_ReplyTo ev \<noteq> []"
    "c_encodeCmd cd \<lparr>ps_Command = cmd_Status, ps_Filter = q, ps_AnswerAlways = True, ps_Parameters = NoParams\<rparr> = Inr b"
    by (auto simp: statusRequest_def)
  obtain cmd where cmd: "c_decodeCmd cd b = Inr cmd" "pr_Command cmd = cmd_Status" "pr_Filter cmd = q" "pr_AnswerAlways cmd"
    by (rule codec_ok_decode [OF assms(3) b(3)]) simp
  have fl: "distinct (map p_fqdn ps)" "[] \<notin> p_fqdn ` set ps" using assms(4) by (simp_all add: fleet_ok_def)
  have "\<exists>r. map (\<lambda>(t, re). newReply cd re) (fst (HandleEvent z cd (now (p_fqdn p)) ?ev p)) = [r]
      \<and> rp_FQDN r = p_fqdn p \<and> says (filter_verdict r) (?oc p)" if "p \<in> set ps" for p
    using assms(2-5) b cmd that by (intro filter_answer [where cmd = cmd]) (simp_all add: fleet_ok_def)
  then obtain rep where rep: "\<And>p. p \<in> set ps \<Longrightarrow>
      map (\<lambda>(t, re). newReply cd re) (fst (HandleEvent z cd (now (p_fqdn p)) ?ev p)) = [rep p]
      \<and> rp_FQDN (rep p) = p_fqdn p \<and> says (filter_verdict (rep p)) (?oc p)"
    by metis
  have "set arrived = set (map rep ps)" using assms(6) fleet_replies_single rep by metis
  note fa = first_answers_fleet [OF fl this, of rp_FQDN filter_verdict ?oc]
  note t = FilterMatch_tally [OF assms(1)]
  have "set (fo_Matched out) = {f. filter_tag out f = Some VMatched}"
    by (auto simp: filter_tag_def)
  also have "\<dots> = p_fqdn ` {p \<in> set ps. ?oc p = Ret True}"
    unfolding t(1) by (rule tally_fleet(1) [OF fa(1,2) fl(1)]) (use rep in auto)
  finally show "set (fo_Matched out) = p_fqdn ` {p \<in> set ps. ?oc p = Ret True}" .
  have "set (gm_keys (fo_Errors out)) = {f. \<exists>er. filter_tag out f = Some (VError er)}"
    using t(2) by (auto simp: filter_tag_def filter_nodes_def gm_get_iff intro: rev_image_eqI)
  also have "\<dots> = p_fqdn ` {p \<in> set ps. \<exists>er. ?oc p = Fail er}"
    unfolding t(1) by (rule tally_fleet(2) [OF fa(1,2) fl(1)]) (use rep in auto)
  finally show "set (gm_keys (fo_Errors out)) = p_fqdn ` {p \<in> set ps. \<exists>er. ?oc p = Fail er}" .
  show "set (filter_nodes out) = p_fqdn ` set ps"
    using t(3) fa(3) rep by simp
qed

lemma fleet_query:
  assumes "Session_Query cd n s cid q arrived = ([(topic, ev)], out, called, None)" and "q \<noteq> []" and "codec_ok cd"
    and "fleet_ok z q ps" and "zygo_errors_ok z" and "length (strSplit key SLASH) \<ge> 2"
    and "set arrived = set (fleet_replies z cd now (ev\<lparr>ev_RoutingKey := key\<rparr>) ps)"
  shows "set (qo_Matched out) = p_fqdn ` {p \<in> set ps. puppet_ParseBool z p q = Ret True}"
    and "set (gm_keys (qo_Errors out)) = p_fqdn ` {p \<in> set ps. \<exists>er. puppet_ParseBool z p q = Fail er}"
    and "set (query_nodes out) = p_fqdn ` set ps"
proof -
  let ?ev = "ev\<lparr>ev_RoutingKey := key\<rparr>" and ?oc = "\<lambda>p. puppet_ParseBool z p q"
  from assms(1) obtain st where "Session_Call cd n s cid
      \<lparr>rq_Topic = ''puppet'', rq_Command = cmd_Query, rq_Filter = q, rq_Params = NoParams, rq_AnswerAlways = False\<rparr>
      (onEvery (queryReply cd)) (emptyQueryOutcome q, {}, []) arrived = ([(topic, ev)], st, None)"
    by (auto simp: Session_Query_def split: prod.splits)
  from Session_Call_sent [OF this] obtain b where b: "ev_Body ev = b" "ev_ReplyTo ev \<noteq> []"
    "c_encodeCmd cd \<lparr>ps_Command = cmd_Query, ps_Filter = q, ps_AnswerAlways = False, ps_Parameters = NoParams\<rparr> = Inr b"
    by auto
  obtain cmd where cmd: "c_decodeCmd cd b = Inr cmd" "pr_Command cmd = cmd_Query" "pr_Filter cmd = q"
    by (rule codec_ok_decode [OF assms(3) b(3)]) simp
  have fl: "distinct (map p_fqdn ps)" "[] \<notin> p_fqdn ` set ps" using assms(4) by (simp_all add: fleet_ok_def)
  have "\<exists>r. map (\<lambda>(t, re). newReply cd re) (fst (HandleEvent z cd (now (p_fqdn p)) ?ev p)) = [r]
      \<and> query_who cd r = p_fqdn p \<and> says (query_verdict cd r) (?oc p)" if "p \<in> set ps" for p
  proof -
    have "p_fqdn p \<noteq> []" using fl(2) that by force
    then show ?thesis
      using assms(2-6) b cmd that by (intro query_answer [where cmd = cmd]) (simp_all add: fleet_ok_def)
  qed
  then obtain rep where rep: "\<And>p. p \<in> set ps \<Longrightarrow>
      map (\<lambda>(t, re). newReply cd re) (fst (HandleEvent z cd (now (p_fqdn p)) ?ev p)) = [rep p]
      \<and> query_who cd (rep p) = p_fqdn p \<and> says (query_verdict cd (rep p)) (?oc p)"
    by metis
  have "set arrived = set (map rep ps)" using assms(7) fleet_replies_single rep by metis
  note fa = first_answers_fleet [OF fl this, of "query_who cd" "query_verdict cd" ?oc]
  note t = Session_Query_tally [OF assms(1)]
  have "set (qo_Matched out) = {f. query_tag out f = Some VMatched}"
    by (auto simp: query_tag_def)
  also have "\<dots> = p_fqdn ` {p \<in> set ps. ?oc p = Ret True}"
    unfolding t(1) by (rule tally_fleet(1) [OF fa(1,2) fl(1)]) (use rep in auto)
  finally show "set (qo_Matched out) = p_fqdn ` {p \<in> set ps. ?oc p = Ret True}" .
  have "set (gm_keys (qo_Errors out)) = {f. \<exists>er. query_tag out f = Some (VError er)}"
    using t(2) by (auto simp: query_tag_def query_nodes_def gm_get_iff intro: rev_image_eqI)
  also have "\<dots> = p_fqdn ` {p \<in> set ps. \<exists>er. ?oc p = Fail er}"
    unfolding t(1) by (rule tally_fleet(2) [OF fa(1,2) fl(1)]) (use rep in auto)
  finally show "set (gm_keys (qo_Errors out)) = p_fqdn ` {p \<in> set ps. \<exists>er. ?oc p = Fail er}" .
  show "set (query_nodes out) = p_fqdn ` set ps" using t(3) fa(3) rep by simp
qed

subsection \<open>Dumps\<close>

lemma dump_answer:
  assumes "c_decodeCmd cd (ev_Body ev) = Inr cmd" and "ev_ReplyTo ev \<noteq> []" and "codec_ok cd"
    and "strSplit (ev_RoutingKey ev) SLASH = pre @ [''puppet'', target]" and "target \<noteq> ''puppet''"
    and "\<And>path. dump_decision p cmd path = DumpAnswer \<Longrightarrow>
      handleCommand z cd now cmd path p = (Ret (replyWith body t, None), p)"
    and "\<And>path. dump_decision p cmd path = DumpIgnore \<Longrightarrow>
      handleCommand z cd now cmd path p = (Ret (noReply, None), p)"
  shows "p_fqdn p \<noteq> target \<Longrightarrow> fst (HandleEvent z cd now ev p) = []"
    and "p_fqdn p = target \<Longrightarrow> can_send p \<Longrightarrow> \<exists>b. carried cd body b
      \<and> map (\<lambda>(t, re). newReply cd re) (fst (HandleEvent z cd now ev p)) = [newReply cd (reply_event p ev b t)]"
proof -
  note dd = dump_decision_unicast [OF assms(5), of p cmd pre, folded assms(4)]
  show "fst (HandleEvent z cd now ev p) = []" if "p_fqdn p \<noteq> target"
    using HandleEvent_quiet [OF assms(1) assms(7)] dd that by simp
  assume p: "p_fqdn p = target" "can_send p"
  have "length (strSplit (ev_RoutingKey ev) SLASH) \<ge> 2" by (simp add: assms(4))
  moreover have "dump_decision p cmd (strSplit (ev_RoutingKey ev) SLASH) = DumpAnswer" using dd p(1) by simp
  ultimately show "\<exists>b. carried cd body b
      \<and> map (\<lambda>(t, re). newReply cd re) (fst (HandleEvent z cd now ev p)) = [newReply cd (reply_event p ev b t)]"
    using answer_one [OF assms(1,2) _ assms(3) p(2) assms(6)] by metis
qed

lemma fleet_replies_target:
  assumes "p \<in> set ps" and "distinct (map p_fqdn ps)"
    and "\<And>p'. p' \<in> set ps \<Longrightarrow> p_fqdn p' \<noteq> p_fqdn p \<Longrightarrow> fst (HandleEvent z cd (now (p_fqdn p')) ev p') = []"
    and "map (\<lambda>(t, re). newReply cd re) (fst (HandleEvent z cd (now (p_fqdn p)) ev p)) = [r]"
  shows "fleet_replies z cd now ev ps = [r]"
proof -
  obtain xs ys where ps: "ps = xs @ p # ys" using assms(1) by (meson split_list)
  have "fst (HandleEvent z cd (now (p_fqdn p')) ev p') = []" if p': "p' \<in> set (xs @ ys)" for p'
  proof (rule assms(3))
    show "p' \<in> set ps" using p' by (auto simp: ps)
    show "p_fqdn p' \<noteq> p_fqdn p" using p' assms(2) by (auto simp: ps) (metis imageI)+
  qed
  then have none: "concat (map (\<lambda>p. map (\<lambda>(t, re). newReply cd re) (fst (HandleEvent z cd (now (p_fqdn p)) ev p))) zs) = []"
    if "set zs \<subseteq> set (xs @ ys)" for zs using that by (auto simp: concat_eq_Nil_conv)
  have "set xs \<subseteq> set (xs @ ys)" "set ys \<subseteq> set (xs @ ys)" by auto
  note n = none [OF this(1)] none [OF this(2)]
  show ?thesis
    unfolding fleet_replies_def ps map_append list.map concat_append concat.simps assms(4) n by simp
qed

lemma NewClassesFromList_cong: "or_empty l = or_empty l' \<Longrightarrow> NewClassesFromList l = NewClassesFromList l'"
  by (simp add: NewClassesFromList_def)

lemma takeDecoded_all:
  assumes "set rs = {r}" and "rp_NodeErr r = None" and "decode (rp_Body r) = Inr v"
  shows "Call_loop (takeDecoded decode) None rs = Some v"
  using assms by (cases rs) (auto simp: takeDecoded_def)

lemma Session_Call_runs:
  assumes "Call_event cd n s cid req = Inr ev" and "\<forall>t ev. zn_SendEvent n t ev = None" and "\<not> s_closed s"
  shows "Session_Call cd n s cid req f st rs = ([(rq_Topic req, ev)], Call_loop f st rs, None)"
  using assms by (auto simp: Session_Call_def Call_begin_def Call_event_def Call_send_def Let_def split: sum.splits)

lemma Call_event_parts:
  assumes "Call_event cd n s cid req = Inr ev" and "codec_ok cd"
  obtains cmd where "c_decodeCmd cd (ev_Body ev) = Inr cmd" "pr_Command cmd = rq_Command req"
    "pr_Filter cmd = rq_Filter req" "params_ok cd (rq_Params req) (pr_Parameters cmd)" "ev_ReplyTo ev \<noteq> []"
proof -
  from assms(1) obtain b where b: "c_encodeCmd cd \<lparr>ps_Command = rq_Command req, ps_Filter = rq_Filter req,
      ps_AnswerAlways = rq_AnswerAlways req, ps_Parameters = rq_Params req\<rparr> = Inr b"
    and e: "ev_Body ev = b" "ev_ReplyTo ev \<noteq> []"
    by (auto simp: Call_event_def split: sum.splits)
  show ?thesis by (rule codec_ok_decode [OF assms(2) b], rule that) (simp_all add: e)
qed

text \<open>What the fleet sends back to a dump request for one node: that node's reply, and nothing else.\<close>

lemma dump_collected:
  assumes "p \<in> set ps" and "distinct (map p_fqdn ps)" and "can_send p" and "p_fqdn p \<noteq> ''puppet''"
    and "codec_ok cd" and "c_decodeCmd cd (ev_Body ev) = Inr cmd" and "ev_ReplyTo ev \<noteq> []"
    and "strSplit (ev_RoutingKey ev) SLASH = pre @ [''puppet'', p_fqdn p]"
    and "\<And>p' path. dump_decision p' cmd path = DumpAnswer \<Longrightarrow>
      handleCommand z cd (now (p_fqdn p')) cmd path p' = (Ret (replyWith (body p') t, None), p')"
    and "\<And>p' path. dump_decision p' cmd path = DumpIgnore \<Longrightarrow>
      handleCommand z cd (now (p_fqdn p')) cmd path p' = (Ret (noReply, None), p')"
    and "set arrived = set (fleet_replies z cd now ev ps)" and "t \<noteq> rpc_Error"
    and "\<And>b. carried cd (body p) b \<Longrightarrow> decode b = Inr v"
  shows "Call_loop (takeDecoded decode) None arrived = Some v"
proof -
  have "\<exists>b. carried cd (body p) b
    \<and> map (\<lambda>(t, re). newReply cd re) (fst (HandleEvent z cd (now (p_fqdn p)) ev p)) = [newReply cd (reply_event p ev b t)]"
    using assms(9) [of p] assms(10) [of p]
    by (intro dump_answer(2) [OF assms(6,7,5,8,4) _ _ refl assms(3), where now = "now (p_fqdn p)"]) simp_all
  then obtain b where b: "carried cd (body p) b"
    "map (\<lambda>(t, re). newReply cd re) (fst (HandleEvent z cd (now (p_fqdn p)) ev p)) = [newReply cd (reply_event p ev b t)]"
    by (elim exE conjE)
  have "fleet_replies z cd now ev ps = [newReply cd (reply_event p ev b t)]"
  proof (rule fleet_replies_target [where now = now, OF assms(1,2)])
    show "map (\<lambda>(t, re). newReply cd re) (fst (HandleEvent z cd (now (p_fqdn p)) ev p)) = [newReply cd (reply_event p ev b t)]"
      by (rule b(2))
    fix p'
    show "fst (HandleEvent z cd (now (p_fqdn p')) ev p') = []" if "p_fqdn p' \<noteq> p_fqdn p"
      using that assms(9) [of p'] assms(10) [of p']
      by (intro dump_answer(1) [OF assms(6,7,5,8,4), where body = "body p'" and t = t]) simp_all
  qed
  then have "set arrived = {newReply cd (reply_event p ev b t)}" using assms(11) by simp
  then show ?thesis
    by (rule takeDecoded_all) (simp_all add: newReply_reply_event assms(12) assms(13) [OF b(1)])
qed

lemma factlist_handled:
  assumes "pr_Command cmd = cmd_FactList" and "pr_Filter cmd = []" and "params_ok cd (FactListParams []) (pr_Parameters cmd)"
  shows "dump_decision p cmd path = DumpAnswer \<Longrightarrow> handleCommand z cd now cmd path p =
      (Ret (replyWith (PFacts \<lparr>fr_FQDN = p_fqdn p, fr_TS = now, fr_Count = int (length (Facts_Map (p_facts p))),
        fr_Facts = Some (Facts_Map (p_facts p))\<rparr>) rpc_PuppetFacts, None), p)"
    and "dump_decision p cmd path = DumpIgnore \<Longrightarrow> handleCommand z cd now cmd path p = (Ret (noReply, None), p)"
  using assms(3)
  by (auto simp: handleCommand_factlist [OF assms(1,2)] handleFactList_def params_ok_def factSubset_def Let_def)

lemma classlist_handled:
  assumes "pr_Command cmd = cmd_ClassList" and "pr_Filter cmd = []"
  shows "dump_decision p cmd path = DumpAnswer \<Longrightarrow> handleCommand z cd now cmd path p =
      (Ret (replyWith (PClasses \<lparr>cr_FQDN = p_fqdn p, cr_TS = now, cr_Classes = Some (Classes_List (p_classes p))\<rparr>)
        rpc_PuppetClasses, None), p)"
    and "dump_decision p cmd path = DumpIgnore \<Longrightarrow> handleCommand z cd now cmd path p = (Ret (noReply, None), p)"
  by (simp_all add: handleCommand_classlist [OF assms] handleClassList_def)

text \<open>A node after any number of refreshes is still wired the way it was built.\<close>

lemma NewPuppet_refreshed:
  assumes "NewPuppet fs inPath localExec node fqdn meta cfg = Inr p0" and "p = fold backgroundWorker fss p0"
  shows "p_query p = harness_engine meta" and "p_fqdn p = fqdn" and "classes_wf (cl_classes (p_classes p))"
proof -
  have step: "p_query (backgroundWorker fs p) = p_query p \<and> p_fqdn (backgroundWorker fs p) = p_fqdn p
    \<and> (classes_wf (cl_classes (p_classes p)) \<longrightarrow> classes_wf (cl_classes (p_classes (backgroundWorker fs p))))" for fs p
    by (auto simp: backgroundWorker_def updateClasses_def updateFacts_def updateLastRunSummary_def
        intro: UpdateClasses_wf split: sum.splits)
  have "p_query p = p_query p0 \<and> p_fqdn p = p_fqdn p0
    \<and> (classes_wf (cl_classes (p_classes p0)) \<longrightarrow> classes_wf (cl_classes (p_classes p)))"
    unfolding assms(2) by (induction fss arbitrary: p0) (use step in auto)
  moreover have "p_query p0 = harness_engine meta \<and> p_fqdn p0 = fqdn \<and> classes_wf (cl_classes (p_classes p0))"
    using assms(1)
    by (auto simp: NewPuppet_def Let_def harness_engine_def LoadClasses_def intro!: UpdateClasses_wf split: if_splits)
  ultimately show "p_query p = harness_engine meta" "p_fqdn p = fqdn" "classes_wf (cl_classes (p_classes p))"
    by simp_all
qed

section \<open>Properties\<close>

text \<open>
  C8: A console query finds exactly the nodes it describes. Whichever way it is sent and in
  whatever order and however often the answers arrive, the nodes it reports as matching are those
  whose own engine evaluates the expression to true, the nodes it reports as failed are those
  where the evaluation fails, and every node of the fleet is counted as having responded.
\<close>

theorem cluster_query_finds_matching_nodes:
  assumes "cluster_Eval ar b q = ([(topic, ev)], rs, sm, None)" and "q \<noteq> []" and "codec_ok (cb_codec b)"
    and "fleet_ok z q ps" and "zygo_errors_ok z" and "length (strSplit key SLASH) \<ge> 2"
    and "set (map (newReply (cb_codec b)) (ar_events ar))
      = set (fleet_replies z (cb_codec b) now (ev\<lparr>ev_RoutingKey := key\<rparr>) ps)"
  shows "nr_FQDN ` {r \<in> set rs. nr_hit r} = p_fqdn ` {p \<in> set ps. puppet_ParseBool z p q = Ret True}
    \<and> nr_FQDN ` {r \<in> set rs. nr_failed r} = p_fqdn ` {p \<in> set ps. \<exists>er. puppet_ParseBool z p q = Fail er}
    \<and> sm_Responded sm = int (length ps)"
proof -
  have sets: "nr_FQDN ` {r \<in> set rs. P r} = set (map nr_FQDN (filter P rs))" for P by auto
  have len: "length ps = card (p_fqdn ` set ps)"
    using assms(4) distinct_card [of "map p_fqdn ps"] by (simp add: fleet_ok_def)
  show ?thesis
  proof (cases "QueryCapable (ar_now ar) b")
    case True
    with assms(1) have e: "evalQuery ar b q = ([(topic, ev)], rs, sm, None)" by (simp add: cluster_Eval_def)
    from e obtain out called where c: "Session_Query (cb_codec b) (cb_node b) (cb_session b) (ar_cid ar) q
        (map (newReply (cb_codec b)) (ar_events ar)) = ([(topic, ev)], out, called, None)"
      and p: "map nr_FQDN (filter nr_hit rs) = qo_Matched out" "map nr_FQDN (filter nr_failed rs) = gm_keys (qo_Errors out)"
      "distinct (query_nodes out)" "sm_Responded sm = int (length (query_nodes out))"
      by (rule evalQuery_parts)
    note f = fleet_query [OF c assms(2-6), of now, OF assms(7)]
    show ?thesis unfolding sets p len using f distinct_card [OF p(3)] by simp
  next
    case False
    with assms(1) have e: "evalFilter ar b q = ([(topic, ev)], rs, sm, None)" by (simp add: cluster_Eval_def)
    from e obtain out called where c: "FilterMatch (cb_codec b) (cb_node b) (cb_session b) (ar_cid ar) q
        (map (newReply (cb_codec b)) (ar_events ar)) = ([(topic, ev)], out, called, None)"
      and p: "map nr_FQDN (filter nr_hit rs) = fo_Matched out" "map nr_FQDN (filter nr_failed rs) = gm_keys (fo_Errors out)"
      "distinct (filter_nodes out)" "sm_Responded sm = int (length (filter_nodes out))"
      by (rule evalFilter_parts)
    note f = fleet_filter [OF c assms(2-4,6), of now, OF assms(7)]
    show ?thesis unfolding sets p len using f distinct_card [OF p(3)] by simp
  qed
qed


section \<open>The properties at concrete inputs\<close>

lemma plain_call_event:
  "\<exists>ev. Call_event plainCodec (plainNode ''c'') plainSession cid req = Inr ev"
  by (simp add: Call_event_def plainCodec_def)

lemma plain_sends: "\<forall>t ev. zn_SendEvent (plainNode n) t ev = None" "\<not> s_closed plainSession"
  by (simp_all add: plainNode_def plainSession_def)

lemma plain_ParseBool: "puppet_ParseBool plainZygo (plainPuppet n) ''true'' = Ret True"
  by (simp add: puppet_ParseBool_def engine_ParseBool_def engine_Parse_def plainPuppet_def
      harness_engine_def RegisterMap_def NewQueryEngine_def newSandbox_def plainZygo_def newResult_def Let_def)

definition plainFleet :: "plainBody puppet list" where
  "plainFleet = [plainPuppet ''n1'', plainPuppet ''n2'']"

lemma plain_fleet_ok: "fleet_ok plainZygo ''true'' plainFleet"
  by (simp add: fleet_ok_def plainFleet_def plain_ParseBool plain_can_send) (simp add: plainPuppet_def)

theorem cluster_query_finds_matching_nodes_witness:
  "\<exists>ar topic ev rs sm. cluster_Eval ar plainBackend ''true'' = ([(topic, ev)], rs, sm, None)
     \<and> nr_FQDN ` {r \<in> set rs. nr_hit r} = {''n1'', ''n2''} \<and> sm_Responded sm = 2"
proof -
  obtain ev where ev: "Call_event plainCodec (plainNode ''c'') plainSession ''1'' (statusRequest ''true'') = Inr ev"
    using plain_call_event by blast
  let ?ev = "ev\<lparr>ev_RoutingKey := ''rv/puppet''\<rparr>"
  define ar where "ar = plainArrivals\<lparr>ar_events :=
    concat (map (\<lambda>p. map snd (fst (HandleEvent plainZygo plainCodec 0 ?ev p))) plainFleet)\<rparr>"
  have arrived: "map (newReply plainCodec) (ar_events ar) = fleet_replies plainZygo plainCodec (\<lambda>f. 0) ?ev plainFleet"
    by (simp add: ar_def fleet_replies_def map_concat comp_def case_prod_unfold)
  have "\<not> QueryCapable (ar_now ar) plainBackend"
    by (simp add: QueryCapable_iff cluster_Discovery_def plainBackend_def watcher_Discovery_def emptyDiscovery_def)
  moreover obtain out seen called where
      fl: "foldl filterReply (emptyFilterOutcome, {}, []) (map (newReply plainCodec) (ar_events ar)) = (out, seen, called)"
    by (rule prod_cases3)
  have "FilterMatch plainCodec (plainNode ''c'') plainSession ''1'' ''true''
      (map (newReply plainCodec) (ar_events ar)) = ([(''puppet'', ev)], out, called, None)"
    unfolding FilterMatch_def Session_Call_runs [OF ev plain_sends] by (simp add: statusRequest_def fl)
  ultimately obtain rs sm where h: "cluster_Eval ar plainBackend ''true'' = ([(''puppet'', ev)], rs, sm, None)"
    by (simp add: cluster_Eval_def evalFilter_def plainBackend_def ar_def plainArrivals_def)
  have "{p \<in> set plainFleet. puppet_ParseBool plainZygo p ''true'' = Ret True} = set plainFleet"
    by (auto simp: plainFleet_def plain_ParseBool)
  moreover have "p_fqdn ` set plainFleet = {''n1'', ''n2''}" by (simp add: plainFleet_def plainPuppet_def)
  moreover have "cb_codec plainBackend = plainCodec" by (simp add: plainBackend_def)
  moreover have "zygo_errors_ok plainZygo" by (simp add: zygo_errors_ok_def plainZygo_def)
  ultimately show ?thesis
    using cluster_query_finds_matching_nodes [OF h, of plainZygo plainFleet "''rv/puppet''" "\<lambda>f. 0"] h
      plain_fleet_ok plainCodec_ok arrived
    by (auto simp: strSplit_def plainFleet_def)
qed


end
