(* ===== verification/Listener.thy ===== *)
theory Listener
  imports Fence Ipset Puppet_Server
begin

text \<open>
  The loops of \<^verbatim>\<open>daemon/daemon.go\<close> that keep a plugin on its topics: subscribe, hand every event
  to the plugin, and when the subscription ends wait and start over. They are the same for
  puppet, fencing and ipsets, so they are modelled once over a handler; the locales say what a
  handler owes, and are interpreted on the three plugins.
\<close>

section \<open>Subscriptions\<close>

text \<open>
  What one attempt to subscribe comes to: an error, the events until the channel is closed, or
  the events so far on a channel that stays open.
\<close>

datatype 'e subscription = Refused string | Closed "'e list" | Lasting "'e list"

datatype monState = StateOk | StateCritical | StateUnknown

text \<open>What a loop does, seen from outside.\<close>

datatype 'a served = Monitor monState string | Waited duration | Did 'a

section \<open>The loop\<close>

text \<open>A handler returns its actions and the new state; no state: the process died of a panic.\<close>

type_synonym ('e, 's, 'a) handler = "'e \<Rightarrow> 's \<Rightarrow> 'a list \<times> 's option"

fun serve_events :: "('e, 's, 'a) handler \<Rightarrow> 'e list \<Rightarrow> 's \<Rightarrow> 'a list \<times> 's option" where
  "serve_events handle [] s = ([], Some s)"
| "serve_events handle (e # es) s =
     (case handle e s of
        (acts, None) \<Rightarrow> (acts, None)
      | (acts, Some s') \<Rightarrow> (let (rest, r) = serve_events handle es s' in (acts @ rest, r)))"

fun serve_rounds ::
  "('e, 's, 'a) handler \<Rightarrow> duration \<Rightarrow> string \<Rightarrow> 'e subscription list \<Rightarrow> 's \<Rightarrow> 'a served list \<times> 's option" where
  "serve_rounds handle wait exitMsg [] s = ([], Some s)"
| "serve_rounds handle wait exitMsg (Refused er # rounds) s =
     (let (rest, r) = serve_rounds handle wait exitMsg rounds s
      in (Monitor StateCritical er # Waited wait # rest, r))"
| "serve_rounds handle wait exitMsg (Closed es # rounds) s =
     (case serve_events handle es s of
        (acts, None) \<Rightarrow> (Monitor StateOk ''ok'' # map Did acts, None)
      | (acts, Some s') \<Rightarrow>
          (let (rest, r) = serve_rounds handle wait exitMsg rounds s'
           in (Monitor StateOk ''ok'' # map Did acts @ Monitor StateCritical exitMsg # Waited (10 * second) # rest, r)))"
| "serve_rounds handle wait exitMsg (Lasting es # rounds) s =
     (let (acts, r) = serve_events handle es s in (Monitor StateOk ''ok'' # map Did acts, r))"

section \<open>The three plugins\<close>

definition puppet_handler ::
  "zygo \<Rightarrow> 'b codec \<Rightarrow> (gotime \<times> 'b event, 'b puppet, string \<times> 'b event) handler" where
  "puppet_handler z cd e p =
     (case HandleEvent z cd (fst e) (snd e) p of
        (sent, Panic, p') \<Rightarrow> (sent, None)
      | (sent, _, p') \<Rightarrow> (sent, Some p'))"

definition puppet_serve ::
  "zygo \<Rightarrow> 'b codec \<Rightarrow> (gotime \<times> 'b event) subscription list \<Rightarrow> 'b puppet
     \<Rightarrow> (string \<times> 'b event) served list \<times> 'b puppet option" where
  "puppet_serve z cd rounds p =
     serve_rounds (puppet_handler z cd) (10 * second) ''channel for puppet server disconnected'' rounds p"

text \<open>
  The fencing plugin keeps no state; its listener announces itself with the same words. The keys are
  pressed by a goroutine that runs beside the handler, and beyond it into the next events: what it does
  is listed with the command it belongs to, before the handler's own actions, and not in the order of
  time (\<open>fence_trace\<close> has that).
\<close>

definition fence_handler ::
  "'b fenceCodec \<Rightarrow> 'b zn \<Rightarrow> FenceConfig \<Rightarrow> string \<Rightarrow> string \<Rightarrow> (char \<Rightarrow> sysrq_write)
     \<Rightarrow> ('b event, unit, 'b fence_action) handler" where
  "fence_handler cd n cfg fqdn hostFQDN trigger e u =
     (let (self, handler, err) = fence_HandleEvent cd n cfg fqdn hostFQDN trigger e in (self @ handler, Some ()))"

definition fence_serve ::
  "'b fenceCodec \<Rightarrow> 'b zn \<Rightarrow> FenceConfig \<Rightarrow> string \<Rightarrow> string \<Rightarrow> (char \<Rightarrow> sysrq_write) \<Rightarrow> 'b event subscription list
     \<Rightarrow> 'b fence_action served list \<times> unit option" where
  "fence_serve cd n cfg fqdn hostFQDN trigger rounds =
     serve_rounds (fence_handler cd n cfg fqdn hostFQDN trigger) (10 * second)
       ''channel for puppet server disconnected'' rounds ()"

definition ipset_handler ::
  "'s ipsetLib \<Rightarrow> ('b \<Rightarrow> IPsetCmd \<times> string option) \<Rightarrow> ('b event, 's option gomap, unit) handler" where
  "ipset_handler lib decode e sets =
     (case ipset_event lib decode e sets of Ret sets' \<Rightarrow> ([], Some sets') | _ \<Rightarrow> ([], None))"

definition ipset_serve ::
  "'s ipsetLib \<Rightarrow> ('b \<Rightarrow> IPsetCmd \<times> string option) \<Rightarrow> string \<Rightarrow> 'b event subscription list \<Rightarrow> 's option gomap
     \<Rightarrow> unit served list \<times> 's option gomap option" where
  "ipset_serve lib decode setname rounds sets =
     serve_rounds (ipset_handler lib decode) (60 * second)
       (''listen err: channel closed['' @ setname @ '']'') rounds sets"

section \<open>What a handler owes\<close>

text \<open>Every event a listener came to handle, over all its subscriptions.\<close>

fun delivered :: "'e subscription list \<Rightarrow> 'e list" where
  "delivered [] = []"
| "delivered (Refused er # rounds) = delivered rounds"
| "delivered (Closed es # rounds) = es @ delivered rounds"
| "delivered (Lasting es # rounds) = es"

fun actions :: "'a served list \<Rightarrow> 'a list" where
  "actions [] = []"
| "actions (Did a # xs) = a # actions xs"
| "actions (x # xs) = actions xs"

lemma actions_append [simp]: "actions (xs @ ys) = actions xs @ actions ys"
  by (induction xs rule: actions.induct) simp_all

lemma actions_Did [simp]: "actions (map Did acts) = acts"
  by (induction acts) simp_all

lemma serve_events_append:
  "serve_events handle (xs @ ys) s =
     (case serve_events handle xs s of
        (acts, None) \<Rightarrow> (acts, None)
      | (acts, Some s') \<Rightarrow> (let (rest, r) = serve_events handle ys s' in (acts @ rest, r)))"
  by (induction xs arbitrary: s) (auto split: prod.splits option.splits)

text \<open>A listener that keeps losing its subscription does what one that never does would do.\<close>

lemma serve_rounds_events:
  "(actions (fst (serve_rounds handle wait exitMsg rounds s)), snd (serve_rounds handle wait exitMsg rounds s))
     = serve_events handle (delivered rounds) s"
  by (induction handle wait exitMsg rounds s rule: serve_rounds.induct)
    (auto simp: serve_events_append split: prod.splits option.splits)

locale event_listener =
  fixes handle :: "('e, 's, 'a) handler" and inv :: "'s \<Rightarrow> bool" and act_ok :: "'e \<Rightarrow> 'a \<Rightarrow> bool"
  assumes handle_inv: "inv s \<Longrightarrow> handle e s = (acts, Some s') \<Longrightarrow> inv s'"
    and handle_act: "inv s \<Longrightarrow> a \<in> set (fst (handle e s)) \<Longrightarrow> act_ok e a"
begin

lemma serve_events_inv:
  "inv s \<Longrightarrow> serve_events handle es s = (acts, r) \<Longrightarrow>
     (\<forall>a \<in> set acts. \<exists>e \<in> set es. act_ok e a) \<and> (case r of None \<Rightarrow> True | Some s' \<Rightarrow> inv s')"
proof (induction es arbitrary: s acts r)
  case Nil
  then show ?case by auto
next
  case (Cons e es)
  obtain acts1 r1 where h: "handle e s = (acts1, r1)" by (cases "handle e s")
  have ok: "\<forall>a \<in> set acts1. act_ok e a" using handle_act [OF Cons.prems(1), of _ e] h by simp
  show ?case
  proof (cases r1)
    case None
    then show ?thesis using Cons.prems(2) h ok by auto
  next
    case (Some s1)
    obtain rest r2 where t: "serve_events handle es s1 = (rest, r2)" by (cases "serve_events handle es s1")
    have "inv s1" using handle_inv [OF Cons.prems(1)] h Some by simp
    from Cons.IH [OF this t] show ?thesis using Cons.prems(2) h Some t ok by auto
  qed
qed

lemma serve_rounds_inv:
  assumes "inv s" and "serve_rounds handle wait exitMsg rounds s = (out, r)"
  shows "(\<forall>a \<in> set (actions out). \<exists>e \<in> set (delivered rounds). act_ok e a)
    \<and> (case r of None \<Rightarrow> True | Some s' \<Rightarrow> inv s')"
  using serve_rounds_events [of handle wait exitMsg rounds s]
    serve_events_inv [OF assms(1), of "delivered rounds" "actions out" r] assms(2)
  by simp

end

text \<open>A handler that never panics makes a listener that never stops.\<close>

locale robust_listener = event_listener +
  assumes handle_lives: "inv s \<Longrightarrow> snd (handle e s) \<noteq> None"
begin

lemma serve_events_lives: "inv s \<Longrightarrow> \<exists>acts s'. serve_events handle es s = (acts, Some s') \<and> inv s'"
proof (induction es arbitrary: s)
  case Nil
  then show ?case by simp
next
  case (Cons e es)
  obtain acts r where h: "handle e s = (acts, r)" by (cases "handle e s")
  with handle_lives [OF Cons.prems, of e] obtain s1 where s1: "handle e s = (acts, Some s1)" by auto
  from Cons.IH [OF handle_inv [OF Cons.prems s1]] show ?case using s1 by auto
qed

lemma serve_rounds_lives: "inv s \<Longrightarrow> \<exists>out s'. serve_rounds handle wait exitMsg rounds s = (out, Some s') \<and> inv s'"
  using serve_rounds_events [of handle wait exitMsg rounds s] serve_events_lives [of s "delivered rounds"]
  by (cases "serve_rounds handle wait exitMsg rounds s") auto

end

section \<open>The plugins owe it\<close>

lemma runCommand_state:
  "snd (runCommand cd now cmd path p) = p \<or> (\<exists>opt. snd (runCommand cd now cmd path p) = snd (puppet_Run opt p))"
proof (cases "pr_Command cmd = cmd_Run")
  case True
  show ?thesis
  proof (cases "c_decodeRun cd (pr_Parameters cmd)")
    case (Inr opts)
    have "cmd_Run \<noteq> cmd_Status" by (simp add: cmd_Run_def cmd_Status_def)
    then have "snd (runCommand cd now cmd path p) = (if addressedToMe p path then snd (puppet_Run opts p) else p)"
      using True Inr by (simp add: runCommand_def Let_def split: prod.splits)
    then show ?thesis by auto
  qed (use True in \<open>simp add: runCommand_def cmd_Run_def cmd_Status_def\<close>)
qed (simp add: runCommand_def split: sum.splits)

lemma handleCommand_state:
  "snd (handleCommand z cd now cmd path p) = p
    \<or> snd (handleCommand z cd now cmd path p) = snd (runCommand cd now cmd path p)"
  by (simp add: handleCommand_def split: outcome.splits bool.splits)

lemma HandleEvent_state:
  "snd (snd (HandleEvent z cd now ev p)) = p
    \<or> (\<exists>cmd path. snd (snd (HandleEvent z cd now ev p)) = snd (handleCommand z cd now cmd path p))"
proof (cases "c_decodeCmd cd (ev_Body ev)")
  case (Inr cmd)
  let ?path = "strSplit (ev_RoutingKey ev) SLASH"
  obtain r p' where h: "handleCommand z cd now cmd ?path p = (r, p')" by (rule prod.exhaust)
  have "snd (snd (HandleEvent z cd now ev p)) = p \<or> snd (snd (HandleEvent z cd now ev p)) = p'"
    using Inr h by (simp add: HandleEvent_def Let_def split: outcome.splits prod.splits bool.splits option.splits sum.splits)
  moreover have "p' = snd (handleCommand z cd now cmd ?path p)" by (simp add: h)
  ultimately show ?thesis by blast
qed (simp add: HandleEvent_def)

lemma HandleEvent_reachable:
  assumes "puppet_reachable p" and "HandleEvent z cd now ev p = (sent, r, p')"
  shows "puppet_reachable p'"
proof -
  have request: "puppet_reachable (snd (puppet_Run opt p))" for opt by (rule pre_step [OF assms(1) ps_request])
  have "puppet_reachable (snd (runCommand cd now cmd path p))" for cmd path
    using runCommand_state [of cd now cmd path p] assms(1) request by metis
  then have "puppet_reachable (snd (handleCommand z cd now cmd path p))" for cmd path
    using handleCommand_state [of z cd now cmd path p] assms(1) by metis
  then show ?thesis using HandleEvent_state [of z cd now ev p] assms by auto
qed

interpretation puppet_plugin: event_listener "puppet_handler z cd" puppet_reachable
  "\<lambda>e (topic, re). topic = ev_ReplyTo (snd e) \<and> topic \<noteq> []" for z and cd :: "'b codec"
proof
  fix p p' :: "'b puppet" and e acts
  assume p: "puppet_reachable p" and h: "puppet_handler z cd e p = (acts, Some p')"
  then obtain r where "HandleEvent z cd (fst e) (snd e) p = (acts, r, p')"
    by (auto simp: puppet_handler_def split: prod.splits outcome.splits)
  then show "puppet_reachable p'" by (rule HandleEvent_reachable [OF p])
next
  fix p :: "'b puppet" and e a
  assume a: "a \<in> set (fst (puppet_handler z cd e p))"
  obtain sent r p' where h: "HandleEvent z cd (fst e) (snd e) p = (sent, r, p')" by (rule prod_cases3)
  have "a \<in> set sent" using a h by (cases r) (simp_all add: puppet_handler_def)
  then show "case a of (topic, re) \<Rightarrow> topic = ev_ReplyTo (snd e) \<and> topic \<noteq> []"
    using HandleEvent_cases [OF h] by auto
qed

lemma sysrq_keys_member: "Sysrq c \<in> set acts \<Longrightarrow> c \<in> set (sysrq_keys acts)"
  by (induction acts) (auto simp: sysrq_keys_def)

lemma fence_handler_key:
  assumes "Sysrq c \<in> set (fst (fence_handler cd n cfg fqdn host trigger ev u))"
  shows "sysrq_keys (fst (fence_HandleEvent cd n cfg fqdn host trigger ev)) \<noteq> []"
proof -
  obtain self handler err where h: "fence_HandleEvent cd n cfg fqdn host trigger ev = (self, handler, err)"
    by (rule prod_cases3)
  have "Sysrq c \<in> set self \<or> Sysrq c \<in> set handler" using assms by (simp add: fence_handler_def h)
  then show ?thesis
    using sysrq_keys_member [of c] fence_handler_keys [of cd n cfg fqdn host trigger ev] by (fastforce simp: h)
qed

interpretation fence_plugin: robust_listener "fence_handler cd n cfg fqdn host trigger" "\<lambda>_. True"
  "\<lambda>ev a. (\<exists>c. a = Sysrq c) \<longrightarrow> (\<exists>cmd. x_decodeCmd cd (ev_Body ev) = Inr cmd \<and> fk_Command cmd = cmdFence
     \<and> \<not> fc_Fake cfg \<and> fence_authorised cfg fqdn ev cmd)" for cd :: "'b fenceCodec" and n cfg fqdn host trigger
proof (unfold_locales, intro TrueI, intro impI)
  fix ev :: "'b event" and s and a
  assume a: "a \<in> set (fst (fence_handler cd n cfg fqdn host trigger ev s))" and "\<exists>c. a = Sysrq c"
  then have "sysrq_keys (fst (fence_HandleEvent cd n cfg fqdn host trigger ev)) \<noteq> []" using fence_handler_key by blast
  then show "\<exists>cmd. x_decodeCmd cd (ev_Body ev) = Inr cmd \<and> fk_Command cmd = cmdFence \<and> \<not> fc_Fake cfg
      \<and> fence_authorised cfg fqdn ev cmd"
    using fence_HandleEvent_keys by blast
next
  fix ev :: "'b event" and s
  show "snd (fence_handler cd n cfg fqdn host trigger ev s) \<noteq> None"
    by (simp add: fence_handler_def split: prod.split)
qed

interpretation ipset_plugin: robust_listener "ipset_handler lib decode"
  "\<lambda>sets. sets_ready sets \<and> fst ` set sets = names" "\<lambda>e a. True"
  for lib :: "'s ipsetLib" and decode :: "'b \<Rightarrow> IPsetCmd \<times> string option" and names
proof (unfold_locales)
  fix sets sets' :: "'s option gomap" and e :: "'b event" and acts
  assume s: "sets_ready sets \<and> fst ` set sets = names" and h: "ipset_handler lib decode e sets = (acts, Some sets')"
  from ipset_event_ready [of sets lib decode e] s obtain sets1 where
    "ipset_event lib decode e sets = Ret sets1" "sets_ready sets1" "fst ` set sets1 = names" by auto
  with h show "sets_ready sets' \<and> fst ` set sets' = names" by (simp add: ipset_handler_def)
next
  fix sets :: "'s option gomap" and e :: "'b event"
  assume "sets_ready sets \<and> fst ` set sets = names"
  with ipset_event_ready [of sets lib decode e] show "snd (ipset_handler lib decode e sets) \<noteq> None"
    by (auto simp: ipset_handler_def)
qed simp

section \<open>Properties\<close>

lemma puppet_events:
  "serve_events (puppet_handler z cd) evs p =
     (case EventListener z cd evs p of
        (sent, Panic, p') \<Rightarrow> (sent, None)
      | (sent, _, p') \<Rightarrow> (sent, Some p'))"
proof (induction evs arbitrary: p)
  case (Cons e evs)
  obtain now ev where e: "e = (now, ev)" by (rule prod.exhaust)
  have "puppet_handler z cd e p = (case HandleEvent z cd now ev p of
      (sent, Panic, p') \<Rightarrow> (sent, None) | (sent, _, p') \<Rightarrow> (sent, Some p'))"
    by (simp add: puppet_handler_def e)
  then show ?case by (auto simp: e Cons.IH Let_def split: prod.splits outcome.splits)
qed simp

lemma ipset_events:
  "snd (serve_events (ipset_handler lib decode) evs sets) =
     (case ipset_EventListener lib decode evs sets of Ret sets' \<Rightarrow> Some sets' | _ \<Rightarrow> None)"
proof (induction evs arbitrary: sets)
  case Nil
  then show ?case by simp
next
  case (Cons ev evs)
  show ?case
  proof (cases "ipset_event lib decode ev sets")
    case (Ret sets1)
    then show ?thesis using Cons.IH [of sets1] by (simp add: ipset_handler_def split: prod.splits)
  qed (simp_all add: ipset_handler_def)
qed

text \<open>The loops around the plugins' own listeners: what is done is what these do with all that was delivered.\<close>

lemma serve_is_EventListener:
  "(actions (fst (puppet_serve z cd rounds p)), snd (puppet_serve z cd rounds p))
     = (case EventListener z cd (delivered rounds) p of
          (sent, Panic, p') \<Rightarrow> (sent, None)
        | (sent, _, p') \<Rightarrow> (sent, Some p'))"
  "snd (ipset_serve lib decode name irounds sets)
     = (case ipset_EventListener lib decode (delivered irounds) sets of Ret sets' \<Rightarrow> Some sets' | _ \<Rightarrow> None)"
  using serve_rounds_events [of "puppet_handler z cd" "10 * second" "''channel for puppet server disconnected''" rounds p]
    serve_rounds_events [of "ipset_handler lib decode" "60 * second" "''listen err: channel closed['' @ name @ '']''"
      irounds sets]
    ipset_events [of lib decode "delivered irounds" sets]
  unfolding puppet_serve_def ipset_serve_def puppet_events
  by (auto simp: prod_eq_iff)

text \<open>
  C9: Through every sequence of subscriptions the plugins keep their promises: the puppet module
  stays in a reachable state with at most one run and answers only on the reply topics of what it
  was sent; a sysrq key is pressed only if an authorised fence command arrived; and a started
  ipset manager survives every command with exactly the sets it was configured with.
\<close>

theorem plugins_keep_promises_across_reconnects:
  assumes "puppet_reachable p" and "puppet_serve z cd rounds p = (out, Some p')"
    and "fence_serve fc n cfg fqdn host trigger frounds = (fout, fr)"
    and "NewIPSets lib icfg = Inr sets"
  shows "puppet_reachable p' \<and> length (p_runners p') \<le> 1
    \<and> (\<forall>(topic, re) \<in> set (actions out). \<exists>e \<in> set (delivered rounds). topic = ev_ReplyTo (snd e) \<and> topic \<noteq> [])
    \<and> (\<forall>c. Sysrq c \<in> set (actions fout) \<longrightarrow> (\<exists>ev \<in> set (delivered frounds). \<exists>cmd.
         x_decodeCmd fc (ev_Body ev) = Inr cmd \<and> fk_Command cmd = cmdFence \<and> \<not> fc_Fake cfg
         \<and> fence_authorised cfg fqdn ev cmd))
    \<and> (\<exists>sets'. snd (ipset_serve lib decode name irounds sets) = Some sets'
         \<and> set (gm_keys sets') = (is_Name \<circ> snd) ` set icfg - {''''})"
proof (intro conjI)
  note pu = puppet_plugin.serve_rounds_inv [OF assms(1) assms(2) [unfolded puppet_serve_def]]
  show "puppet_reachable p'" using pu by simp
  then show "length (p_runners p') \<le> 1" using puppet_reachable_inv [of p'] by (simp add: run_inv_def)
  show "\<forall>(topic, re) \<in> set (actions out). \<exists>e \<in> set (delivered rounds). topic = ev_ReplyTo (snd e) \<and> topic \<noteq> []"
    using pu by fast
next
  note fe = fence_plugin.serve_rounds_inv [OF TrueI assms(3) [unfolded fence_serve_def]]
  then show "\<forall>c. Sysrq c \<in> set (actions fout) \<longrightarrow> (\<exists>ev \<in> set (delivered frounds). \<exists>cmd.
      x_decodeCmd fc (ev_Body ev) = Inr cmd \<and> fk_Command cmd = cmdFence \<and> \<not> fc_Fake cfg
      \<and> fence_authorised cfg fqdn ev cmd)"
    by blast
next
  have "sets_ready sets \<and> fst ` set sets = (is_Name \<circ> snd) ` set icfg - {''''}"
    by (rule NewIPSets_ready [OF assms(4)])
  from ipset_plugin.serve_rounds_lives [OF this, of lib decode "60 * second"
      "''listen err: channel closed['' @ name @ '']''" irounds]
  show "\<exists>sets'. snd (ipset_serve lib decode name irounds sets) = Some sets'
      \<and> set (gm_keys sets') = (is_Name \<circ> snd) ` set icfg - {''''}"
    by (auto simp: ipset_serve_def)
qed

section \<open>The properties at concrete inputs\<close>

theorem plugins_keep_promises_across_reconnects_witness:
  "\<forall>c. Sysrq c \<notin> set (actions (fst (fence_serve plainFenceCodec plainFenceNode plainFenceConfig ''n2'' ''n2''
       (\<lambda>c. Written) [Refused ''no'', Lasting [plainFenceEvent]])))"
proof -
  let ?rounds = "[Refused ''no'', Lasting [plainFenceEvent]]"
  have r: "puppet_reachable (plainPuppet ''n1'')" by (rule plain_idle)
  have p: "puppet_serve plainZygo plainCodec [] (plainPuppet ''n1'') = ([], Some (plainPuppet ''n1''))"
    by (simp add: puppet_serve_def)
  have i: "NewIPSets plainLib plainSets = Inr [(''ban'', Some [])]"
    by (simp add: NewIPSets_def plainSets_def plainLib_def ipset_make_def)
  obtain fout fr where f: "fence_serve plainFenceCodec plainFenceNode plainFenceConfig ''n2'' ''n2''
       (\<lambda>c. Written) ?rounds = (fout, fr)" by (rule prod.exhaust)
  have "\<not> (\<exists>cmd. x_decodeCmd plainFenceCodec (ev_Body plainFenceEvent) = Inr cmd
      \<and> fence_authorised plainFenceConfig ''n2'' plainFenceEvent cmd)"
    by (auto simp: plainFenceCodec_def plainFenceEvent_def fence_authorised_def plainFenceConfig_def)
  then show ?thesis
    using plugins_keep_promises_across_reconnects [OF r p f i] by (simp add: f) blast
qed

end
