(* ===== verification/Network.thy ===== *)
theory Network
  imports Fleet Listener
begin

text \<open>
  The running system: any number of client sessions (\<^verbatim>\<open>client/session.go\<close>), clients that trigger runs
  (\<^verbatim>\<open>client/puppet.go\<close>) and daemons (\<^verbatim>\<open>plugin/puppet/server.go\<close>, \<^verbatim>\<open>run.go\<close>) on one broker. There is no new
  code here; the operations are those of the components, and the theory says in which order they
  may happen: any. The broker may lose, delay, reorder and repeat what is published, but it does not
  make anything up, and gives a message only to those whose subscription covers its topic. The
  expression engine of each evaluation is one of a set, so that a random draw of an expression can
  fall differently in every evaluation.
\<close>

section \<open>Topics\<close>

text \<open>A reply channel and the command topic are subscribed together with all that is below them.\<close>

definition under :: "string \<Rightarrow> string \<Rightarrow> bool" where
  "under path t \<longleftrightarrow> t = path \<or> hasPrefix t (path @ [SLASH])"

definition apart :: "string \<Rightarrow> string \<Rightarrow> bool" where
  "apart p q \<longleftrightarrow> \<not> under p q \<and> \<not> under q p"

lemma apart_sym: "apart p q \<longleftrightarrow> apart q p"
  by (auto simp: apart_def)

lemma under_refl [simp]: "under p p"
  by (simp add: under_def)

lemma under_below [simp]: "under p (p @ SLASH # t)"
  using hasPrefix_append [of "p @ [SLASH]" t] by (simp add: under_def)

lemma under_iff: "under p t \<longleftrightarrow> (\<exists>a. t = p @ a \<and> (a = [] \<or> hd a = SLASH))"
proof -
  have "(\<exists>r. t = p @ SLASH # r) \<longleftrightarrow> (\<exists>a. t = p @ a \<and> a \<noteq> [] \<and> hd a = SLASH)"
    by (metis list.collapse list.sel(1) list.discI)
  then show ?thesis unfolding under_def hasPrefix_iff by auto
qed

lemma under_linear:
  assumes "under p t" and "under q t"
  shows "under p q \<or> under q p"
proof -
  obtain a where a: "t = p @ a" "a = [] \<or> hd a = SLASH" using assms(1) unfolding under_iff by blast
  obtain b where b: "t = q @ b" "b = [] \<or> hd b = SLASH" using assms(2) unfolding under_iff by blast
  have e: "p @ a = q @ b" and h: "a = [] \<or> hd a = SLASH" "b = [] \<or> hd b = SLASH" using a b by simp_all
  from e obtain us where "p = q @ us \<and> us @ a = b \<or> p @ us = q \<and> a = us @ b"
    by (auto simp: append_eq_append_conv2)
  then show ?thesis using h by (cases us) (auto simp: under_iff)
qed

lemma apart_under: "\<lbrakk>apart p q; under p t\<rbrakk> \<Longrightarrow> \<not> under q t"
  using under_linear [of p t q] by (auto simp: apart_def)

section \<open>The state\<close>

text \<open>
  What was done on the way is kept beside the state: the requests of the sessions with the call they
  belong to, the requests for runs with their reply path, and what the daemons served, in which state
  and at what time.
\<close>

record 'b request_log =
  rl_session :: nat
  rl_call :: nat
  rl_cid :: string
  rl_req :: Request
  rl_event :: "'b event"

record 'b run_log =
  rn_path :: string
  rn_topic :: string
  rn_event :: "'b event"

record 'b service =
  sv_daemon :: nat
  sv_zygo :: zygo
  sv_now :: gotime
  sv_state :: "'b puppet"
  sv_topic :: string
  sv_request :: "'b event"
  sv_out :: "(string \<times> 'b event) list"

record 'b net =
  nt_sessions :: "'b session list"
  nt_daemons :: "'b puppet list"
  nt_sent :: "(string \<times> 'b event) list"
  nt_paths :: "string list"
  nt_requests :: "'b request_log list"
  nt_runs :: "'b run_log list"
  nt_served :: "'b service list"

definition client_sent :: "'b net \<Rightarrow> (string \<times> 'b event) list" where
  "client_sent w = map (\<lambda>rl. (rq_Topic (rl_req rl), rl_event rl)) (nt_requests w)
     @ map (\<lambda>rn. (rn_topic rn, rn_event rn)) (nt_runs w)"

text \<open>Reply paths are drawn by the messaging library; none is below another or below the commands.\<close>

definition fresh_path :: "string \<Rightarrow> 'b net \<Rightarrow> bool" where
  "fresh_path path w \<longleftrightarrow> list_all (apart path) (''puppet'' # nt_paths w)"

text \<open>A received event carries the full topic it came on, which the library puts together.\<close>

definition arrive :: "(string \<Rightarrow> string) \<Rightarrow> string \<Rightarrow> 'b event \<Rightarrow> 'b event" where
  "arrive key t ev = ev\<lparr>ev_RoutingKey := key t\<rparr>"

definition sv_event :: "(string \<Rightarrow> string) \<Rightarrow> 'b service \<Rightarrow> 'b event" where
  "sv_event key sv = arrive key (sv_topic sv) (sv_request sv)"

text \<open>What a daemon does by itself: its runner moves or returns, its data is refreshed.\<close>

inductive daemon_alone :: "'b puppet \<Rightarrow> 'b puppet \<Rightarrow> bool" where
  da_move: "p_runners p = xs @ r # ys \<Longrightarrow> runner_move r (p_runStatus p) (Some r') st sp \<Longrightarrow>
     daemon_alone p (p\<lparr>p_runners := xs @ r' # ys, p_runStatus := st, p_spawned := p_spawned p @ sp\<rparr>)"
| da_return: "p_runners p = xs @ r # ys \<Longrightarrow> runner_move r (p_runStatus p) None st sp \<Longrightarrow>
     daemon_alone p (p\<lparr>p_runners := xs @ ys, p_runStatus := st, p_spawned := p_spawned p @ sp,
       p_runLock := p_runLock p - 1\<rparr>)"
| da_refresh: "daemon_alone p (backgroundWorker fs p)"

text \<open>What a session does by itself: take a waiting reply, end a call, close.\<close>

inductive session_alone :: "'b session \<Rightarrow> 'b session \<Rightarrow> bool" where
  sa_take: "c \<in> set (s_live s) \<Longrightarrow> session_alone s (Call_take c s)"
| sa_end: "c \<in> set (s_live s) \<Longrightarrow> session_alone s (Call_end c s)"
| sa_close: "session_alone s (Session_Close s)"

section \<open>The steps\<close>

text \<open>
  A call draws an identifier that its session did not use before (\<^verbatim>\<open>RngBlob\<close> gives it 64 random
  bits). \<open>nt_failed\<close> is a call that could not marshal or send its command. A daemon that died and
  started again is a new one under the same name.
\<close>

inductive net_step :: "zygo set \<Rightarrow> 'b codec \<Rightarrow> (string \<Rightarrow> string) \<Rightarrow> 'b net \<Rightarrow> 'b net \<Rightarrow> bool" for zs cd key where
  nt_open: "\<lbrakk>fresh_path path w; NewSession (Inr path) = Inr s\<rbrakk> \<Longrightarrow>
     net_step zs cd key w (w\<lparr>nt_sessions := nt_sessions w @ [s], nt_paths := path # nt_paths w\<rparr>)"
| nt_call: "\<lbrakk>i < length (nt_sessions w); s = nt_sessions w ! i; cid \<noteq> []; cid \<notin> set (s_ids s);
     Call_begin cid s = Inr (c, s'); Call_event cd n s' cid req = Inr ev; Call_send n req ev = None;
     under ''puppet'' (rq_Topic req)\<rbrakk> \<Longrightarrow>
     net_step zs cd key w (w\<lparr>nt_sessions := (nt_sessions w)[i := s'],
       nt_sent := nt_sent w @ [(rq_Topic req, ev)],
       nt_requests := nt_requests w @
         [\<lparr>rl_session = i, rl_call = c, rl_cid = cid, rl_req = req, rl_event = ev\<rparr>]\<rparr>)"
| nt_failed: "\<lbrakk>i < length (nt_sessions w); s = nt_sessions w ! i; cid \<noteq> []; cid \<notin> set (s_ids s);
     Call_begin cid s = Inr (c, s')\<rbrakk> \<Longrightarrow>
     net_step zs cd key w (w\<lparr>nt_sessions := (nt_sessions w)[i := Call_end c s']\<rparr>)"
| nt_run: "\<lbrakk>fresh_path path w; client_PuppetRun cd n (Inr path) node flt delay noop = sent\<rbrakk> \<Longrightarrow>
     net_step zs cd key w (w\<lparr>nt_sent := nt_sent w @ sent, nt_paths := path # nt_paths w,
       nt_runs := nt_runs w @ map (\<lambda>(t, ev). \<lparr>rn_path = path, rn_topic = t, rn_event = ev\<rparr>) sent\<rparr>)"
| nt_serve: "\<lbrakk>d < length (nt_daemons w); (t, ev) \<in> set (nt_sent w); under ''puppet'' t;
     z \<in> zs; HandleEvent z cd now (arrive key t ev) (nt_daemons w ! d) = (out, r, p')\<rbrakk> \<Longrightarrow>
     net_step zs cd key w (w\<lparr>nt_sent := nt_sent w @ out, nt_served := nt_served w @
       [\<lparr>sv_daemon = d, sv_zygo = z, sv_now = now, sv_state = nt_daemons w ! d, sv_topic = t, sv_request = ev, sv_out = out\<rparr>],
       nt_daemons := (nt_daemons w)[d := p']\<rparr>)"
| nt_alone: "\<lbrakk>d < length (nt_daemons w); daemon_alone (nt_daemons w ! d) p'\<rbrakk> \<Longrightarrow>
     net_step zs cd key w (w\<lparr>nt_daemons := (nt_daemons w)[d := p']\<rparr>)"
| nt_restart: "\<lbrakk>d < length (nt_daemons w); NewPuppet fs inPath localExec node fqdn meta cfg = Inr p';
     fqdn = p_fqdn (nt_daemons w ! d)\<rbrakk> \<Longrightarrow>
     net_step zs cd key w (w\<lparr>nt_daemons := (nt_daemons w)[d := p']\<rparr>)"
| nt_deliver: "\<lbrakk>i < length (nt_sessions w); (t, ev) \<in> set (nt_sent w); under (s_replyPath (nt_sessions w ! i)) t\<rbrakk> \<Longrightarrow>
     net_step zs cd key w (w\<lparr>nt_sessions := (nt_sessions w)[i := route cd (arrive key t ev) (nt_sessions w ! i)]\<rparr>)"
| nt_session: "\<lbrakk>i < length (nt_sessions w); session_alone (nt_sessions w ! i) s'\<rbrakk> \<Longrightarrow>
     net_step zs cd key w (w\<lparr>nt_sessions := (nt_sessions w)[i := s']\<rparr>)"

text \<open>At the start every daemon has just been made by \<^verbatim>\<open>New\<close> from the files of its node.\<close>

definition just_made :: "'b puppet \<Rightarrow> bool" where
  "just_made p \<longleftrightarrow> (\<exists>fs inPath localExec node fqdn meta cfg. NewPuppet fs inPath localExec node fqdn meta cfg = Inr p)"

definition net_start :: "'b net \<Rightarrow> bool" where
  "net_start w \<longleftrightarrow> nt_sessions w = [] \<and> list_all just_made (nt_daemons w) \<and> nt_sent w = []
     \<and> nt_paths w = [] \<and> nt_requests w = [] \<and> nt_runs w = [] \<and> nt_served w = []"

inductive net_reachable :: "zygo set \<Rightarrow> 'b codec \<Rightarrow> (string \<Rightarrow> string) \<Rightarrow> 'b net \<Rightarrow> bool" for zs cd key where
  nr_start: "net_start w \<Longrightarrow> net_reachable zs cd key w"
| nr_step: "\<lbrakk>net_reachable zs cd key w; net_step zs cd key w w'\<rbrakk> \<Longrightarrow> net_reachable zs cd key w'"

text \<open>
  What the log says of a served event was so: at some moment on the way to \<open>w\<close> that daemon was in
  that very state, with the facts, classes and filter engine it then had, and the event had been sent
  by a client.
\<close>

definition was_served :: "zygo set \<Rightarrow> 'b codec \<Rightarrow> (string \<Rightarrow> string) \<Rightarrow> 'b net \<Rightarrow> 'b service \<Rightarrow> bool" where
  "was_served zs cd key w sv \<longleftrightarrow> (\<exists>w0. net_reachable zs cd key w0 \<and> rtranclp (net_step zs cd key) w0 w
     \<and> sv_daemon sv < length (nt_daemons w0) \<and> nt_daemons w0 ! sv_daemon sv = sv_state sv
     \<and> (sv_topic sv, sv_request sv) \<in> set (client_sent w0) \<and> sv_zygo sv \<in> zs)"

section \<open>What a daemon sends and starts\<close>

lemma HandleEvent_sent:
  assumes "(t, re) \<in> set (fst (HandleEvent z cd now ev p))"
  obtains cmd body ty er p' b where "c_decodeCmd cd (ev_Body ev) = Inr cmd"
    "handleCommand z cd now cmd (strSplit (ev_RoutingKey ev) SLASH) p = (Ret (replyWith body ty, er), p')"
    "c_encode cd body = Inr b" "t = ev_ReplyTo ev" "re = reply_event p ev b ty"
proof -
  obtain cmd where cmd: "c_decodeCmd cd (ev_Body ev) = Inr cmd"
    using assms by (cases "c_decodeCmd cd (ev_Body ev)") (simp_all add: HandleEvent_def)
  let ?path = "strSplit (ev_RoutingKey ev) SLASH"
  obtain res er p' body where h: "handleCommand z cd now cmd ?path p = (Ret (res, er), p')" "hr_Send res" "hr_Body res = Some body"
    using assms cmd by (auto simp: HandleEvent_def Let_def split: if_splits prod.splits outcome.splits bool.splits option.splits)
  obtain b where b: "c_encode cd body = Inr b"
    using assms cmd h by (auto simp: HandleEvent_def Let_def split: if_splits sum.splits)
  have "t = ev_ReplyTo ev \<and> re = reply_event p ev b (hr_ReplyType res)"
    using assms cmd h b
    by (auto simp: HandleEvent_def Let_def runtime_Reply_def reply_event_def split: if_splits prod.splits option.splits)
  moreover have "res = replyWith body (hr_ReplyType res)" using h(2,3) by (simp add: replyWith_def)
  ultimately show ?thesis using that cmd h(1) b by metis
qed

text \<open>An event makes a daemon start a run with these options, if none is going on.\<close>

definition accepts_run :: "zygo \<Rightarrow> 'b codec \<Rightarrow> 'b event \<Rightarrow> 'b puppet \<Rightarrow> RunOptions \<Rightarrow> bool" where
  "accepts_run z cd ev p opts =
     (case c_decodeCmd cd (ev_Body ev) of
        Inl er \<Rightarrow> False
      | Inr cmd \<Rightarrow> pr_Command cmd = cmd_Run
          \<and> (pr_Filter cmd = [] \<or> puppet_ParseBool z p (pr_Filter cmd) = Ret True)
          \<and> c_decodeRun cd (pr_Parameters cmd) = Inr opts
          \<and> addressedToMe p (strSplit (ev_RoutingKey ev) SLASH))"

lemma runCommand_effect:
  "snd (runCommand cd now cmd path p) = p
    \<or> (\<exists>opts. pr_Command cmd = cmd_Run \<and> c_decodeRun cd (pr_Parameters cmd) = Inr opts \<and> addressedToMe p path
        \<and> snd (runCommand cd now cmd path p) = snd (puppet_Run opts p))"
proof (cases "pr_Command cmd = cmd_Run")
  case True
  have "cmd_Run \<noteq> cmd_Status" by (simp add: cmd_Run_def cmd_Status_def)
  then show ?thesis using True by (auto simp: runCommand_def Let_def split: sum.splits prod.splits)
qed (simp add: runCommand_def split: sum.splits)

lemma HandleEvent_effect:
  assumes "HandleEvent z cd now ev p = (out, r, p')"
  shows "p' = p \<or> (\<exists>opts. accepts_run z cd ev p opts \<and> p' = snd (puppet_Run opts p))"
proof (cases "c_decodeCmd cd (ev_Body ev)")
  case (Inr cmd)
  let ?path = "strSplit (ev_RoutingKey ev) SLASH"
  have "p' = p \<or> p' = snd (handleCommand z cd now cmd ?path p)"
    using assms Inr
    by (auto simp: HandleEvent_def Let_def split: if_splits outcome.splits prod.splits bool.splits option.splits sum.splits)
  moreover have "snd (handleCommand z cd now cmd ?path p) = p
      \<or> (snd (handleCommand z cd now cmd ?path p) = snd (runCommand cd now cmd ?path p)
         \<and> (pr_Filter cmd = [] \<or> puppet_ParseBool z p (pr_Filter cmd) = Ret True))"
    by (auto simp: handleCommand_def split: outcome.splits bool.splits)
  ultimately show ?thesis
    using runCommand_effect [of cd now cmd ?path p] by (auto simp: accepts_run_def Inr)
qed (use assms in \<open>simp add: HandleEvent_def\<close>)

fun runner_noop :: "runner \<Rightarrow> bool option" where
  "runner_noop (RBegin opt) = Some (ro_Noop opt)"
| "runner_noop (RSleep d noop) = Some noop"
| "runner_noop (RReady noop) = Some noop"
| "runner_noop (RMarked noop) = Some noop"
| "runner_noop (RRunning noop) = Some noop"
| "runner_noop RReset = None"

text \<open>The runners and agents of a daemon all do what \<open>asked\<close> allows.\<close>

definition agents_ok :: "(bool \<Rightarrow> bool) \<Rightarrow> 'b puppet \<Rightarrow> bool" where
  "agents_ok asked p \<longleftrightarrow> (\<forall>r \<in> set (p_runners p). \<forall>noop. runner_noop r = Some noop \<longrightarrow> asked noop)
     \<and> (\<forall>a \<in> set (p_spawned p). \<exists>noop. asked noop \<and> a = puppetArgs noop)"

lemma runner_move_noop:
  assumes "runner_move r st r' st' sp"
  shows "\<forall>q. r' = Some q \<longrightarrow> runner_noop q = None \<or> runner_noop q = runner_noop r"
    and "\<forall>a \<in> set sp. \<exists>noop. runner_noop r = Some noop \<and> a = puppetArgs noop"
  using assms by (cases rule: runner_move.cases; simp)+

lemma agents_ok_mono: "\<lbrakk>agents_ok asked p; \<And>b. asked b \<Longrightarrow> asked' b\<rbrakk> \<Longrightarrow> agents_ok asked' p"
  unfolding agents_ok_def by metis

lemma puppet_Run_agents:
  "\<lbrakk>agents_ok asked p; asked (ro_Noop opts)\<rbrakk> \<Longrightarrow> agents_ok asked (snd (puppet_Run opts p))"
  by (auto simp: agents_ok_def puppet_Run_def Let_def)

lemma daemon_alone_agents:
  assumes "daemon_alone p p'" and "agents_ok asked p"
  shows "agents_ok asked p'"
  using assms
proof (cases rule: daemon_alone.cases)
  case (da_move xs r ys r' st sp)
  from runner_move_noop [OF da_move(3)] have "runner_noop r' = None \<or> runner_noop r' = runner_noop r"
    "\<forall>a \<in> set sp. \<exists>noop. runner_noop r = Some noop \<and> a = puppetArgs noop" by simp_all
  with assms(2) show ?thesis unfolding da_move(1) by (auto simp: agents_ok_def da_move(2)) metis+
next
  case (da_return xs r ys st sp)
  from runner_move_noop(2) [OF da_return(3)] assms(2) show ?thesis
    unfolding da_return(1) by (auto simp: agents_ok_def da_return(2)) metis+
qed (simp_all add: agents_ok_def)

lemma daemon_alone_step: "daemon_alone p p' \<Longrightarrow> puppet_step p p'"
  by (auto elim!: daemon_alone.cases intro: puppet_step.intros)

lemma backgroundWorker_fqdn [simp]: "p_fqdn (backgroundWorker fs p) = p_fqdn p"
  by (simp add: backgroundWorker_def updateClasses_def updateFacts_def updateLastRunSummary_def split: sum.splits)

lemma daemon_alone_fqdn: "daemon_alone p p' \<Longrightarrow> p_fqdn p' = p_fqdn p"
  by (auto elim!: daemon_alone.cases)

lemma HandleEvent_fqdn: "HandleEvent z cd now ev p = (out, r, p') \<Longrightarrow> p_fqdn p' = p_fqdn p"
  using HandleEvent_effect [of z cd now ev p out r p'] by (auto simp: puppet_Run_def Let_def)

lemma NewPuppet_fresh:
  assumes "NewPuppet fs inPath localExec node fqdn meta cfg = Inr p"
  shows "p_fqdn p = fqdn" "run_idle p" "agents_ok asked p"
  using assms by (auto simp: NewPuppet_def run_idle_def agents_ok_def Let_def split: if_splits)

section \<open>The invariant\<close>

definition session_ok :: "'b codec \<Rightarrow> (string \<Rightarrow> string) \<Rightarrow> (string \<times> 'b event) list \<Rightarrow> 'b session \<Rightarrow> bool" where
  "session_ok cd key sent s \<longleftrightarrow> session_inv cd s \<and> distinct (s_ids s)
     \<and> (\<forall>e \<in> set (s_log s). \<exists>(t, ev) \<in> set sent. under (s_replyPath s) t \<and> e = arrive key t ev)"

definition paths_inv :: "'b net \<Rightarrow> bool" where
  "paths_inv w \<longleftrightarrow> set (map s_replyPath (nt_sessions w)) \<union> set (map rn_path (nt_runs w)) \<subseteq> set (nt_paths w)
     \<and> (\<forall>q \<in> set (nt_paths w). apart ''puppet'' q) \<and> sorted_wrt apart (map s_replyPath (nt_sessions w))
     \<and> (\<forall>p \<in> set (map s_replyPath (nt_sessions w)). \<forall>rn \<in> set (nt_runs w). apart p (rn_path rn))"

definition request_ok :: "'b codec \<Rightarrow> 'b session list \<Rightarrow> 'b request_log \<Rightarrow> bool" where
  "request_ok cd ss rl \<longleftrightarrow> rl_session rl < length ss
     \<and> (let s = ss ! rl_session rl; rq = rl_req rl in
         under ''puppet'' (rq_Topic rq) \<and> rl_call rl < length (s_ids s) \<and> s_ids s ! rl_call rl = rl_cid rl \<and> rl_cid rl \<noteq> []
         \<and> ev_ReplyTo (rl_event rl) = s_replyPath s @ SLASH # rl_cid rl
         \<and> gm_get (ev_Headers (rl_event rl)) ''correlation-id'' = Some (HStr (rl_cid rl))
         \<and> c_encodeCmd cd \<lparr>ps_Command = rq_Command rq, ps_Filter = rq_Filter rq,
             ps_AnswerAlways = rq_AnswerAlways rq, ps_Parameters = rq_Params rq\<rparr> = Inr (ev_Body (rl_event rl)))"

definition requests_inv :: "'b codec \<Rightarrow> 'b net \<Rightarrow> bool" where
  "requests_inv cd w \<longleftrightarrow> (\<forall>rl \<in> set (nt_requests w). request_ok cd (nt_sessions w) rl)
     \<and> distinct (map (\<lambda>rl. (rl_session rl, rl_call rl)) (nt_requests w))
     \<and> (\<forall>rn \<in> set (nt_runs w). ev_ReplyTo (rn_event rn) = rn_path rn \<and> under ''puppet'' (rn_topic rn))"

definition service_ok ::
  "zygo set \<Rightarrow> 'b codec \<Rightarrow> (string \<Rightarrow> string) \<Rightarrow> (string \<times> 'b event) list \<Rightarrow> string list \<Rightarrow> 'b service \<Rightarrow> bool" where
  "service_ok zs cd key asked names sv \<longleftrightarrow> sv_zygo sv \<in> zs \<and> sv_daemon sv < length names
     \<and> p_fqdn (sv_state sv) = names ! sv_daemon sv
     \<and> puppet_reachable (sv_state sv) \<and> (sv_topic sv, sv_request sv) \<in> set asked \<and> under ''puppet'' (sv_topic sv)
     \<and> sv_out sv = fst (HandleEvent (sv_zygo sv) cd (sv_now sv) (sv_event key sv) (sv_state sv))"

definition served_inv :: "zygo set \<Rightarrow> 'b codec \<Rightarrow> (string \<Rightarrow> string) \<Rightarrow> 'b net \<Rightarrow> bool" where
  "served_inv zs cd key w \<longleftrightarrow> list_all puppet_reachable (nt_daemons w)
     \<and> (\<forall>sv \<in> set (nt_served w). service_ok zs cd key (client_sent w) (map p_fqdn (nt_daemons w)) sv)
     \<and> set (client_sent w) \<subseteq> set (nt_sent w)
     \<and> set (nt_sent w) \<subseteq> set (client_sent w) \<union> (\<Union>sv \<in> set (nt_served w). set (sv_out sv))"

definition asked_run :: "'b codec \<Rightarrow> (string \<Rightarrow> string) \<Rightarrow> 'b service list \<Rightarrow> nat \<Rightarrow> bool \<Rightarrow> bool" where
  "asked_run cd key served d noop \<longleftrightarrow> (\<exists>sv \<in> set served. sv_daemon sv = d
     \<and> (\<exists>opts. accepts_run (sv_zygo sv) cd (sv_event key sv) (sv_state sv) opts \<and> ro_Noop opts = noop))"

definition agents_inv :: "zygo set \<Rightarrow> 'b codec \<Rightarrow> (string \<Rightarrow> string) \<Rightarrow> 'b net \<Rightarrow> bool" where
  "agents_inv zs cd key w \<longleftrightarrow> (\<forall>d < length (nt_daemons w). agents_ok (asked_run cd key (nt_served w) d) (nt_daemons w ! d))"

definition net_inv :: "zygo set \<Rightarrow> 'b codec \<Rightarrow> (string \<Rightarrow> string) \<Rightarrow> 'b net \<Rightarrow> bool" where
  "net_inv zs cd key w \<longleftrightarrow> (\<forall>s \<in> set (nt_sessions w). session_ok cd key (nt_sent w) s) \<and> paths_inv w
     \<and> requests_inv cd w \<and> served_inv zs cd key w \<and> agents_inv zs cd key w"

lemmas net_inv_defs = net_inv_def paths_inv_def requests_inv_def served_inv_def agents_inv_def client_sent_def

subsection \<open>Frames\<close>

lemma session_ok_mono: "\<lbrakk>session_ok cd key sent s; set sent \<subseteq> set sent'\<rbrakk> \<Longrightarrow> session_ok cd key sent' s"
  unfolding session_ok_def by blast

lemma service_ok_mono:
  "\<lbrakk>service_ok zs cd key asked names sv; set asked \<subseteq> set asked'\<rbrakk> \<Longrightarrow> service_ok zs cd key asked' names sv"
  unfolding service_ok_def by blast

lemma request_ok_append: "request_ok cd ss rl \<Longrightarrow> request_ok cd (ss @ [s]) rl"
  by (simp add: request_ok_def nth_append Let_def)

lemma request_ok_update:
  assumes "request_ok cd ss rl" and "i < length ss" and "s_replyPath s' = s_replyPath (ss ! i)"
    and "s_ids s' = s_ids (ss ! i) @ ids"
  shows "request_ok cd (ss[i := s']) rl"
  using assms by (cases "rl_session rl = i") (auto simp: request_ok_def nth_append Let_def)

lemma replyPath_update:
  "i < length ss \<Longrightarrow> s_replyPath s' = s_replyPath (ss ! i) \<Longrightarrow> map s_replyPath (ss[i := s']) = map s_replyPath ss"
  by (metis list_update_id map_update nth_map)

lemma fqdn_update:
  "d < length ps \<Longrightarrow> p_fqdn p' = p_fqdn (ps ! d) \<Longrightarrow> map p_fqdn (ps[d := p']) = map p_fqdn ps"
  by (metis list_update_id map_update nth_map)

lemma session_alone_keeps:
  assumes "session_alone s s'"
  shows "s_replyPath s' = s_replyPath s" "s_ids s' = s_ids s" "s_log s' = s_log s" "session_step cd s s'"
proof -
  have take: "s_replyPath (Call_take c s) = s_replyPath s" "s_ids (Call_take c s) = s_ids s"
    "s_log (Call_take c s) = s_log s" for c
    by (simp_all add: Call_take_def split: list.splits)
  show "s_replyPath s' = s_replyPath s" "s_ids s' = s_ids s" "s_log s' = s_log s"
    using assms by (cases; simp add: take Call_end_def Session_Close_def)+
  show "session_step cd s s'" using assms by cases (simp_all add: session_step.intros)
qed

lemma route_keeps:
  "s_replyPath (route cd ev s) = s_replyPath s" "s_ids (route cd ev s) = s_ids s"
  "s_log (route cd ev s) = s_log s @ [ev]"
  by (simp_all add: route_def Let_def split: option.splits)

lemma Call_begin_keeps:
  assumes "Call_begin cid s = Inr (c, s')"
  shows "s_replyPath s' = s_replyPath s" "s_ids s' = s_ids s @ [cid]" "s_log s' = s_log s" "c = length (s_chans s)"
  using assms by (auto simp: Call_begin_def Let_def split: if_splits)

lemma asked_run_mono:
  "\<lbrakk>asked_run cd key served d b; set served \<subseteq> set served'\<rbrakk> \<Longrightarrow> asked_run cd key served' d b"
  unfolding asked_run_def by blast

text \<open>A session whose path and identifiers stay, or grow by a new call.\<close>

lemma net_inv_session:
  assumes "net_inv zs cd key w" and "i < length (nt_sessions w)" and "s = nt_sessions w ! i"
    and "s_replyPath s' = s_replyPath s" and "s_ids s' = s_ids s @ ids" and "session_ok cd key (nt_sent w) s'"
  shows "net_inv zs cd key (w\<lparr>nt_sessions := (nt_sessions w)[i := s']\<rparr>)"
proof -
  have paths: "map s_replyPath ((nt_sessions w)[i := s']) = map s_replyPath (nt_sessions w)"
    using assms by (simp add: replyPath_update)
  have "set ((nt_sessions w)[i := s']) \<subseteq> insert s' (set (nt_sessions w))" by (rule set_update_subset_insert)
  then have "\<forall>s \<in> set ((nt_sessions w)[i := s']). session_ok cd key (nt_sent w) s"
    using assms(1,6) unfolding net_inv_def by blast
  moreover have "request_ok cd ((nt_sessions w)[i := s']) rl" if "rl \<in> set (nt_requests w)" for rl
    using that assms request_ok_update [of cd "nt_sessions w" rl i s' ids] by (simp add: net_inv_def requests_inv_def)
  ultimately show ?thesis
    using assms(1)
    by (simp add: net_inv_def paths_inv_def requests_inv_def served_inv_def agents_inv_def client_sent_def paths del: map_update set_map)
qed

text \<open>A daemon that stays in reach of its start, under its name and doing only what it was asked.\<close>

lemma net_inv_daemon:
  assumes "net_inv zs cd key w" and "d < length (nt_daemons w)" and "puppet_reachable p'"
    and "p_fqdn p' = p_fqdn (nt_daemons w ! d)" and "agents_ok (asked_run cd key (nt_served w) d) p'"
  shows "net_inv zs cd key (w\<lparr>nt_daemons := (nt_daemons w)[d := p']\<rparr>)"
proof -
  have names: "map p_fqdn ((nt_daemons w)[d := p']) = map p_fqdn (nt_daemons w)" using assms(2,4) by (rule fqdn_update)
  have "list_all puppet_reachable ((nt_daemons w)[d := p'])"
    using assms(1,3) set_update_subset_insert [of "nt_daemons w" d p'] by (auto simp: net_inv_defs list_all_iff)
  moreover have "agents_ok (asked_run cd key (nt_served w) e) ((nt_daemons w)[d := p'] ! e)" if "e < length (nt_daemons w)" for e
    using that assms(1,2,5) by (cases "e = d") (simp_all add: net_inv_def agents_inv_def)
  ultimately show ?thesis
    using assms(1)
    by (simp add: net_inv_def paths_inv_def requests_inv_def served_inv_def agents_inv_def client_sent_def names del: map_update set_map)
qed

subsection \<open>Every step keeps the invariant\<close>

lemma net_inv_start:
  assumes "net_start w"
  shows "net_inv zs cd key w"
proof -
  have "puppet_reachable p \<and> agents_ok asked p" if p: "p \<in> set (nt_daemons w)" for p asked
  proof -
    obtain fs inPath localExec node fqdn meta cfg where "NewPuppet fs inPath localExec node fqdn meta cfg = Inr p"
      using p assms unfolding net_start_def list_all_iff just_made_def by metis
    from pre_start [OF this] NewPuppet_fresh(3) [OF this] show ?thesis ..
  qed
  then show ?thesis using assms by (simp add: net_start_def net_inv_defs list_all_iff)
qed

lemma net_inv_open:
  assumes "net_inv zs cd key w" and "fresh_path path w" and "NewSession (Inr path) = Inr s"
  shows "net_inv zs cd key (w\<lparr>nt_sessions := nt_sessions w @ [s], nt_paths := path # nt_paths w\<rparr>)"
proof -
  have s: "s_replyPath s = path" "s_ids s = []" "s_log s = []" using assms(3) by (auto simp: NewSession_def)
  have "session_ok cd key (nt_sent w) s" by (simp add: session_ok_def s session_inv_new [OF assms(3)])
  moreover have "apart ''puppet'' path" "\<forall>q \<in> set (nt_paths w). apart q path \<and> apart path q"
    using assms(2) apart_sym [of path] by (simp_all add: fresh_path_def list_all_iff)
  moreover have "set (map s_replyPath (nt_sessions w)) \<subseteq> set (nt_paths w)" "set (map rn_path (nt_runs w)) \<subseteq> set (nt_paths w)"
    using assms(1) by (simp_all add: net_inv_def paths_inv_def)
  ultimately show ?thesis
    using assms(1)
    by (simp add: net_inv_defs s sorted_wrt_append request_ok_append subset_iff)
qed

text \<open>A request joins what the clients sent.\<close>

lemma net_inv_request:
  assumes "net_inv zs cd key w" and "request_ok cd (nt_sessions w) rl"
    and "\<forall>rl' \<in> set (nt_requests w). (rl_session rl', rl_call rl') \<noteq> (rl_session rl, rl_call rl)"
  shows "net_inv zs cd key (w\<lparr>nt_sent := nt_sent w @ [(rq_Topic (rl_req rl), rl_event rl)],
    nt_requests := nt_requests w @ [rl]\<rparr>)"
proof -
  let ?w = "w\<lparr>nt_sent := nt_sent w @ [(rq_Topic (rl_req rl), rl_event rl)], nt_requests := nt_requests w @ [rl]\<rparr>"
  have "set (client_sent w) \<subseteq> set (client_sent ?w)" by (auto simp: client_sent_def)
  then have "served_inv zs cd key ?w"
    using assms(1) service_ok_mono [of zs cd key "client_sent w" _ _ "client_sent ?w"]
    by (auto simp: net_inv_def served_inv_def) (auto simp: client_sent_def)
  moreover have "session_ok cd key (nt_sent ?w) s" if "s \<in> set (nt_sessions w)" for s
    using that assms(1) session_ok_mono [of cd key "nt_sent w" s "nt_sent ?w"] by (simp add: net_inv_def subset_iff)
  ultimately show ?thesis
    using assms by (auto simp: net_inv_def paths_inv_def requests_inv_def agents_inv_def)
qed

lemma net_inv_run:
  assumes "net_inv zs cd key w" and "fresh_path path w" and "client_PuppetRun cd n (Inr path) node flt delay noop = sent"
  shows "net_inv zs cd key (w\<lparr>nt_sent := nt_sent w @ sent, nt_paths := path # nt_paths w,
    nt_runs := nt_runs w @ map (\<lambda>(t, ev). \<lparr>rn_path = path, rn_topic = t, rn_event = ev\<rparr>) sent\<rparr>)"
    (is "net_inv zs cd key ?w")
proof -
  have to: "ev_ReplyTo ev = path" "under ''puppet'' t" if "(t, ev) \<in> set sent" for t ev
    using that assms(3) under_below [of "''puppet''" node] by (auto simp: client_PuppetRun_def Let_def split: option.splits if_splits)
  have new: "set (map rn_path (nt_runs ?w)) \<subseteq> insert path (set (map rn_path (nt_runs w)))" by auto
  have "set (client_sent ?w) = set (client_sent w) \<union> set sent"
    by (force simp: client_sent_def)
  then have "served_inv zs cd key ?w"
    using assms(1) service_ok_mono [of zs cd key "client_sent w" _ _ "client_sent ?w"]
    by (auto simp: net_inv_def served_inv_def)
  moreover have "session_ok cd key (nt_sent ?w) s" if "s \<in> set (nt_sessions w)" for s
    using that assms(1) session_ok_mono [of cd key "nt_sent w" s "nt_sent ?w"] by (simp add: net_inv_def subset_iff)
  moreover have "apart ''puppet'' path" "\<forall>q \<in> set (nt_paths w). apart q path"
    using assms(2) apart_sym [of path] by (simp_all add: fresh_path_def list_all_iff)
  then have "paths_inv ?w"
    using assms(1) new by (auto simp: net_inv_def paths_inv_def)
  ultimately show ?thesis
    using assms(1) to by (auto simp: net_inv_def requests_inv_def agents_inv_def)
qed

text \<open>What daemons hear are the clients' commands; their answers go elsewhere.\<close>

lemma reply_topics:
  assumes "net_inv zs cd key w" and "sv \<in> set (nt_served w)" and "(t, re) \<in> set (sv_out sv)"
  shows "t = ev_ReplyTo (sv_request sv)"
    and "(\<exists>rl \<in> set (nt_requests w). sv_topic sv = rq_Topic (rl_req rl) \<and> sv_request sv = rl_event rl
           \<and> t = s_replyPath (nt_sessions w ! rl_session rl) @ SLASH # rl_cid rl)
      \<or> (\<exists>rn \<in> set (nt_runs w). t = rn_path rn)"
proof -
  have s: "service_ok zs cd key (client_sent w) (map p_fqdn (nt_daemons w)) sv"
    using assms(1,2) by (simp add: net_inv_def served_inv_def)
  then have "(t, re) \<in> set (fst (HandleEvent (sv_zygo sv) cd (sv_now sv) (sv_event key sv) (sv_state sv)))"
    using assms(3) by (simp add: service_ok_def)
  then have "t = ev_ReplyTo (sv_event key sv)" by (rule HandleEvent_sent)
  then show t: "t = ev_ReplyTo (sv_request sv)" by (simp add: sv_event_def arrive_def)
  from s have "(sv_topic sv, sv_request sv) \<in> set (client_sent w)" by (simp add: service_ok_def)
  then show "(\<exists>rl \<in> set (nt_requests w). sv_topic sv = rq_Topic (rl_req rl) \<and> sv_request sv = rl_event rl
           \<and> t = s_replyPath (nt_sessions w ! rl_session rl) @ SLASH # rl_cid rl)
      \<or> (\<exists>rn \<in> set (nt_runs w). t = rn_path rn)"
    using assms(1) t by (fastforce simp: client_sent_def net_inv_def requests_inv_def request_ok_def Let_def)
qed

lemma commands_come_from_clients:
  assumes "net_inv zs cd key w" and "(t, ev) \<in> set (nt_sent w)" and "under ''puppet'' t"
  shows "(t, ev) \<in> set (client_sent w)"
proof (rule ccontr)
  assume "(t, ev) \<notin> set (client_sent w)"
  then obtain sv where sv: "sv \<in> set (nt_served w)" "(t, ev) \<in> set (sv_out sv)"
    using assms(1,2) by (auto simp: net_inv_def served_inv_def)
  have "\<exists>q \<in> set (nt_paths w). under q t"
    using reply_topics(2) [OF assms(1) sv]
  proof
    assume "\<exists>rl \<in> set (nt_requests w). sv_topic sv = rq_Topic (rl_req rl) \<and> sv_request sv = rl_event rl
      \<and> t = s_replyPath (nt_sessions w ! rl_session rl) @ SLASH # rl_cid rl"
    then obtain rl where rl: "rl \<in> set (nt_requests w)" "t = s_replyPath (nt_sessions w ! rl_session rl) @ SLASH # rl_cid rl"
      by blast
    have "rl_session rl < length (nt_sessions w)"
      using assms(1) rl(1) by (simp add: net_inv_def requests_inv_def request_ok_def)
    then have "s_replyPath (nt_sessions w ! rl_session rl) \<in> set (nt_paths w)"
      using assms(1) by (auto simp: net_inv_def paths_inv_def)
    then show ?thesis using rl(2) by (metis under_below)
  next
    assume "\<exists>rn \<in> set (nt_runs w). t = rn_path rn"
    then obtain rn where "rn \<in> set (nt_runs w)" "t = rn_path rn" by blast
    moreover have "rn_path rn \<in> set (nt_paths w)"
      using calculation(1) assms(1) by (auto simp: net_inv_def paths_inv_def)
    ultimately show ?thesis using under_refl by metis
  qed
  then obtain q where "q \<in> set (nt_paths w)" "under q t" by blast
  moreover have "apart ''puppet'' q" using calculation(1) assms(1) by (simp add: net_inv_def paths_inv_def)
  ultimately show False using apart_under [of "''puppet''" q t] assms(3) by blast
qed

lemma net_inv_serve:
  assumes "net_inv zs cd key w" and "d < length (nt_daemons w)" and "(t, ev) \<in> set (nt_sent w)" and "under ''puppet'' t"
    and "HandleEvent z cd now (arrive key t ev) (nt_daemons w ! d) = (out, r, p')" and "z \<in> zs"
  shows "net_inv zs cd key (w\<lparr>nt_sent := nt_sent w @ out, nt_served := nt_served w @
    [\<lparr>sv_daemon = d, sv_zygo = z, sv_now = now, sv_state = nt_daemons w ! d, sv_topic = t, sv_request = ev, sv_out = out\<rparr>],
    nt_daemons := (nt_daemons w)[d := p']\<rparr>)"
proof -
  define sv where "sv = \<lparr>sv_daemon = d, sv_zygo = z, sv_now = now, sv_state = nt_daemons w ! d, sv_topic = t, sv_request = ev, sv_out = out\<rparr>"
  let ?p = "nt_daemons w ! d"
  let ?w = "w\<lparr>nt_sent := nt_sent w @ out, nt_served := nt_served w @ [sv]\<rparr>"
  have reach: "puppet_reachable ?p" using assms(1,2) by (simp add: net_inv_def served_inv_def list_all_length)
  have "service_ok zs cd key (client_sent w) (map p_fqdn (nt_daemons w)) sv"
    using commands_come_from_clients [OF assms(1,3,4)] assms(2,4-6) reach
    by (simp add: service_ok_def sv_def sv_event_def)
  then have served: "served_inv zs cd key ?w"
    using assms(1) by (auto simp: net_inv_def served_inv_def client_sent_def sv_def)
  have mono: "asked_run cd key (nt_served ?w) e b" if "asked_run cd key (nt_served w) e b" for e b
    using that asked_run_mono [of cd key "nt_served w" e b "nt_served ?w"] by auto
  then have agents: "agents_inv zs cd key ?w"
    using assms(1) unfolding net_inv_def agents_inv_def
    by (auto intro: agents_ok_mono [where asked = "asked_run cd key (nt_served w) e" for e])
  have "session_ok cd key (nt_sent ?w) s" if "s \<in> set (nt_sessions w)" for s
    using that assms(1) session_ok_mono [of cd key "nt_sent w" s "nt_sent ?w"] by (simp add: net_inv_def subset_iff)
  then have w: "net_inv zs cd key ?w"
    using assms(1) served agents by (simp add: net_inv_def paths_inv_def requests_inv_def)
  have ok: "agents_ok (asked_run cd key (nt_served ?w) d) ?p" using agents assms(2) by (simp add: agents_inv_def)
  have "agents_ok (asked_run cd key (nt_served ?w) d) p'"
  proof (cases "p' = ?p")
    case False
    then obtain opts where opts: "accepts_run z cd (arrive key t ev) ?p opts" "p' = snd (puppet_Run opts ?p)"
      using HandleEvent_effect [OF assms(5)] by blast
    have "sv_daemon sv = d" "sv \<in> set (nt_served ?w)" "accepts_run (sv_zygo sv) cd (sv_event key sv) (sv_state sv) opts"
      using opts(1) by (simp_all add: sv_def sv_event_def)
    then have "asked_run cd key (nt_served ?w) d (ro_Noop opts)" unfolding asked_run_def by blast
    then show ?thesis unfolding opts(2) by (rule puppet_Run_agents [OF ok])
  qed (use ok in simp)
  from net_inv_daemon [OF w _ HandleEvent_reachable [OF reach assms(5)] _ this] show ?thesis
    using assms(2) HandleEvent_fqdn [OF assms(5)] by (simp add: sv_def)
qed

lemma session_ok_call:
  assumes "session_ok cd key sent s" and "cid \<notin> set (s_ids s)" and "Call_begin cid s = Inr (c, s')"
  shows "session_ok cd key sent s'" and "session_ok cd key sent (Call_end c s')"
proof -
  note k = Call_begin_keeps [OF assms(3)]
  have inv: "session_inv cd s'" using assms(1) Call_begin_inv [OF _ assms(3)] by (simp add: session_ok_def)
  then show "session_ok cd key sent s'" using assms(1,2) by (simp add: session_ok_def k)
  then show "session_ok cd key sent (Call_end c s')"
    using Call_end_inv [OF inv] by (simp add: session_ok_def Call_end_def)
qed

lemma session_ok_deliver:
  assumes "session_ok cd key sent s" and "(t, ev) \<in> set sent" and "under (s_replyPath s) t"
  shows "session_ok cd key sent (route cd (arrive key t ev) s)"
  using assms route_inv [of cd s "arrive key t ev"] unfolding session_ok_def by (fastforce simp: route_keeps)

lemma session_ok_alone:
  assumes "session_ok cd key sent s" and "session_alone s s'"
  shows "session_ok cd key sent s'"
  using assms(1) session_step_inv [OF session_alone_keeps(4) [OF assms(2)], of cd]
  by (simp add: session_ok_def session_alone_keeps(1-3) [OF assms(2)])

lemma net_inv_call:
  assumes "net_inv zs cd key w" and "i < length (nt_sessions w)" and "s = nt_sessions w ! i" and "cid \<noteq> []"
    and "cid \<notin> set (s_ids s)" and "Call_begin cid s = Inr (c, s')" and "Call_event cd n s' cid req = Inr ev"
    and "under ''puppet'' (rq_Topic req)"
  shows "net_inv zs cd key (w\<lparr>nt_sessions := (nt_sessions w)[i := s'], nt_sent := nt_sent w @ [(rq_Topic req, ev)],
    nt_requests := nt_requests w @ [\<lparr>rl_session = i, rl_call = c, rl_cid = cid, rl_req = req, rl_event = ev\<rparr>]\<rparr>)"
proof -
  let ?w = "w\<lparr>nt_sessions := (nt_sessions w)[i := s']\<rparr>"
  let ?rl = "\<lparr>rl_session = i, rl_call = c, rl_cid = cid, rl_req = req, rl_event = ev\<rparr>"
  have s: "session_ok cd key (nt_sent w) s" using assms(1-3) by (simp add: net_inv_def)
  note k = Call_begin_keeps [OF assms(6)]
  have w: "net_inv zs cd key ?w"
    by (rule net_inv_session [OF assms(1-3) k(1,2) session_ok_call(1) [OF s assms(5,6)]])
  have len: "length (s_ids s) = length (s_chans s)"
    using s by (simp add: session_ok_def session_inv_def shape_inv_def)
  have "request_ok cd (nt_sessions ?w) ?rl"
    using assms(2,4,7,8) k len by (auto simp: request_ok_def Call_event_def set_header_def Let_def nth_append split: sum.splits)
  moreover have "rl_call rl' < length (s_ids s)" if "rl' \<in> set (nt_requests w)" "rl_session rl' = i" for rl'
    using that assms(1,3) by (auto simp: net_inv_def requests_inv_def request_ok_def Let_def)
  ultimately show ?thesis
    using net_inv_request [OF w, of ?rl] k(4) len by fastforce
qed

lemma net_step_inv: "net_step zs cd key w w' \<Longrightarrow> net_inv zs cd key w \<Longrightarrow> net_inv zs cd key w'"
proof (induction rule: net_step.induct)
  case (nt_failed i w s cid c s')
  then have s: "session_ok cd key (nt_sent w) s" by (simp add: net_inv_def)
  have "s_replyPath (Call_end c s') = s_replyPath s" "s_ids (Call_end c s') = s_ids s @ [cid]"
    using Call_begin_keeps [OF nt_failed(5)] by (simp_all add: Call_end_def)
  with session_ok_call(2) [OF s nt_failed(4,5)] show ?case
    using nt_failed by (intro net_inv_session)
next
  case (nt_alone d w p')
  then show ?case
    by (intro net_inv_daemon)
      (auto simp: net_inv_def served_inv_def agents_inv_def list_all_length daemon_alone_fqdn
        intro: daemon_alone_agents pre_step daemon_alone_step)
next
  case (nt_restart d w fs inPath localExec node fqdn meta cfg p')
  then show ?case
    using NewPuppet_fresh [OF nt_restart(2)] by (intro net_inv_daemon) (auto intro: pre_start)
next
  case (nt_deliver i w t ev)
  then show ?case
    by (intro net_inv_session [where ids = "[]"]) (auto simp: net_inv_def route_keeps intro: session_ok_deliver)
next
  case (nt_session i w s')
  then show ?case
    using session_alone_keeps [OF nt_session(2)]
    by (intro net_inv_session [where ids = "[]"]) (auto simp: net_inv_def intro: session_ok_alone)
qed (auto intro: net_inv_open net_inv_call net_inv_run net_inv_serve)

lemma net_reachable_inv: "net_reachable zs cd key w \<Longrightarrow> net_inv zs cd key w"
  by (induction rule: net_reachable.induct) (auto intro: net_inv_start net_step_inv)

text \<open>The log of served events is what happened.\<close>

lemma net_step_served:
  assumes "net_step zs cd key w w'" and "net_inv zs cd key w" and "sv \<in> set (nt_served w')"
  shows "sv \<in> set (nt_served w) \<or> sv_daemon sv < length (nt_daemons w) \<and> nt_daemons w ! sv_daemon sv = sv_state sv
    \<and> (sv_topic sv, sv_request sv) \<in> set (client_sent w) \<and> sv_zygo sv \<in> zs"
  using assms(1,3) by cases (auto dest: commands_come_from_clients [OF assms(2)])

lemma served_was_served:
  "net_reachable zs cd key w \<Longrightarrow> sv \<in> set (nt_served w) \<Longrightarrow> was_served zs cd key w sv"
proof (induction rule: net_reachable.induct)
  case (nr_step w w')
  from net_step_served [OF nr_step(2) net_reachable_inv [OF nr_step(1)] nr_step(4)] show ?case
  proof
    assume "sv \<in> set (nt_served w)"
    then have "was_served zs cd key w sv" by (rule nr_step(3))
    then show ?thesis using nr_step(2) unfolding was_served_def by (meson rtranclp.rtrancl_into_rtrancl)
  qed (use nr_step(1,2) in \<open>unfold was_served_def, blast\<close>)
qed (simp add: net_start_def)

section \<open>Where answers come from\<close>

lemma arrive_simps [simp]:
  "ev_Body (arrive key t ev) = ev_Body ev" "ev_ReplyTo (arrive key t ev) = ev_ReplyTo ev"
  "ev_Headers (arrive key t ev) = ev_Headers ev" "newReply cd (arrive key t ev) = newReply cd ev"
  "ev_RoutingKey (arrive key t ev) = key t"
  by (simp_all add: arrive_def newReply_def header_string_def Let_def split: option.split)

lemma callID_reply:
  assumes "gm_get (ev_Headers ev) ''correlation-id'' = Some (HStr cid)" and "cid \<noteq> []"
  shows "callID (arrive key t (reply_event p ev b ty)) = cid"
  using reply_event_headers(4) [OF assms(1), of p b ty] assms(2)
  by (intro callID_header) (simp_all add: header_string_def)

lemma client_topics: "\<lbrakk>net_inv zs cd key w; (t, ev) \<in> set (client_sent w)\<rbrakk> \<Longrightarrow> under ''puppet'' t"
  by (auto simp: net_inv_def requests_inv_def request_ok_def client_sent_def Let_def)

lemma session_path:
  assumes "net_inv zs cd key w" and "i < length (nt_sessions w)"
  shows "apart ''puppet'' (s_replyPath (nt_sessions w ! i))"
    and "rn \<in> set (nt_runs w) \<Longrightarrow> apart (s_replyPath (nt_sessions w ! i)) (rn_path rn)"
    and "\<lbrakk>j < length (nt_sessions w); i \<noteq> j\<rbrakk> \<Longrightarrow> apart (s_replyPath (nt_sessions w ! i)) (s_replyPath (nt_sessions w ! j))"
proof -
  have "s_replyPath (nt_sessions w ! i) \<in> set (map s_replyPath (nt_sessions w))" using assms(2) by simp
  then show "apart ''puppet'' (s_replyPath (nt_sessions w ! i))"
    "rn \<in> set (nt_runs w) \<Longrightarrow> apart (s_replyPath (nt_sessions w ! i)) (rn_path rn)"
    using assms(1) unfolding net_inv_def paths_inv_def by blast+
  assume "j < length (nt_sessions w)" "i \<noteq> j"
  moreover have "sorted_wrt apart (map s_replyPath (nt_sessions w))" using assms(1) by (simp add: net_inv_def paths_inv_def)
  ultimately show "apart (s_replyPath (nt_sessions w ! i)) (s_replyPath (nt_sessions w ! j))"
    using assms(2) apart_sym [of "s_replyPath (nt_sessions w ! j)" "s_replyPath (nt_sessions w ! i)"]
    by (cases "i < j") (auto simp: sorted_wrt_iff_nth_less)
qed

text \<open>A message on a session's reply path answers a request of that session.\<close>

lemma reply_of_session:
  assumes "net_inv zs cd key w" and "i < length (nt_sessions w)" and "(t, re) \<in> set (nt_sent w)"
    and "under (s_replyPath (nt_sessions w ! i)) t"
  obtains rl sv where "rl \<in> set (nt_requests w)" "rl_session rl = i" "sv \<in> set (nt_served w)"
    "sv_topic sv = rq_Topic (rl_req rl)" "sv_request sv = rl_event rl" "(t, re) \<in> set (sv_out sv)"
proof -
  let ?path = "s_replyPath (nt_sessions w ! i)"
  have "(t, re) \<notin> set (client_sent w)"
    using client_topics [OF assms(1)] apart_under [OF session_path(1) [OF assms(1,2)]] assms(4) by blast
  then obtain sv where sv: "sv \<in> set (nt_served w)" "(t, re) \<in> set (sv_out sv)"
    using assms(1,3) by (auto simp: net_inv_def served_inv_def)
  from reply_topics(2) [OF assms(1) sv] show ?thesis
  proof
    assume "\<exists>rl \<in> set (nt_requests w). sv_topic sv = rq_Topic (rl_req rl) \<and> sv_request sv = rl_event rl
      \<and> t = s_replyPath (nt_sessions w ! rl_session rl) @ SLASH # rl_cid rl"
    then obtain rl where rl: "rl \<in> set (nt_requests w)" "sv_topic sv = rq_Topic (rl_req rl)" "sv_request sv = rl_event rl"
      "t = s_replyPath (nt_sessions w ! rl_session rl) @ SLASH # rl_cid rl" by blast
    have j: "rl_session rl < length (nt_sessions w)"
      using assms(1) rl(1) by (simp add: net_inv_def requests_inv_def request_ok_def)
    have "rl_session rl = i"
      using session_path(3) [OF assms(1,2) j] apart_under [of ?path _ t] assms(4) rl(4) by fastforce
    with rl sv that show ?thesis by blast
  next
    assume "\<exists>rn \<in> set (nt_runs w). t = rn_path rn"
    then show ?thesis using session_path(2) [OF assms(1,2)] assms(4) by (auto simp: apart_def)
  qed
qed

lemma answer_of_call:
  assumes "net_inv zs cd key w" and "i < length (nt_sessions w)" and "c < length (s_chans (nt_sessions w ! i))"
    and "r \<in> set (s_got (nt_sessions w ! i) ! c @ s_chans (nt_sessions w ! i) ! c)"
  obtains rl sv re where "rl \<in> set (nt_requests w)" "rl_session rl = i" "rl_call rl = c" "sv \<in> set (nt_served w)"
    "sv_topic sv = rq_Topic (rl_req rl)" "sv_request sv = rl_event rl"
    "(ev_ReplyTo (rl_event rl), re) \<in> set (sv_out sv)" "r = newReply cd re" "rp_FQDN r = p_fqdn (sv_state sv)"
    "arrive key (ev_ReplyTo (rl_event rl)) re \<in> set (s_log (nt_sessions w ! i))"
    "callID (arrive key (ev_ReplyTo (rl_event rl)) re) = rl_cid rl" "s_ids (nt_sessions w ! i) ! c = rl_cid rl"
proof -
  define s where "s = nt_sessions w ! i"
  have ok: "session_ok cd key (nt_sent w) s" using assms(1,2) by (simp add: net_inv_def s_def)
  then have shape: "length (s_ids s) = length (s_chans s)" and d: "distinct (s_ids s)"
    by (simp_all add: session_ok_def session_inv_def shape_inv_def)
  have "call_inv cd s c" using ok assms(3) by (simp add: session_ok_def session_inv_def s_def)
  then have "r \<in> set (addressed cd (s_log s) (s_ids s ! c))"
    using assms(4) by (auto simp: call_inv_def s_def [symmetric] dest: list_emb_set)
  then obtain e where e: "e \<in> set (s_log s)" "callID e = s_ids s ! c" "r = newReply cd e"
    by (auto simp: addressed_def)
  then obtain t re where re: "(t, re) \<in> set (nt_sent w)" "under (s_replyPath s) t" "e = arrive key t re"
    using ok by (auto simp: session_ok_def)
  obtain rl sv where rl: "rl \<in> set (nt_requests w)" "rl_session rl = i" "sv \<in> set (nt_served w)"
    "sv_topic sv = rq_Topic (rl_req rl)" "sv_request sv = rl_event rl" "(t, re) \<in> set (sv_out sv)"
    by (rule reply_of_session [OF assms(1,2) re(1) re(2) [unfolded s_def]])
  have req: "request_ok cd (nt_sessions w) rl" using assms(1) rl(1) by (simp add: net_inv_def requests_inv_def)
  have "service_ok zs cd key (client_sent w) (map p_fqdn (nt_daemons w)) sv"
    using assms(1) rl(3) by (simp add: net_inv_def served_inv_def)
  then have "(t, re) \<in> set (fst (HandleEvent (sv_zygo sv) cd (sv_now sv) (sv_event key sv) (sv_state sv)))"
    using rl(6) by (simp add: service_ok_def)
  then obtain b ty where b: "t = ev_ReplyTo (rl_event rl)" "re = reply_event (sv_state sv) (sv_event key sv) b ty"
    using HandleEvent_sent [of t re] rl(5) by (metis sv_event_def arrive_simps(2))
  have "gm_get (ev_Headers (sv_event key sv)) ''correlation-id'' = Some (HStr (rl_cid rl))" "rl_cid rl \<noteq> []"
    using req rl(5) by (simp_all add: request_ok_def sv_event_def Let_def)
  then have "callID e = rl_cid rl" unfolding re(3) b(2) by (rule callID_reply)
  moreover have "s_ids s ! rl_call rl = rl_cid rl" "rl_call rl < length (s_ids s)"
    using req rl(2) by (simp_all add: request_ok_def s_def Let_def)
  ultimately have "rl_call rl = c"
    using nth_eq_iff_index_eq [OF d, of "rl_call rl" c] e(2) shape assms(3) by (simp add: s_def)
  moreover have "callID (arrive key t re) = rl_cid rl" "arrive key t re \<in> set (s_log s)"
    using \<open>callID e = rl_cid rl\<close> e(1) re(3) by simp_all
  ultimately show ?thesis
    using that [OF rl(1,2) _ rl(3-5), of re] rl(6) b e(2,3) re(3)
    by (simp add: newReply_reply_event s_def [symmetric])
qed

section \<open>What answers say\<close>

lemma status_reply_says:
  assumes "(t, re) \<in> set (fst (HandleEvent z cd now ev p))" and "c_decodeCmd cd (ev_Body ev) = Inr cmd"
    and "pr_Command cmd = cmd_Status" and "pr_Filter cmd = q" and "q \<noteq> []" and "pr_AnswerAlways cmd"
  shows "says (filter_verdict (newReply cd re)) (puppet_ParseBool z p q)"
proof -
  obtain body ty er p' b where h: "handleCommand z cd now cmd (strSplit (ev_RoutingKey ev) SLASH) p = (Ret (replyWith body ty, er), p')"
    "re = reply_event p ev b ty"
    using HandleEvent_sent [OF assms(1)] assms(2) by (metis sum.inject(2))
  have "pr_Filter cmd \<noteq> []" by (simp add: assms(4,5))
  note c = handleCommand_status [OF assms(3) this, of z cd now _ p, unfolded assms(4)]
  show ?thesis
    using h(1) assms(6) rpc_distinct(1) [THEN not_sym]
    by (auto simp: c h(2) filter_verdict_def newReply_reply_event split: outcome.splits bool.splits)
qed

lemma query_reply_says:
  assumes "(t, re) \<in> set (fst (HandleEvent z cd now ev p))" and "c_decodeCmd cd (ev_Body ev) = Inr cmd"
    and "pr_Command cmd = cmd_Query" and "pr_Filter cmd = q" and "q \<noteq> []" and "codec_ok cd" and "zygo_errors_ok z"
  shows "query_who cd (newReply cd re) = p_fqdn p \<and> says (query_verdict cd (newReply cd re)) (puppet_ParseBool z p q)"
proof -
  obtain body ty er p' b where h: "handleCommand z cd now cmd (strSplit (ev_RoutingKey ev) SLASH) p = (Ret (replyWith body ty, er), p')"
    "c_encode cd body = Inr b" "re = reply_event p ev b ty"
    using HandleEvent_sent [OF assms(1)] assms(2) by (metis sum.inject(2))
  then have hq: "handleQuery z cmd p = Ret (replyWith body ty, er)" by (auto simp: handleCommand_def assms(3))
  have "puppet_ParseBool z p q \<noteq> Panic"
    using hq assms(4,5)
    by (auto simp: handleQuery_def puppet_ParseBool_def engine_ParseBool_def puppet_Parse_def Let_def split: outcome.splits)
  then obtain qr where qr: "handleQuery z cmd p = Ret (replyWith (PQuery qr) rpc_PuppetQuery, None)" "qr_FQDN qr = p_fqdn p"
    "says (reply_verdict qr) (puppet_ParseBool z p q)"
    by (rule handleQuery_says [OF assms(4,5) _ assms(7)])
  have b: "body = PQuery qr" "ty = rpc_PuppetQuery" using hq qr(1) by simp_all
  have "reply_ok cd (PQuery qr) b" using assms(6) h(2) unfolding codec_ok_def b by (metis sum.inject(2))
  then have "decodeQueryReply cd (newReply cd re) = qr"
    using qr(2) by (simp add: decodeQueryReply_def h(3) b newReply_reply_event reply_ok_def Let_def)
  then show ?thesis using qr by (simp add: query_who_def query_verdict_reply)
qed

lemma first_answers_SomeD:
  "first_answers who verdict rs f = Some v \<Longrightarrow> f \<noteq> [] \<and> (\<exists>r \<in> set rs. who r = f \<and> verdict r = v)"
  by (auto simp: first_answers_def dest!: map_of_SomeD)

definition queryRequest :: "string \<Rightarrow> Request" where
  "queryRequest q = \<lparr>rq_Topic = ''puppet'', rq_Command = cmd_Query, rq_Filter = q, rq_Params = NoParams,
     rq_AnswerAlways = False\<rparr>"

text \<open>What a call got, with the state of the daemon that gave the answer.\<close>

lemma got_says:
  assumes "net_inv zs cd key w" and "rl \<in> set (nt_requests w)" and "codec_ok cd" and "q \<noteq> []"
    and "r \<in> set (s_got (nt_sessions w ! rl_session rl) ! rl_call rl)"
  obtains sv where "sv \<in> set (nt_served w)" "sv_request sv = rl_event rl" "rp_FQDN r = p_fqdn (sv_state sv)"
    "rl_req rl = statusRequest q \<Longrightarrow> says (filter_verdict r) (puppet_ParseBool (sv_zygo sv) (sv_state sv) q)"
    "rl_req rl = queryRequest q \<Longrightarrow> \<forall>z \<in> zs. zygo_errors_ok z \<Longrightarrow>
       query_who cd r = p_fqdn (sv_state sv) \<and> says (query_verdict cd r) (puppet_ParseBool (sv_zygo sv) (sv_state sv) q)"
proof -
  have ok: "request_ok cd (nt_sessions w) rl" using assms(1,2) by (simp add: net_inv_def requests_inv_def)
  then have i: "rl_session rl < length (nt_sessions w)" by (simp add: request_ok_def)
  then have "session_ok cd key (nt_sent w) (nt_sessions w ! rl_session rl)" using assms(1) by (simp add: net_inv_def)
  then have "length (s_ids (nt_sessions w ! rl_session rl)) = length (s_chans (nt_sessions w ! rl_session rl))"
    by (simp add: session_ok_def session_inv_def shape_inv_def)
  then have c: "rl_call rl < length (s_chans (nt_sessions w ! rl_session rl))"
    using ok by (simp add: request_ok_def Let_def)
  have "r \<in> set (s_got (nt_sessions w ! rl_session rl) ! rl_call rl @ s_chans (nt_sessions w ! rl_session rl) ! rl_call rl)"
    using assms(5) by simp
  then obtain rl' sv re where a: "rl' \<in> set (nt_requests w)" "rl_session rl' = rl_session rl" "rl_call rl' = rl_call rl"
    "sv \<in> set (nt_served w)" "sv_request sv = rl_event rl'" "(ev_ReplyTo (rl_event rl'), re) \<in> set (sv_out sv)"
    "r = newReply cd re" "rp_FQDN r = p_fqdn (sv_state sv)"
    by (rule answer_of_call [OF assms(1) i c])
  have "distinct (map (\<lambda>rl. (rl_session rl, rl_call rl)) (nt_requests w))"
    using assms(1) by (simp add: net_inv_def requests_inv_def)
  then have rl': "rl' = rl" using a(1-3) assms(2) by (auto simp: distinct_map dest: inj_onD)
  have served: "service_ok zs cd key (client_sent w) (map p_fqdn (nt_daemons w)) sv"
    using assms(1) a(4) by (simp add: net_inv_def served_inv_def)
  then have out: "(ev_ReplyTo (rl_event rl), re) \<in> set (fst (HandleEvent (sv_zygo sv) cd (sv_now sv) (sv_event key sv) (sv_state sv)))"
    using a(6) by (simp add: service_ok_def rl')
  have body: "ev_Body (sv_event key sv) = ev_Body (rl_event rl)" by (simp add: sv_event_def a(5) rl')
  have enc: "c_encodeCmd cd \<lparr>ps_Command = rq_Command (rl_req rl), ps_Filter = rq_Filter (rl_req rl),
      ps_AnswerAlways = rq_AnswerAlways (rl_req rl), ps_Parameters = rq_Params (rl_req rl)\<rparr> = Inr (ev_Body (rl_event rl))"
    using ok by (simp add: request_ok_def Let_def)
  obtain cmd where cmd: "c_decodeCmd cd (ev_Body (sv_event key sv)) = Inr cmd" "pr_Command cmd = rq_Command (rl_req rl)"
    "pr_Filter cmd = rq_Filter (rl_req rl)" "pr_AnswerAlways cmd = rq_AnswerAlways (rl_req rl)"
    unfolding body by (rule codec_ok_decode [OF assms(3) enc]) simp
  show ?thesis
  proof (rule that [OF a(4) _ a(8)])
    show "sv_request sv = rl_event rl" by (simp add: a(5) rl')
  next
    assume "rl_req rl = statusRequest q"
    then show "says (filter_verdict r) (puppet_ParseBool (sv_zygo sv) (sv_state sv) q)"
      using status_reply_says [OF out cmd(1)] cmd assms(4) by (simp add: a(7) statusRequest_def)
  next
    assume q: "rl_req rl = queryRequest q" "\<forall>z \<in> zs. zygo_errors_ok z"
    then have "zygo_errors_ok (sv_zygo sv)" using served by (simp add: service_ok_def)
    with q(1) show "query_who cd r = p_fqdn (sv_state sv) \<and> says (query_verdict cd r) (puppet_ParseBool (sv_zygo sv) (sv_state sv) q)"
      using query_reply_says [OF out cmd(1)] cmd assms(3,4) by (simp add: a(7) queryRequest_def)
  qed
qed

section \<open>Properties\<close>

text \<open>
  C7: Whatever the broker does with the messages and however clients, daemons and runs interleave,
  every reply a call ever holds came in as a message with that call's identifier, and it is the answer
  which one daemon of the fleet gave to the very request of that call, on the topic it was sent to,
  under its own name and out of the state that daemon was in when it served the request.
\<close>

theorem replies_answer_their_own_request:
  assumes "net_reachable zs cd key w" and "i < length (nt_sessions w)" and "s = nt_sessions w ! i"
    and "c < length (s_chans s)" and "r \<in> set (s_got s ! c @ s_chans s ! c)"
  shows "\<exists>rl \<in> set (nt_requests w). \<exists>sv \<in> set (nt_served w). \<exists>re. rl_session rl = i \<and> rl_call rl = c
    \<and> sv_topic sv = rq_Topic (rl_req rl) \<and> sv_request sv = rl_event rl \<and> was_served zs cd key w sv
    \<and> p_fqdn (sv_state sv) \<in> p_fqdn ` set (nt_daemons w) \<and> rp_FQDN r = p_fqdn (sv_state sv)
    \<and> (ev_ReplyTo (rl_event rl), re) \<in> set (fst (HandleEvent (sv_zygo sv) cd (sv_now sv) (sv_event key sv) (sv_state sv)))
    \<and> arrive key (ev_ReplyTo (rl_event rl)) re \<in> set (s_log s)
    \<and> callID (arrive key (ev_ReplyTo (rl_event rl)) re) = rl_cid rl \<and> s_ids s ! c = rl_cid rl
    \<and> r = newReply cd re"
proof -
  note inv = net_reachable_inv [OF assms(1)]
  obtain rl sv re where a: "rl \<in> set (nt_requests w)" "rl_session rl = i" "rl_call rl = c" "sv \<in> set (nt_served w)"
    "sv_topic sv = rq_Topic (rl_req rl)" "sv_request sv = rl_event rl" "(ev_ReplyTo (rl_event rl), re) \<in> set (sv_out sv)"
    "r = newReply cd re" "rp_FQDN r = p_fqdn (sv_state sv)" "arrive key (ev_ReplyTo (rl_event rl)) re \<in> set (s_log s)"
    "callID (arrive key (ev_ReplyTo (rl_event rl)) re) = rl_cid rl" "s_ids s ! c = rl_cid rl"
    using answer_of_call [OF inv assms(2), of c r] assms(3-5) by blast
  have "service_ok zs cd key (client_sent w) (map p_fqdn (nt_daemons w)) sv"
    using inv a(4) by (simp add: net_inv_def served_inv_def)
  then have "p_fqdn (sv_state sv) \<in> p_fqdn ` set (nt_daemons w)"
    "(ev_ReplyTo (rl_event rl), re) \<in> set (fst (HandleEvent (sv_zygo sv) cd (sv_now sv) (sv_event key sv) (sv_state sv)))"
    using a(7) by (auto simp: service_ok_def)
  with a served_was_served [OF assms(1) a(4)] show ?thesis by blast
qed

text \<open>
  C1: No false reports: when a filtered request or a query comes back with a verdict on a node, that
  node is a daemon of the fleet which was asked by this call and whose own data, at the moment it
  answered, gave exactly that verdict. Lost answers can make a node missing, and nothing that
  happens on the way can make one match.
\<close>

theorem reported_verdicts_are_real:
  assumes "net_reachable zs cd key w" and "rl \<in> set (nt_requests w)" and "codec_ok cd" and "q \<noteq> []"
    and "arrived = s_got (nt_sessions w ! rl_session rl) ! rl_call rl"
    and "rl_req rl = statusRequest q \<and> FilterMatch cd n s cid q arrived = (sent, fout, called, None) \<and> filter_tag fout f = Some v
      \<or> rl_req rl = queryRequest q \<and> (\<forall>z \<in> zs. zygo_errors_ok z) \<and> Session_Query cd n s cid q arrived = (sent, qout, replies, None)
        \<and> query_tag qout f = Some v"
  shows "\<exists>sv \<in> set (nt_served w). sv_request sv = rl_event rl \<and> puppet_reachable (sv_state sv)
    \<and> f \<in> p_fqdn ` set (nt_daemons w) \<and> p_fqdn (sv_state sv) = f \<and> was_served zs cd key w sv
    \<and> says v (puppet_ParseBool (sv_zygo sv) (sv_state sv) q)"
proof -
  note inv = net_reachable_inv [OF assms(1)]
  have "\<exists>sv \<in> set (nt_served w). sv_request sv = rl_event rl \<and> p_fqdn (sv_state sv) = f
      \<and> says v (puppet_ParseBool (sv_zygo sv) (sv_state sv) q)"
    using assms(6)
  proof
    assume a: "rl_req rl = statusRequest q \<and> FilterMatch cd n s cid q arrived = (sent, fout, called, None) \<and> filter_tag fout f = Some v"
    then have "first_answers rp_FQDN filter_verdict arrived f = Some v" using FilterMatch_tally(1) by metis
    then obtain r where r: "r \<in> set arrived" "rp_FQDN r = f" "filter_verdict r = v" using first_answers_SomeD by metis
    from got_says [OF inv assms(2-4) r(1) [unfolded assms(5)]] show ?thesis using a r(2,3) by metis
  next
    assume a: "rl_req rl = queryRequest q \<and> (\<forall>z \<in> zs. zygo_errors_ok z) \<and> Session_Query cd n s cid q arrived = (sent, qout, replies, None)
        \<and> query_tag qout f = Some v"
    then have "first_answers (query_who cd) (query_verdict cd) arrived f = Some v" using Session_Query_tally(1) by metis
    then obtain r where r: "r \<in> set arrived" "query_who cd r = f" "query_verdict cd r = v" using first_answers_SomeD by metis
    from got_says [OF inv assms(2-4) r(1) [unfolded assms(5)]] show ?thesis using a r(2,3) by metis
  qed
  then obtain sv where sv: "sv \<in> set (nt_served w)" "sv_request sv = rl_event rl" "p_fqdn (sv_state sv) = f"
    "says v (puppet_ParseBool (sv_zygo sv) (sv_state sv) q)" by blast
  have "service_ok zs cd key (client_sent w) (map p_fqdn (nt_daemons w)) sv"
    using inv sv(1) by (simp add: net_inv_def served_inv_def)
  with sv served_was_served [OF assms(1) sv(1)] show ?thesis by (auto simp: service_ok_def)
qed


section \<open>The properties at concrete inputs\<close>

definition plainKey :: "string \<Rightarrow> string" where
  "plainKey t = ''rv/'' @ t"

definition emptyNet :: "plainBody net" where
  "emptyNet = \<lparr>nt_sessions = [], nt_daemons = [plainPuppet ''n1''], nt_sent = [], nt_paths = [],
     nt_requests = [], nt_runs = [], nt_served = []\<rparr>"

lemma emptyNet_reachable: "net_reachable zs plainCodec plainKey emptyNet"
proof (rule nr_start)
  have "just_made (plainPuppet ''n1'')" using NewPuppet_plain unfolding just_made_def by blast
  then show "net_start emptyNet" by (simp add: net_start_def emptyNet_def)
qed

lemma fresh_reply: "fresh_path ''reply'' emptyNet" "fresh_path ''run'' emptyNet"
  by (simp_all add: fresh_path_def emptyNet_def apart_def under_def hasPrefix_def)

definition calledNet :: "plainBody event \<Rightarrow> plainBody net" where
  "calledNet ev = emptyNet\<lparr>nt_sessions := [plainCall], nt_sent := [(''puppet'', ev)], nt_paths := [''reply''],
     nt_requests := [\<lparr>rl_session = 0, rl_call = 0, rl_cid = ''1'', rl_req = statusRequest ''true'', rl_event = ev\<rparr>]\<rparr>"

lemma calledNet_reachable:
  assumes "Call_event plainCodec (plainNode ''c'') plainCall ''1'' (statusRequest ''true'') = Inr ev"
  shows "net_reachable zs plainCodec plainKey (calledNet ev)"
proof -
  have s: "NewSession (Inr ''reply'') = Inr plainSession" by (simp add: NewSession_def plainSession_def)
  note 1 = nr_step [OF emptyNet_reachable nt_open [OF fresh_reply(1) s], of zs]
  have "under ''puppet'' (rq_Topic (statusRequest ''true''))" by (simp add: statusRequest_def)
  moreover have "Call_send (plainNode ''c'') (statusRequest ''true'') ev = None" by (simp add: Call_send_def plainNode_def)
  moreover have "''1'' \<notin> set (s_ids plainSession)" by (simp add: plainSession_def)
  ultimately have "net_step zs plainCodec plainKey (emptyNet\<lparr>nt_sessions := nt_sessions emptyNet @ [plainSession],
      nt_paths := ''reply'' # nt_paths emptyNet\<rparr>) (calledNet ev)"
    using nt_call [of 0 "emptyNet\<lparr>nt_sessions := nt_sessions emptyNet @ [plainSession], nt_paths := ''reply'' # nt_paths emptyNet\<rparr>"
        plainSession "''1''" 0 plainCall plainCodec "plainNode ''c''" "statusRequest ''true''" ev zs plainKey]
      plainCall_begin assms
    by (simp add: calledNet_def emptyNet_def statusRequest_def)
  from nr_step [OF 1 this] show ?thesis .
qed

lemma plain_status_answer:
  assumes "Call_event plainCodec (plainNode ''c'') plainCall ''1'' (statusRequest ''true'') = Inr ev"
  obtains re r where "HandleEvent plainZygo plainCodec 0 (arrive plainKey ''puppet'' ev) (plainPuppet ''n1'')
      = ([(''reply/1'', re)], r, plainPuppet ''n1'')"
    "rp_FQDN (newReply plainCodec re) = ''n1''" "filter_verdict (newReply plainCodec re) = VMatched"
proof -
  let ?p = "plainPuppet ''n1''" and ?ev = "arrive plainKey ''puppet'' ev"
  let ?cmd = "\<lparr>pr_Command = cmd_Status, pr_Filter = ''true'', pr_AnswerAlways = True, pr_Parameters = BParams NoParams\<rparr>"
  have e: "c_decodeCmd plainCodec (ev_Body ?ev) = Inr ?cmd" "ev_ReplyTo ?ev = ''reply/1''"
    using assms by (auto simp: Call_event_def plainCodec_def statusRequest_def set_header_def plainCall_def)
  have path: "length (strSplit (ev_RoutingKey ?ev) SLASH) \<ge> 2" by (simp add: plainKey_def strSplit_def)
  have "handleCommand plainZygo plainCodec 0 ?cmd (strSplit (ev_RoutingKey ?ev) SLASH) ?p
      = (Ret (replyWith (PSummary (p_lastRunSummary ?p)) rpc_PuppetRunSummary, None), ?p)"
    by (simp add: handleCommand_status plain_ParseBool)
  moreover have "c_encode plainCodec (PSummary (p_lastRunSummary ?p)) = Inr (BReply (PSummary (p_lastRunSummary ?p)))"
    by (simp add: plainCodec_def)
  ultimately have h: "HandleEvent plainZygo plainCodec 0 ?ev ?p = ([(''reply/1'', reply_event ?p ?ev
      (BReply (PSummary (p_lastRunSummary ?p))) rpc_PuppetRunSummary)], Ret (), ?p)"
    using HandleEvent_reply [OF e(1) _ path, of plainZygo 0 ?p] e(2) plain_can_send by fastforce
  have "says (filter_verdict (newReply plainCodec (reply_event ?p ?ev (BReply (PSummary (p_lastRunSummary ?p))) rpc_PuppetRunSummary))) (Ret True)"
    using status_reply_says [of "''reply/1''" _ plainZygo plainCodec 0 ?ev ?p ?cmd "''true''"] e(1) h
    by (simp add: plain_ParseBool)
  then have "filter_verdict (newReply plainCodec (reply_event ?p ?ev (BReply (PSummary (p_lastRunSummary ?p))) rpc_PuppetRunSummary)) = VMatched"
    by (cases rule: says.elims(2)) auto
  then show ?thesis using that [OF h] by (simp add: newReply_reply_event plainPuppet_def)
qed

text \<open>The call has taken its answer.\<close>

lemma answeredNet:
  assumes "Call_event plainCodec (plainNode ''c'') plainCall ''1'' (statusRequest ''true'') = Inr ev"
  obtains w r where "net_reachable {plainZygo} plainCodec plainKey w" "length (nt_sessions w) = 1"
    "length (s_chans (nt_sessions w ! 0)) = 1" "s_got (nt_sessions w ! 0) ! 0 = [r]"
    "nt_requests w = nt_requests (calledNet ev)" "nt_daemons w = [plainPuppet ''n1'']"
    "rp_FQDN r = ''n1''" "filter_verdict r = VMatched"
proof -
  obtain re r where h: "HandleEvent plainZygo plainCodec 0 (arrive plainKey ''puppet'' ev) (plainPuppet ''n1'')
      = ([(''reply/1'', re)], r, plainPuppet ''n1'')"
    "rp_FQDN (newReply plainCodec re) = ''n1''" "filter_verdict (newReply plainCodec re) = VMatched"
    by (rule plain_status_answer [OF assms])
  let ?w = "calledNet ev"
  have d: "nt_daemons ?w ! 0 = plainPuppet ''n1''" "0 < length (nt_daemons ?w)" "(''puppet'', ev) \<in> set (nt_sent ?w)"
    by (simp_all add: calledNet_def emptyNet_def)
  define w1 where "w1 = ?w\<lparr>nt_sent := nt_sent ?w @ [(''reply/1'', re)], nt_served := nt_served ?w @
    [\<lparr>sv_daemon = 0, sv_zygo = plainZygo, sv_now = 0, sv_state = nt_daemons ?w ! 0, sv_topic = ''puppet'', sv_request = ev, sv_out = [(''reply/1'', re)]\<rparr>],
    nt_daemons := (nt_daemons ?w)[0 := plainPuppet ''n1'']\<rparr>"
  have "net_step {plainZygo} plainCodec plainKey ?w w1"
    unfolding w1_def by (rule nt_serve [OF d(2,3) under_refl]) (simp_all only: d(1) h(1) singleton_iff)
  then have r1: "net_reachable {plainZygo} plainCodec plainKey w1" by (rule nr_step [OF calledNet_reachable [OF assms]])
  have w1: "nt_sessions w1 = [plainCall]" "(''reply/1'', re) \<in> set (nt_sent w1)" "nt_daemons w1 = [plainPuppet ''n1'']"
    "nt_requests w1 = nt_requests ?w"
    by (simp_all add: w1_def calledNet_def emptyNet_def)
  define s2 where "s2 = route plainCodec (arrive plainKey ''reply/1'' re) plainCall"
  define w2 where "w2 = w1\<lparr>nt_sessions := [s2]\<rparr>"
  have u: "under (s_replyPath plainCall) ''reply/1''" by (simp add: plainCall_def under_def hasPrefix_def)
  have "net_step {plainZygo} plainCodec plainKey w1 (w1\<lparr>nt_sessions := (nt_sessions w1)[0 := route plainCodec
      (arrive plainKey ''reply/1'' re) (nt_sessions w1 ! 0)]\<rparr>)"
    by (rule nt_deliver [OF _ w1(2)]) (simp_all add: w1 u)
  then have "net_step {plainZygo} plainCodec plainKey w1 w2" by (simp add: w2_def w1 s2_def)
  from nr_step [OF r1 this] have r2: "net_reachable {plainZygo} plainCodec plainKey w2" .
  have re: "\<exists>b ty. re = reply_event (plainPuppet ''n1'') (arrive plainKey ''puppet'' ev) b ty"
    using HandleEvent_cases [OF h(1)] by auto
  have "gm_get (ev_Headers (arrive plainKey ''puppet'' ev)) ''correlation-id'' = Some (HStr ''1'')"
    using assms by (auto simp: Call_event_def set_header_def split: sum.splits)
  then have "callID (arrive plainKey ''reply/1'' re) = ''1''" using re callID_reply by fastforce
  then have s2: "s_chans s2 = [[newReply plainCodec re]]" "s_got s2 = [[]]" "s_live s2 = [0]"
    by (simp_all add: s2_def route_def plainCall_def replyBuffer_def Let_def)
  let ?w3 = "w2\<lparr>nt_sessions := [Call_take 0 s2]\<rparr>"
  have "session_alone s2 (Call_take 0 s2)" by (rule sa_take) (simp add: s2)
  then have "net_step {plainZygo} plainCodec plainKey w2 ?w3"
    using nt_session [of 0 w2 "Call_take 0 s2"] by (simp add: w2_def)
  from nr_step [OF r2 this] show ?thesis
    using s2 h(2,3) by (intro that [of ?w3 "newReply plainCodec re"]) (simp_all add: w2_def w1 Call_take_def)
qed

theorem replies_answer_their_own_request_witness:
  "\<exists>w r. net_reachable {plainZygo} plainCodec plainKey w \<and> s_got (nt_sessions w ! 0) ! 0 = [r]
     \<and> (\<exists>rl \<in> set (nt_requests w). \<exists>sv \<in> set (nt_served w). rl_call rl = 0 \<and> sv_request sv = rl_event rl
         \<and> rp_FQDN r = p_fqdn (sv_state sv))"
proof -
  obtain ev where ev: "Call_event plainCodec (plainNode ''c'') plainCall ''1'' (statusRequest ''true'') = Inr ev"
    by (simp add: Call_event_def plainCodec_def)
  obtain w r where w: "net_reachable {plainZygo} plainCodec plainKey w" "length (nt_sessions w) = 1"
    "length (s_chans (nt_sessions w ! 0)) = 1" "s_got (nt_sessions w ! 0) ! 0 = [r]"
    by (rule answeredNet [OF ev])
  from replies_answer_their_own_request [OF w(1) _ refl, of 0 0 r] w show ?thesis by fastforce
qed

theorem reported_verdicts_are_real_witness:
  "\<exists>w sent out called. net_reachable {plainZygo} plainCodec plainKey w
     \<and> FilterMatch plainCodec (plainNode ''c'') plainSession ''1'' ''true'' (s_got (nt_sessions w ! 0) ! 0) = (sent, out, called, None)
     \<and> fo_Matched out = [''n1''] \<and> (\<exists>sv \<in> set (nt_served w). p_fqdn (sv_state sv) = ''n1'')"
proof -
  obtain ev where ev: "Call_event plainCodec (plainNode ''c'') plainCall ''1'' (statusRequest ''true'') = Inr ev"
    "Call_event plainCodec (plainNode ''c'') plainSession ''1'' (statusRequest ''true'') = Inr ev"
    by (simp add: Call_event_def plainCodec_def plainCall_def plainSession_def)
  obtain w r where w: "net_reachable {plainZygo} plainCodec plainKey w" "s_got (nt_sessions w ! 0) ! 0 = [r]"
    "nt_requests w = nt_requests (calledNet ev)" "rp_FQDN r = ''n1''" "filter_verdict r = VMatched"
    by (rule answeredNet [OF ev(1)])
  let ?rl = "\<lparr>rl_session = 0, rl_call = 0, rl_cid = ''1'', rl_req = statusRequest ''true'', rl_event = ev\<rparr>"
  have rl: "?rl \<in> set (nt_requests w)" by (simp add: w(3) calledNet_def)
  have v: "rp_NodeErr r = None" "\<not> rp_NoMatch r" using w(5) by (auto simp: filter_verdict_def split: option.splits if_splits)
  let ?out = "\<lparr>fo_Matched = [''n1''], fo_NoMatch = [], fo_Errors = []\<rparr>"
  have f: "FilterMatch plainCodec (plainNode ''c'') plainSession ''1'' ''true'' [r] = ([(''puppet'', ev)], ?out, [''n1''], None)"
    unfolding FilterMatch_def Session_Call_runs [OF ev(2) plain_sends]
    by (simp add: statusRequest_def onEvery_def filterReply_def emptyFilterOutcome_def w(4) v)
  have "\<exists>sv \<in> set (nt_served w). p_fqdn (sv_state sv) = ''n1''"
    using reported_verdicts_are_real [OF w(1) rl plainCodec_ok, of "''true''" "[r]" "plainNode ''c''" plainSession "''1''"
        "[(''puppet'', ev)]" ?out "[''n1'']" "''n1''" VMatched] w(2) f
    by (auto simp: filter_tag_def)
  with w(1,2) f show ?thesis by fastforce
qed

lemma nt_alone_single:
  assumes "net_reachable zs cd key w" and "nt_daemons w = [p]" and "daemon_alone p p'"
  shows "net_reachable zs cd key (w\<lparr>nt_daemons := [p']\<rparr>)"
  using nr_step [OF assms(1) nt_alone [of 0 w p' zs cd key]] assms(2,3) by simp

lemma da_single:
  assumes "runner_move r (p_runStatus p) (Some r') st sp" and "p_runners p = [r]"
  shows "daemon_alone p (p\<lparr>p_runners := [r'], p_runStatus := st, p_spawned := p_spawned p @ sp\<rparr>)"
  using da_move [of p "[]" r "[]" r' st sp] assms by simp


end
