(* ===== verification/Hvminfo.thy ===== *)
theory Hvminfo
  imports Puppet_Data
begin

text \<open>
  What a virtual machine learns of its host (\<^verbatim>\<open>hvminfo/\<close>): the daemon on the host answers a one
  byte question with its name, the daemon in the guest asks over a serial line and keeps the
  answer as a fact file for puppet. Encoding, the serial line and the socket are parameters; a
  run is what arrives on them.
\<close>

section \<open>Data\<close>

definition CmdInfo :: string where "CmdInfo = ''I''"

record HVMInfo = vi_FQDN :: string

record hvm_Facts =
  vf_VmHost :: string
  vf_RodrevVersion :: string

record ConfigClient =
  vc_Port :: string
  vc_Speed :: int
  vc_PuppetFactPath :: string
  vc_Version :: string

record ConfigServer =
  vs_Listen :: string
  vs_Info :: HVMInfo

definition HVMInfo_Default :: "string \<Rightarrow> HVMInfo \<Rightarrow> HVMInfo" where
  "HVMInfo_Default fqdn h = (if vi_FQDN h = '''' then h\<lparr>vi_FQDN := fqdn\<rparr> else h)"

section \<open>The host\<close>

text \<open>
  What the socket delivers: a packet with its sender, or an error, after which the daemon sleeps
  an hour and panics. A packet fills a fresh, zeroed buffer of 1500 bytes.
\<close>

datatype packet = Datagram string string | RecvError string

definition server_data :: "(HVMInfo \<Rightarrow> string + string) \<Rightarrow> ConfigServer \<Rightarrow> string" where
  "server_data marshal c = (case marshal (vs_Info c) of Inl er \<Rightarrow> '''' | Inr d \<Rightarrow> d) @ [NL]"

definition packetBuf :: "string \<Rightarrow> string" where
  "packetBuf p = take 1500 p @ replicate (1500 - length p) (CHR 0x00)"

text \<open>The answers sent, with their receivers, and whether the daemon panicked.\<close>

fun server_loop :: "string \<Rightarrow> packet list \<Rightarrow> (string \<times> string) list \<times> bool" where
  "server_loop data [] = ([], False)"
| "server_loop data (RecvError er # ps) = ([], True)"
| "server_loop data (Datagram addr p # ps) =
     (let (sent, panicked) = server_loop data ps
      in (if strContains (packetBuf p) ''I'' then (addr, data) # sent else sent, panicked))"

definition RunServer ::
  "(string \<Rightarrow> string + 'addr) \<Rightarrow> ('addr \<Rightarrow> string option) \<Rightarrow> (HVMInfo \<Rightarrow> string + string) \<Rightarrow> ConfigServer
     \<Rightarrow> packet list \<Rightarrow> (string \<times> string) list \<times> bool" where
  "RunServer resolve listen marshal c packets =
     (case resolve (vs_Listen c) of
        Inl er \<Rightarrow> ([], True)
      | Inr udpAddr \<Rightarrow>
        (case listen udpAddr of
           Some er \<Rightarrow> ([], True)
         | None \<Rightarrow> server_loop (server_data marshal c) packets))"

section \<open>The guest\<close>

text \<open>The checks before the reader starts; \<open>serial\<close> opens the port.\<close>

definition RunClient :: "(string \<Rightarrow> int \<Rightarrow> string option) \<Rightarrow> ConfigClient option \<Rightarrow> string option" where
  "RunClient serial cfg =
     (case cfg of
        None \<Rightarrow> Some ''no config passed''
      | Some c \<Rightarrow>
          if length (vc_Port c) < 1 then Some ''need Port parameter''
          else case serial (vc_Port c) (vc_Speed c) of
            Some er \<Rightarrow> Some (''error opening '' @ vc_Port c @ '': '' @ er)
          | None \<Rightarrow> None)"

text \<open>
  How the disk behaves while one line is handled. A failed write leaves the first \<open>vw_part\<close> bytes in
  the file, or no trace at all when even opening it failed.
\<close>

record vmWorld =
  vw_write :: "string option"
  vw_part :: "nat option"
  vw_rename :: "string option"

text \<open>Writing empties the file and then fills it: every disk on the way can be seen.\<close>

definition writeFile :: "vmWorld \<Rightarrow> string \<Rightarrow> string \<Rightarrow> disk \<Rightarrow> disk list" where
  "writeFile w path content d =
     (let mode = (case gm_get d path of Some (_, m) \<Rightarrow> m | None \<Rightarrow> 420)
      in case vw_write w of
           None \<Rightarrow> growing path mode content d
         | Some er \<Rightarrow> (case vw_part w of None \<Rightarrow> [] | Some n \<Rightarrow> growing path mode (take n content) d))"

definition renameFile :: "vmWorld \<Rightarrow> string \<Rightarrow> string \<Rightarrow> disk \<Rightarrow> disk" where
  "renameFile w old new d =
     (case (vw_rename w, gm_get d old) of
        (None, Some file) \<Rightarrow> gm_put new file (gm_del old d)
      | _ \<Rightarrow> d)"

text \<open>What is written of the host: nothing when the facts cannot be encoded.\<close>

definition factYAML :: "(hvm_Facts \<Rightarrow> string + string) \<Rightarrow> ConfigClient \<Rightarrow> HVMInfo \<Rightarrow> string" where
  "factYAML marshal cfg i =
     (case marshal \<lparr>vf_VmHost = vi_FQDN i, vf_RodrevVersion = vc_Version cfg\<rparr> of Inl er \<Rightarrow> '''' | Inr out \<Rightarrow> out)"

text \<open>
  One line from the host: the disks an observer can see, the last one left behind. Every error is
  logged and the next call made all the same.
\<close>

definition client_line ::
  "(string \<Rightarrow> string + HVMInfo) \<Rightarrow> (hvm_Facts \<Rightarrow> string + string) \<Rightarrow> vmWorld \<Rightarrow> ConfigClient \<Rightarrow> disk \<Rightarrow> string
     \<Rightarrow> disk list" where
  "client_line unmarshal marshal w cfg d line =
     (case unmarshal line of
        Inl er \<Rightarrow> [d]
      | Inr i \<Rightarrow>
          if length (vc_PuppetFactPath cfg) > 0 \<and> length (vi_FQDN i) > 0 then
            (let data = factYAML marshal cfg i;
                 tmp = vc_PuppetFactPath cfg @ ''.tmp'';
                 ds = d # writeFile w tmp data d;
                 d2 = renameFile w tmp (vc_PuppetFactPath cfg) (last ds)
             in ds @ [d2])
          else [d])"

fun client_lines ::
  "(string \<Rightarrow> string + HVMInfo) \<Rightarrow> (hvm_Facts \<Rightarrow> string + string) \<Rightarrow> ConfigClient \<Rightarrow> disk
     \<Rightarrow> (vmWorld \<times> string) list \<Rightarrow> disk list" where
  "client_lines unmarshal marshal cfg d [] = [d]"
| "client_lines unmarshal marshal cfg d ((w, line) # rest) =
     (let ds = client_line unmarshal marshal w cfg d line
      in ds @ client_lines unmarshal marshal cfg (last ds) rest)"

text \<open>The reader over everything the line carries; it stops at a line that is too long.\<close>

definition client_read ::
  "(string \<Rightarrow> string + HVMInfo) \<Rightarrow> (hvm_Facts \<Rightarrow> string + string) \<Rightarrow> (nat \<Rightarrow> vmWorld) \<Rightarrow> ConfigClient \<Rightarrow> disk
     \<Rightarrow> string \<Rightarrow> disk list" where
  "client_read unmarshal marshal ws cfg d stream =
     client_lines unmarshal marshal cfg d (map (\<lambda>(n, l). (ws n, l)) (List.enumerate 0 (fst (scanLines stream))))"

section \<open>Lemmas\<close>

definition vm_ok :: "vmWorld \<Rightarrow> bool" where
  "vm_ok w \<longleftrightarrow> vw_write w = None \<and> vw_rename w = None"

lemma client_line_nonempty [simp]: "client_line u m w cfg d l \<noteq> []"
  by (simp add: client_line_def Let_def split: sum.splits)

text \<open>What the fact file can come to hold through one line.\<close>

definition wholeFact ::
  "(string \<Rightarrow> string + HVMInfo) \<Rightarrow> (hvm_Facts \<Rightarrow> string + string) \<Rightarrow> ConfigClient \<Rightarrow> string set \<Rightarrow> string \<Rightarrow> bool" where
  "wholeFact u m cfg lines content \<longleftrightarrow>
     (\<exists>line \<in> lines. \<exists>i. u line = Inr i \<and> vi_FQDN i \<noteq> '''' \<and> content = factYAML m cfg i)"

lemma tmp_path: "p @ ''.tmp'' \<noteq> p" "p \<noteq> p @ ''.tmp''"
  by simp_all

lemma writeFile_other: "\<lbrakk>d' \<in> set (writeFile w path content d); p \<noteq> path\<rbrakk> \<Longrightarrow> gm_get d' p = gm_get d p"
  by (auto simp: writeFile_def Let_def growing_other split: option.splits)

lemma writeFile_done:
  assumes "vw_write w = None"
  obtains mode where "last (d # writeFile w path content d) = gm_put path (content, mode) d"
  using assms by (simp add: writeFile_def Let_def growing_last)

lemma client_line_file:
  assumes "vw_write w = None" and "d' \<in> set (client_line u m w cfg d l)"
  shows "gm_get d' (vc_PuppetFactPath cfg) = gm_get d (vc_PuppetFactPath cfg)
    \<or> (\<exists>content mode. gm_get d' (vc_PuppetFactPath cfg) = Some (content, mode) \<and> wholeFact u m cfg {l} content)"
proof (cases "\<exists>i. u l = Inr i \<and> vc_PuppetFactPath cfg \<noteq> [] \<and> vi_FQDN i \<noteq> []")
  case True
  then obtain i where i: "u l = Inr i" "vc_PuppetFactPath cfg \<noteq> []" "vi_FQDN i \<noteq> []" by blast
  let ?p = "vc_PuppetFactPath cfg" and ?data = "factYAML m cfg i"
  let ?ws = "writeFile w (?p @ ''.tmp'') ?data d"
  let ?d2 = "renameFile w (?p @ ''.tmp'') ?p (last (d # ?ws))"
  have "client_line u m w cfg d l = (d # ?ws) @ [?d2]" using i by (simp add: client_line_def Let_def)
  then consider "d' = d" | "d' \<in> set ?ws" | "d' = ?d2" using assms(2) by auto
  then show ?thesis
  proof cases
    case 2
    then show ?thesis using writeFile_other [OF _ tmp_path(2)] by blast
  next
    case 3
    obtain mode where "last (d # ?ws) = gm_put (?p @ ''.tmp'') (?data, mode) d" by (rule writeFile_done [OF assms(1)])
    then have "gm_get d' ?p = gm_get d ?p \<or> gm_get d' ?p = Some (?data, mode)"
      unfolding 3 by (simp add: renameFile_def tmp_path split: option.splits)
    then show ?thesis using i by (auto simp: wholeFact_def)
  qed simp
next
  case False
  then have "client_line u m w cfg d l = [d]" by (auto simp: client_line_def split: sum.splits)
  then show ?thesis using assms(2) by simp
qed

lemma wholeFact_mono: "wholeFact u m cfg A c \<Longrightarrow> A \<subseteq> B \<Longrightarrow> wholeFact u m cfg B c"
  unfolding wholeFact_def by blast

lemma client_lines_file:
  assumes "\<forall>(w, l) \<in> set wls. vw_write w = None" and "d' \<in> set (client_lines u m cfg d wls)"
  shows "gm_get d' (vc_PuppetFactPath cfg) = gm_get d (vc_PuppetFactPath cfg)
    \<or> (\<exists>content mode. gm_get d' (vc_PuppetFactPath cfg) = Some (content, mode)
         \<and> wholeFact u m cfg (snd ` set wls) content)"
  using assms
proof (induction wls arbitrary: d)
  case Nil
  then show ?case by simp
next
  case (Cons wl wls)
  obtain w l where wl: "wl = (w, l)" by (cases wl)
  let ?ds = "client_line u m w cfg d l" and ?p = "vc_PuppetFactPath cfg"
  let ?whole = "\<lambda>d A. \<exists>content mode. gm_get d ?p = Some (content, mode) \<and> wholeFact u m cfg A content"
  have mono: "?whole x A \<Longrightarrow> A \<subseteq> B \<Longrightarrow> ?whole x B" for x A B using wholeFact_mono by blast
  have w: "vw_write w = None" using Cons.prems(1) wl by simp
  have line: "gm_get x ?p = gm_get d ?p \<or> ?whole x (snd ` set (wl # wls))" if "x \<in> set ?ds" for x
    using client_line_file [OF w that] mono [of x "{l}" "snd ` set (wl # wls)"] wl by auto
  consider "d' \<in> set ?ds" | "d' \<in> set (client_lines u m cfg (last ?ds) wls)"
    using Cons.prems(2) wl by (auto simp: Let_def)
  then show ?case
  proof cases
    case 1
    then show ?thesis by (rule line)
  next
    case 2
    have "\<forall>(w, l) \<in> set wls. vw_write w = None" using Cons.prems(1) by simp
    from Cons.IH [OF this 2] have "gm_get d' ?p = gm_get (last ?ds) ?p \<or> ?whole d' (snd ` set (wl # wls))"
      using mono [of d' "snd ` set wls" "snd ` set (wl # wls)"] by auto
    moreover have "last ?ds \<in> set ?ds" by simp
    ultimately show ?thesis using line [of "last ?ds"] by metis
  qed
qed

lemma scanLines_line:
  assumes "NL \<notin> set l" and "length l < maxScanTokenSize" and "l = [] \<or> last l \<noteq> CHR 0x0D"
  shows "scanLines (l @ [NL]) = ([l], None)"
proof -
  have "raw_lines (l @ [NL]) = [l]" using assms(1) by (simp add: raw_lines_def strSplit_whole)
  moreover have "dropCR l = l"
    using assms(3) by (cases l rule: rev_cases) (simp_all add: dropCR_def trimSuffix_def hasSuffix_def hasPrefix_def)
  ultimately show ?thesis using assms(2) by (simp add: scanLines_def)
qed

section \<open>Properties\<close>

text \<open>
  The question the guest sends makes the host answer once, to the guest; and that answer, read
  from the line, leaves the fact file with the host's name and the daemon's version, whatever the
  disk held, when the calls succeed. Of the encodings it is used that JSON of the host's data is
  one line of less than 64 KiB, ends with a brace and reads back.
\<close>

theorem guest_learns_its_host:
  assumes "marshalJ (vs_Info c) = Inr j" and "unmarshalJ j = Inr (vs_Info c)"
    and "NL \<notin> set j" and "length j < maxScanTokenSize" and "last j = CHR ''}''"
    and "vi_FQDN (vs_Info c) \<noteq> ''''" and "vc_PuppetFactPath cfg \<noteq> ''''"
    and "marshalY \<lparr>vf_VmHost = vi_FQDN (vs_Info c), vf_RodrevVersion = vc_Version cfg\<rparr> = Inr y"
    and "vm_ok (ws 0)"
  shows "\<exists>answer mode. server_loop (server_data marshalJ c) [Datagram guest CmdInfo] = ([(guest, answer)], False)
    \<and> gm_get (last (client_read unmarshalJ marshalY ws cfg d answer)) (vc_PuppetFactPath cfg) = Some (y, mode)"
proof -
  let ?p = "vc_PuppetFactPath cfg"
  have scan: "scanLines (j @ [NL]) = ([j], None)" using assms(3-5) by (intro scanLines_line) auto
  have "strContains (packetBuf CmdInfo) ''I''"
    unfolding strContains_iff packetBuf_def CmdInfo_def
    by (intro exI [of _ "[]"] exI [of _ "replicate 1499 (CHR 0x00)"]) simp
  then have sent: "server_loop (server_data marshalJ c) [Datagram guest CmdInfo] = ([(guest, j @ [NL])], False)"
    using assms(1) by (simp add: server_data_def)
  have ok: "vw_write (ws 0) = None" "vw_rename (ws 0) = None" using assms(9) by (simp_all add: vm_ok_def)
  obtain m0 where w: "last (d # writeFile (ws 0) (?p @ ''.tmp'') y d) = gm_put (?p @ ''.tmp'') (y, m0) d"
    by (rule writeFile_done [OF ok(1)])
  have "\<exists>mode. gm_get (last (client_line unmarshalJ marshalY (ws 0) cfg d j)) ?p = Some (y, mode)"
    using assms(2,6-8) ok(2) w by (simp add: client_line_def renameFile_def factYAML_def Let_def)
  then obtain mode where
    "gm_get (last (client_line unmarshalJ marshalY (ws 0) cfg d j)) ?p = Some (y, mode)" by blast
  then have "gm_get (last (client_read unmarshalJ marshalY ws cfg d (j @ [NL]))) ?p = Some (y, mode)"
    by (simp add: client_read_def scan Let_def)
  then show ?thesis using sent by blast
qed

text \<open>
  C37: As long as writing the temporary file succeeds, the fact file holds at every moment, also while
  the file is being written, what it held before or the complete encoding of a host name that
  arrived on the line (nothing, where the encoder fails); renames may fail.
\<close>

theorem fact_file_is_never_torn:
  assumes "\<forall>n. vw_write (ws n) = None"
    and "d' \<in> set (client_read unmarshal marshal ws cfg d stream)"
  shows "gm_get d' (vc_PuppetFactPath cfg) = gm_get d (vc_PuppetFactPath cfg)
    \<or> (\<exists>content mode. gm_get d' (vc_PuppetFactPath cfg) = Some (content, mode)
         \<and> wholeFact unmarshal marshal cfg (set (fst (scanLines stream))) content)"
proof -
  let ?wls = "map (\<lambda>(n, l). (ws n, l)) (List.enumerate 0 (fst (scanLines stream)))"
  have "\<forall>(w, l) \<in> set ?wls. vw_write w = None" using assms(1) by auto
  note held = client_lines_file [OF this assms(2) [unfolded client_read_def]]
  have "snd ` set ?wls \<subseteq> set (fst (scanLines stream))" by (auto simp: in_set_enumerate_eq)
  then show ?thesis using held wholeFact_mono by blast
qed

text \<open>A failed write is renamed into place all the same: the reader ignores the error.\<close>

lemma failed_write_is_installed:
  assumes "vw_write w = Some er" and "vw_part w = Some n" and "vw_rename w = None"
    and "unmarshal line = Inr i" and "vi_FQDN i \<noteq> ''''" and "vc_PuppetFactPath cfg \<noteq> ''''"
  shows "\<exists>mode. gm_get (last (client_line unmarshal marshal w cfg d line)) (vc_PuppetFactPath cfg)
    = Some (take n (factYAML marshal cfg i), mode)"
  using assms by (simp add: client_line_def writeFile_def renameFile_def growing_last Let_def)

section \<open>The properties at concrete inputs\<close>

definition theGuest :: ConfigClient where
  "theGuest = \<lparr>vc_Port = ''/dev/ttyS1'', vc_Speed = 115200, vc_PuppetFactPath = ''/f.yaml'', vc_Version = ''1''\<rparr>"

definition goodWorld :: vmWorld where
  "goodWorld = \<lparr>vw_write = None, vw_part = None, vw_rename = None\<rparr>"

definition jsonOf :: "HVMInfo \<Rightarrow> string + string" where
  "jsonOf i = Inr (vi_FQDN i @ ''}'')"

definition jsonRead :: "string \<Rightarrow> string + HVMInfo" where
  "jsonRead s = (if hasSuffix s ''}'' then Inr \<lparr>vi_FQDN = butlast s\<rparr> else Inl ''json'')"

definition yamlOf :: "hvm_Facts \<Rightarrow> string + string" where
  "yamlOf f = Inr (vf_VmHost f @ '' '' @ vf_RodrevVersion f)"

theorem guest_learns_its_host_witness:
  "\<exists>answer mode. server_loop (server_data jsonOf \<lparr>vs_Listen = '':1'', vs_Info = \<lparr>vi_FQDN = ''hv1''\<rparr>\<rparr>)
       [Datagram ''g'' CmdInfo] = ([(''g'', answer)], False)
    \<and> gm_get (last (client_read jsonRead yamlOf (\<lambda>n. goodWorld) theGuest [] answer)) ''/f.yaml''
        = Some (''hv1 1'', mode)"
  using guest_learns_its_host [of jsonOf "\<lparr>vs_Listen = '':1'', vs_Info = \<lparr>vi_FQDN = ''hv1''\<rparr>\<rparr>" "''hv1}''"
      jsonRead theGuest yamlOf "''hv1 1''" "\<lambda>n. goodWorld" "''g''" "[]"]
  by (simp add: jsonOf_def jsonRead_def hasSuffix_def hasPrefix_def maxScanTokenSize_def theGuest_def yamlOf_def
      vm_ok_def goodWorld_def)

theorem fact_file_is_never_torn_witness:
  "let ds = client_read jsonRead yamlOf (\<lambda>n. goodWorld) theGuest [] (''hv1}'' @ [NL])
   in last ds \<in> set ds \<and> (gm_get (last ds) ''/f.yaml'' = None
     \<or> (\<exists>content mode. gm_get (last ds) ''/f.yaml'' = Some (content, mode)
          \<and> wholeFact jsonRead yamlOf theGuest {''hv1}''} content))"
proof -
  let ?ds = "client_read jsonRead yamlOf (\<lambda>n. goodWorld) theGuest [] (''hv1}'' @ [NL])"
  have scan: "scanLines (''hv1}'' @ [NL]) = ([''hv1}''], None)"
    by (rule scanLines_line) (simp_all add: maxScanTokenSize_def)
  have "client_read jsonRead yamlOf ws cfg d (''hv1}'' @ [NL]) \<noteq> []" for ws cfg d
    unfolding client_read_def scan by (simp add: Let_def)
  then have "last ?ds \<in> set ?ds" by (intro last_in_set)
  moreover have "\<forall>n. vw_write ((\<lambda>n. goodWorld) n) = None" by (simp add: goodWorld_def)
  ultimately show ?thesis
    using fact_file_is_never_torn [of "\<lambda>n. goodWorld" "last ?ds" jsonRead yamlOf theGuest "[]" "''hv1}'' @ [NL]"] scan
    by (simp add: theGuest_def Let_def)
qed

end
