(* ===== verification/Daemon.thy ===== *)
theory Daemon
  imports Listener Setup Downtime Client_Query
begin

text \<open>
  The start of the daemon (\<^verbatim>\<open>daemon/daemon.go\<close>) and of its process (\<^verbatim>\<open>cmd/rvd\<close>): what it announces,
  what it subscribes to, which parts it starts in which order, and whether the start returns at
  all or stays inside its last part with the others running. Goroutines are entries of the started daemon; what they do afterwards is in \<open>Listener\<close>,
  \<open>Heartbeat_Cleanup\<close>, \<open>Puppet_Server\<close> and \<open>Hvminfo\<close>. Libraries are fields of \<open>daemonEnv\<close>.
\<close>

section \<open>What the daemon announces\<close>

definition heartbeatInterval :: duration where "heartbeatInterval = minute"

text \<open>The service entry as JSON sees it: empty optional fields are left out.\<close>

definition rodrevData :: "RodrevService \<Rightarrow> gv" where
  "rodrevData sv = GMap
     ([(''fqdn'', GStr (rv_FQDN sv))]
      @ (if rv_Version sv = '''' then [] else [(''version'', GStr (rv_Version sv))])
      @ (if rv_Certname sv = '''' then [] else [(''certname'', GStr (rv_Certname sv))])
      @ (if rv_Features sv = [] then [] else [(''features'', GArr (map GStr (rv_Features sv)))])
      @ (if rv_HeartbeatInterval sv = 0 then [] else [(''heartbeat_interval'', GInt (rv_HeartbeatInterval sv))]))"

definition daemonService :: "string \<Rightarrow> string \<Rightarrow> RodrevService" where
  "daemonService fqdn version =
     \<lparr>rv_FQDN = fqdn, rv_Version = version, rv_Certname = '''', rv_Features = Features,
      rv_HeartbeatInterval = heartbeatInterval\<rparr>"

definition daemonNodeConfig :: "string \<Rightarrow> string \<Rightarrow> string \<Rightarrow> NodeConfig" where
  "daemonNodeConfig fqdn uuid version =
     \<lparr>nc_Name = fqdn, nc_UUID = uuid, nc_ID = '''', nc_HeartbeatInterval = heartbeatInterval,
      nc_Services = [(RodrevServiceName, Some (rodrevData (daemonService fqdn version))), (''puppet'', None)]\<rparr>"

section \<open>Downtimes: the server's side of the start\<close>

definition NewDowntimeServer ::
  "(string \<Rightarrow> string \<Rightarrow> string \<Rightarrow> string option) \<Rightarrow> string + nat \<Rightarrow> bool \<Rightarrow> string \<Rightarrow> string \<Rightarrow> string \<Rightarrow> string option" where
  "NewDowntimeServer newAPI hosts logger apiURL user pass =
     (case newAPI apiURL user pass of
        Some er \<Rightarrow> Some (''icinga API error: '' @ er)
      | None \<Rightarrow>
          if \<not> logger then Some ''pass logger''
          else if length apiURL < 5 then Some ''pass icinga url''
          else case hosts of
            Inl er \<Rightarrow> Some (''couldn't connect to ['' @ apiURL @ '']: '' @ er)
          | Inr n \<Rightarrow> None)"

text \<open>
  The loop that feeds the downtime server runs inside the start itself. \<open>subs n\<close> is what the n-th
  subscription comes to, each event with the two readings of the clock its handler takes. \<open>None\<close>: the
  loop does not end, be it that a channel stays open or that subscriptions keep being closed and
  renewed. Otherwise the downtimes scheduled and the states reported, the error that ended the loop
  among them.
\<close>

partial_function (option) icinga_loop ::
  "('b \<Rightarrow> string + DowntimeRequest) \<Rightarrow> (nat \<Rightarrow> ((gotime \<times> gotime) \<times> 'b event) subscription) \<Rightarrow> nat \<Rightarrow> icingaDowntime list
     \<Rightarrow> (monState \<times> string) list \<Rightarrow> (icingaDowntime list \<times> (monState \<times> string) list) option" where
  "icinga_loop decode subs n done states =
     (case subs n of
        Refused er \<Rightarrow> Some (done, states @ [(StateCritical, er)])
      | Closed evs \<Rightarrow> icinga_loop decode subs (Suc n) (done @ downtime_Run decode evs)
          (states @ [(StateOk, ''ok''), (StateCritical, ''disconnected'')])
      | Lasting evs \<Rightarrow> None)"

section \<open>The start\<close>

record ('b, 's) daemonEnv =
  de_urls :: urlLib
  de_host :: hostLib
  de_uuid :: string
  de_transport :: "string \<Rightarrow> url \<Rightarrow> string option"
  de_build :: "madeNode \<Rightarrow> string + gv option gomap"
  de_subscribe :: "string \<Rightarrow> string option"
  de_zn :: "madeNode \<Rightarrow> 'b zn"
  de_files :: files
  de_puppetInPath :: bool
  de_puppetLocal :: bool
  de_ipset :: "'s ipsetLib"
  de_icingaNew :: "string \<Rightarrow> string \<Rightarrow> string \<Rightarrow> string option"
  de_icingaHosts :: "string + nat"
  de_icingaSubs :: "nat \<Rightarrow> ((gotime \<times> gotime) \<times> 'b event) subscription"
  de_icingaDecode :: "'b \<Rightarrow> string + DowntimeRequest"

datatype daemonTask = PuppetTask | FenceTask | IPSetTask string

text \<open>
  A started daemon: its runtime, the parts it runs and the topics they listen on, what the
  monitoring states were set to on the way, and whether the goroutine of the web server was started.
\<close>

record ('b, 's) daemon =
  dm_fqdn :: string
  dm_node :: madeNode
  dm_prefix :: string
  dm_metadata :: "gv gomap"
  dm_cleanup :: "string + (string list \<times> cleanupConfig) option"
  dm_puppet :: "'b puppet"
  dm_fence :: "'b fence option"
  dm_ipsets :: "'s option gomap"
  dm_listens :: "(string \<times> daemonTask) list"
  dm_monitor :: "(string \<times> monState \<times> string) list"
  dm_downtimes :: "icingaDowntime list"
  dm_web :: bool

definition ipsetTopic :: "IPSetConfig \<Rightarrow> string" where
  "ipsetTopic c = ''ipset/'' @ is_BroadcastGroup c @ ''/'' @ is_Name c"

text \<open>The states and listeners of the ipset part, for the library's outcome.\<close>

definition start_ipsets ::
  "'s ipsetLib \<Rightarrow> (string \<times> IPSetConfig) list
     \<Rightarrow> 's option gomap \<times> (string \<times> daemonTask) list \<times> (string \<times> monState \<times> string) list" where
  "start_ipsets lib cfg =
     (if length cfg > 0 then
        (let init = (''ipset'', StateUnknown, ''initializing'')
         in case NewIPSets lib cfg of
              Inl errs \<Rightarrow> ([], [], [init, (''ipset'', StateCritical, ''errors: ['' @ strJoin errs '' '' @ '']'')])
            | Inr sets \<Rightarrow> (sets, map (\<lambda>(k, c). (ipsetTopic c, IPSetTask (is_Name c))) cfg, [init]))
      else ([], [], []))"

definition daemon_parts :: "('b, 's) daemonEnv \<Rightarrow> appConfig \<Rightarrow> string + ('b, 's) daemon" where
  "daemon_parts e cfg =
     (let fqdn = GetFQDN (de_host e)
      in case NewNode (de_urls e) (de_transport e) (de_build e) cfg
             (daemonNodeConfig fqdn (de_uuid e) (ac_Version cfg)) of
           Inl er \<Rightarrow> Inl er
         | Inr node \<Rightarrow>
             (let cleanup = startHeartbeatCleanup (SubscribeRaw True (de_subscribe e) (ac_MQPrefix cfg)) (ac_HeartbeatCleanup cfg);
                  meta = or_empty (ac_NodeMeta cfg)
              in case NewPuppet (de_files e) (de_puppetInPath e) (de_puppetLocal e) (de_zn e node) fqdn meta
                     \<lparr>pc_LastRunSummaryYAML = '''', pc_LastRunReportYAML = '''', pc_FactsYAML = '''',
                      pc_ClassfilePath = '''', pc_RefreshInterval = 0\<rparr> of
                   Inl er \<Rightarrow> Inl er
                 | Inr pu \<Rightarrow>
                     (let (sets, ipsetListens, ipsetStates) = start_ipsets (de_ipset e) (ac_IPSet cfg)
                      in Inr \<lparr>dm_fqdn = fqdn, dm_node = node, dm_prefix = ac_MQPrefix cfg, dm_metadata = meta,
                              dm_cleanup = cleanup, dm_puppet = pu,
                              dm_fence =
                                (if fc_Enabled (ac_Fence cfg) then
                                   (case fence_New (de_zn e node) fqdn (ac_Fence cfg) of
                                      Inl er \<Rightarrow> None
                                    | Inr f \<Rightarrow> Some f)
                                 else None),
                              dm_ipsets = sets,
                              dm_listens = [(''puppet/#'', PuppetTask)]
                                @ (if fc_Enabled (ac_Fence cfg) then [(''fence/'' @ fqdn, FenceTask)] else [])
                                @ ipsetListens,
                              dm_monitor = [(''puppet'', StateUnknown, ''initializing'')]
                                @ (if fc_Enabled (ac_Fence cfg) then [(''fencing'', StateUnknown, ''initializing'')] else [])
                                @ ipsetStates,
                              dm_downtimes = [], dm_web = False\<rparr>)))"

text \<open>
  What has become of a start: it returned an error, it returned a daemon, or it stays inside the loop
  for the monitoring API, with the daemon it had brought up before it entered the loop.
\<close>

datatype 'd start = Failed string | Returned 'd | Serving 'd

fun started_daemon :: "'d start \<Rightarrow> 'd option" where
  "started_daemon (Failed er) = None"
| "started_daemon (Returned d) = Some d"
| "started_daemon (Serving d) = Some d"

text \<open>The last part but one: the downtimes of the monitoring API.\<close>

definition start_downtimes :: "('b, 's) daemonEnv \<Rightarrow> appConfig \<Rightarrow> ('b, 's) daemon \<Rightarrow> ('b, 's) daemon start" where
  "start_downtimes e cfg d =
     (if length (ac_IcingaAPIURL cfg) > 0 then
        (let d1 = d\<lparr>dm_monitor := dm_monitor d @ [(''icinga_api'', StateUnknown, ''initializing'')]\<rparr>
         in case NewDowntimeServer (de_icingaNew e) (de_icingaHosts e) True (ac_IcingaAPIURL cfg)
                (ac_IcingaAPIUser cfg) (ac_IcingaAPIPass cfg) of
              Some er \<Rightarrow> Returned (d1\<lparr>dm_monitor := dm_monitor d1 @ [(''icinga_api'', StateCritical, er)]\<rparr>)
            | None \<Rightarrow>
                (case icinga_loop (de_icingaDecode e) (de_icingaSubs e) 0 [] [] of
                   None \<Rightarrow> Serving d1
                 | Some (dts, states) \<Rightarrow>
                     Returned (d1\<lparr>dm_monitor := dm_monitor d1 @ map (\<lambda>(st, msg). (''icinga_api'', st, msg)) states,
                                  dm_downtimes := dts\<rparr>)))
      else Returned d)"

text \<open>The last: the web server, which is reached only when the part before it is through.\<close>

definition start_web :: "('b, 's) daemon start \<Rightarrow> ('b, 's) daemon start" where
  "start_web st = (case st of Returned d \<Rightarrow> Returned (d\<lparr>dm_web := True\<rparr>) | _ \<Rightarrow> st)"

definition daemon_New :: "('b, 's) daemonEnv \<Rightarrow> appConfig \<Rightarrow> ('b, 's) daemon start" where
  "daemon_New e cfg =
     (case daemon_parts e cfg of
        Inl er \<Rightarrow> Failed er
      | Inr d \<Rightarrow> start_web (start_downtimes e cfg d))"

section \<open>The process\<close>

text \<open>The flags of \<^verbatim>\<open>rvd\<close>; the rest of its command line is the profiler's address.\<close>

record rvdFlags =
  rf_mqttURL :: string
  rf_config :: string
  rf_debug :: bool

definition rvd_cfgFiles :: "string \<Rightarrow> string list" where
  "rvd_cfgFiles user =
     (if length user > 0 then [user] else [])
     @ [''/etc/rodrev/server.conf'', ''./cfg/server-local.yaml'', ''./cfg/server.yaml'']"

definition rvd_config ::
  "urlLib \<Rightarrow> (string \<Rightarrow> bool) \<Rightarrow> (string list \<Rightarrow> appConfig) \<Rightarrow> string \<Rightarrow> rvdFlags \<Rightarrow> appConfig outcome" where
  "rvd_config lib exists load version f =
     (if length (rf_config f) > 0 \<and> \<not> exists (rf_config f) then Panic
      else outcome_bind (MergeCliConfig lib (rf_mqttURL f) (load (rvd_cfgFiles (rf_config f)))) (\<lambda>cfg.
        Ret (cfg\<lparr>ac_Version := version, ac_Debug := (if rf_debug f then True else ac_Debug cfg)\<rparr>)))"

text \<open>
  What a started process runs: the answering side of the host information with the host's own
  name, the asking side or why it is not running, and the daemon.
\<close>

record ('b, 's) rvd =
  rd_hvmServer :: "ConfigServer option"
  rd_hvmClient :: "(ConfigClient \<times> string option) option"
  rd_daemon :: "('b, 's) daemon start"

definition rvd_Run ::
  "('b, 's) daemonEnv \<Rightarrow> string \<Rightarrow> (string \<Rightarrow> int \<Rightarrow> string option) \<Rightarrow> (string \<Rightarrow> bool) \<Rightarrow> (string list \<Rightarrow> appConfig)
     \<Rightarrow> string \<Rightarrow> rvdFlags \<Rightarrow> ('b, 's) rvd outcome" where
  "rvd_Run e fqdn serial exists load version f =
     outcome_bind (rvd_config (de_urls e) exists load version f) (\<lambda>cfg.
       let client = map_option (\<lambda>c. c\<lparr>vc_Version := version\<rparr>) (ac_HVMInfoClient cfg)
       in Ret \<lparr>rd_hvmServer = map_option (\<lambda>c. c\<lparr>vs_Info := HVMInfo_Default fqdn \<lparr>vi_FQDN = ''''\<rparr>\<rparr>) (ac_HVMInfoServer cfg),
               rd_hvmClient = map_option (\<lambda>c. (c, RunClient serial (Some c))) client,
               rd_daemon = daemon_New e (cfg\<lparr>ac_HVMInfoClient := client\<rparr>)\<rparr>)"

text \<open>
  When the process ends, and with which code. \<open>start\<close> is the daemon's start, which returned at
  \<open>ret\<close> if it did, \<open>hup\<close> the time of a hangup signal. The exit channel holds one code; it is read
  only after the start has returned, and a minute after a hangup a second way out is armed.
\<close>

definition rvd_orderly :: "'d start \<Rightarrow> gotime \<Rightarrow> gotime option \<Rightarrow> (gotime \<times> int) option" where
  "rvd_orderly start ret hup =
     (case start of
        Serving d \<Rightarrow> None
      | Failed er \<Rightarrow>
          (case hup of
             None \<Rightarrow> Some (ret, 1)
           | Some t \<Rightarrow> if t + minute < ret then None else Some (ret, 1))
      | Returned d \<Rightarrow> (case hup of None \<Rightarrow> None | Some t \<Rightarrow> Some (max (t + minute) ret, 0)))"

definition rvd_exit :: "'d start \<Rightarrow> gotime \<Rightarrow> gotime option \<Rightarrow> (gotime \<times> int) option" where
  "rvd_exit start ret hup =
     (case (rvd_orderly start ret hup, hup) of
        (None, None) \<Rightarrow> None
      | (Some x, None) \<Rightarrow> Some x
      | (None, Some t) \<Rightarrow> Some (t + minute + 5 * minute, 0)
      | (Some (x, code), Some t) \<Rightarrow>
          if x \<le> t + minute + 5 * minute then Some (x, code) else Some (t + minute + 5 * minute, 0))"

section \<open>Lemmas\<close>

lemma icinga_loop_Refused:
  "subs n = Refused er \<Longrightarrow> icinga_loop decode subs n done states = Some (done, states @ [(StateCritical, er)])"
  by (subst icinga_loop.simps) simp

lemma icinga_loop_Closed:
  "subs n = Closed evs \<Longrightarrow> icinga_loop decode subs n done states =
     icinga_loop decode subs (Suc n) (done @ downtime_Run decode evs)
       (states @ [(StateOk, ''ok''), (StateCritical, ''disconnected'')])"
  by (subst icinga_loop.simps) simp

lemma icinga_loop_ends:
  assumes "subs (n + k) = Refused er" and "\<forall>m < k. \<exists>evs. subs (n + m) = Closed evs"
  shows "icinga_loop decode subs n done states \<noteq> None"
  using assms
proof (induction k arbitrary: n "done" states)
  case 0
  then show ?case by (simp add: icinga_loop_Refused)
next
  case (Suc k)
  from Suc.prems(2) [rule_format, of 0] obtain evs where e: "subs n = Closed evs" by auto
  have "subs (Suc n + k) = Refused er" using Suc.prems(1) by simp
  moreover have "\<forall>m < k. \<exists>evs. subs (Suc n + m) = Closed evs"
    using Suc.prems(2) by (metis Suc_less_eq add_Suc_right add_Suc_shift)
  ultimately have "icinga_loop decode subs (Suc n) (done @ downtime_Run decode evs)
      (states @ [(StateOk, ''ok''), (StateCritical, ''disconnected'')]) \<noteq> None"
    by (rule Suc.IH)
  then show ?case by (simp only: icinga_loop_Closed [of subs n evs, OF e] simp_thms)
qed

lemma icinga_loop_returned:
  assumes "icinga_loop decode subs n done states = Some r"
  shows "\<exists>k er. subs (n + k) = Refused er \<and> (\<forall>m < k. \<exists>evs. subs (n + m) = Closed evs)"
proof (rule icinga_loop.raw_induct [where P = "\<lambda>decode subs n done states r.
    \<exists>k er. subs (n + k) = Refused er \<and> (\<forall>m < k. \<exists>evs. subs (n + m) = Closed evs)", OF _ assms])
  fix loop decode subs n "done" states r
  assume IH: "\<And>decode subs n done states r. loop decode subs n done states = Some r \<Longrightarrow>
      \<exists>k er. subs (n + k) = Refused er \<and> (\<forall>m < k. \<exists>evs. subs (n + m) = Closed evs)"
    and r: "(case subs n of Refused er \<Rightarrow> Some (done, states @ [(StateCritical, er)])
      | Closed evs \<Rightarrow> loop decode subs (Suc n) (done @ downtime_Run decode evs)
          (states @ [(StateOk, ''ok''), (StateCritical, ''disconnected'')])
      | Lasting evs \<Rightarrow> None) = Some r"
  show "\<exists>k er. subs (n + k) = Refused er \<and> (\<forall>m < k. \<exists>evs. subs (n + m) = Closed evs)"
  proof (cases "subs n")
    case (Refused er)
    then show ?thesis by (intro exI [of _ 0] exI [of _ er]) simp
  next
    case (Closed evs)
    with r have "loop decode subs (Suc n) (done @ downtime_Run decode evs)
        (states @ [(StateOk, ''ok''), (StateCritical, ''disconnected'')]) = Some r" by simp
    from IH [OF this] obtain k er where k: "subs (Suc n + k) = Refused er"
      and m: "\<forall>m < k. \<exists>evs. subs (Suc n + m) = Closed evs" by blast
    have "\<exists>evs. subs (n + m) = Closed evs" if "m < Suc k" for m
      using m Closed that by (cases m) auto
    then show ?thesis using k by (intro exI [of _ "Suc k"] exI [of _ er]) simp
  next
    case (Lasting evs)
    with r show ?thesis by simp
  qed
qed

lemma icinga_loop_iff:
  "icinga_loop decode subs 0 [] [] \<noteq> None \<longleftrightarrow>
     (\<exists>k er. subs k = Refused er \<and> (\<forall>m < k. \<exists>evs. subs m = Closed evs))"
  using icinga_loop_ends [of subs 0] icinga_loop_returned [of decode subs 0] by fastforce

lemma NewNode_services:
  assumes "NewNode lib transport build cfg nc = Inr node"
  shows "\<exists>services. mn_Services node = fold (\<lambda>(name, svc) m. gm_put name svc m) (nc_Services nc) services"
  using assms by (auto simp: NewNode_def Let_def split: if_splits sum.splits option.splits)

lemma daemon_parts_Inr:
  assumes "daemon_parts e cfg = Inr d"
  shows "dm_fqdn d = GetFQDN (de_host e)"
    and "NewNode (de_urls e) (de_transport e) (de_build e) cfg
           (daemonNodeConfig (GetFQDN (de_host e)) (de_uuid e) (ac_Version cfg)) = Inr (dm_node d)"
    and "dm_listens d = [(''puppet/#'', PuppetTask)]
      @ (if fc_Enabled (ac_Fence cfg) then [(''fence/'' @ GetFQDN (de_host e), FenceTask)] else [])
      @ fst (snd (start_ipsets (de_ipset e) (ac_IPSet cfg)))"
    and "dm_web d = False"
    and "dm_fence d = (if fc_Enabled (ac_Fence cfg)
      then Some \<lparr>fe_cfg = ac_Fence cfg, fe_node = de_zn e (dm_node d), fe_fqdn = GetFQDN (de_host e)\<rparr> else None)"
  using assms by (auto simp: daemon_parts_def fence_New_def Let_def split: sum.splits prod.splits)

lemma start_downtimes_keeps:
  "started_daemon (start_downtimes e cfg d) = Some d' \<Longrightarrow>
     dm_fqdn d' = dm_fqdn d \<and> dm_node d' = dm_node d \<and> dm_listens d' = dm_listens d \<and> dm_fence d' = dm_fence d
     \<and> dm_web d' = dm_web d"
  by (auto simp: start_downtimes_def Let_def split: if_splits option.splits prod.splits)

lemma start_web_keeps:
  "started_daemon (start_web st) = Some d' \<Longrightarrow> \<exists>d. started_daemon st = Some d
     \<and> dm_fqdn d' = dm_fqdn d \<and> dm_node d' = dm_node d \<and> dm_listens d' = dm_listens d \<and> dm_fence d' = dm_fence d"
  by (cases st) (auto simp: start_web_def)

text \<open>What a started daemon is, whether its start has returned or serves downtimes.\<close>

lemma daemon_New_fields:
  assumes "started_daemon (daemon_New e cfg) = Some d"
  obtains d0 where "daemon_parts e cfg = Inr d0" and "dm_fqdn d = dm_fqdn d0" and "dm_node d = dm_node d0"
    and "dm_listens d = dm_listens d0" and "dm_fence d = dm_fence d0"
proof -
  obtain d0 where d0: "daemon_parts e cfg = Inr d0"
    using assms by (cases "daemon_parts e cfg") (simp_all add: daemon_New_def)
  with assms obtain d1 where "started_daemon (start_downtimes e cfg d0) = Some d1" "dm_fqdn d = dm_fqdn d1"
    "dm_node d = dm_node d1" "dm_listens d = dm_listens d1" "dm_fence d = dm_fence d1"
    using start_web_keeps [of "start_downtimes e cfg d0" d] by (auto simp: daemon_New_def)
  with start_downtimes_keeps [OF this(1)] that d0 show thesis by simp
qed

lemma daemon_New_services:
  assumes "started_daemon (daemon_New e cfg) = Some d"
  shows "gm_get (mn_Services (dm_node d)) RodrevServiceName = Some (Some (rodrevData (daemonService (dm_fqdn d) (ac_Version cfg))))"
    and "{''puppet'', ''rodrev''} \<subseteq> set (gm_keys (mn_Services (dm_node d)))"
proof -
  let ?sv = "daemonService (dm_fqdn d) (ac_Version cfg)"
  obtain d0 where d0: "daemon_parts e cfg = Inr d0" "dm_fqdn d = dm_fqdn d0" "dm_node d = dm_node d0"
    using assms by (rule daemon_New_fields)
  obtain base where "mn_Services (dm_node d) =
      fold (\<lambda>(name, svc) m. gm_put name svc m) [(RodrevServiceName, Some (rodrevData ?sv)), (''puppet'', None)] base"
    using NewNode_services [OF daemon_parts_Inr(2) [OF d0(1)]] daemon_parts_Inr(1) [OF d0(1)] d0
    by (auto simp: daemonNodeConfig_def)
  then show "gm_get (mn_Services (dm_node d)) RodrevServiceName = Some (Some (rodrevData ?sv))"
    and "{''puppet'', ''rodrev''} \<subseteq> set (gm_keys (mn_Services (dm_node d)))"
    by (simp_all add: RodrevServiceName_def gm_keys_put)
qed

text \<open>The way out when the heartbeat fails: the configured hook, if there is one. Nothing calls it.\<close>

definition daemon_exit :: "(string \<Rightarrow> 'w \<Rightarrow> 'w) option \<Rightarrow> 'w \<Rightarrow> 'w" where
  "daemon_exit exitFunc w = (case exitFunc of None \<Rightarrow> w | Some f \<Rightarrow> f ''queue heartbeat failed'' w)"

text \<open>What a client makes of a heartbeat with the daemon's service entry.\<close>

definition announcedNode :: "string \<Rightarrow> string \<Rightarrow> string list \<Rightarrow> gotime \<Rightarrow> Node" where
  "announcedNode fqdn version services ts =
     \<lparr>nd_FQDN = fqdn, nd_DaemonVersion = version, nd_Services = services, nd_Features = Features,
      nd_LastUpdate = Some ts, nd_StaleAge = 15 * minute\<rparr>"

lemma daemon_staleAge: "staleAge heartbeatInterval = 15 * minute"
  by (simp add: heartbeatInterval_def staleAge_def staleAfter_def minStaleAge_def wrap64_def time_units)

lemma announced_heartbeat:
  assumes "gm_get services RodrevServiceName = Some (Some (rodrevData (daemonService fqdn version)))" and "fqdn \<noteq> ''''"
    and "payload \<noteq> ''''" and "j_nodeInfo j payload = Inr \<lparr>ni_TS = ts, ni_Services = services\<rparr>"
    and "j_marshal j (rodrevData (daemonService fqdn version)) = Inr raw"
    and "j_rodrev j raw = Inr (daemonService fqdn version)"
  shows "parseHeartbeat j \<lparr>msg_Topic = topic, msg_Payload = payload\<rparr>
    = Some (announcedNode fqdn version (sort (gm_keys services)) ts, sort (gm_keys services))"
proof -
  have "rv_HeartbeatInterval (daemonService fqdn version) = heartbeatInterval"
    by (simp add: daemonService_def)
  then have "staleAge (rv_HeartbeatInterval (daemonService fqdn version)) = 15 * minute"
    by (simp add: daemon_staleAge)
  with assms show ?thesis
    by (simp add: parseHeartbeat_def ParseRodrevService_def Let_def announcedNode_def) (simp add: daemonService_def)
qed

section \<open>Properties\<close>

text \<open>
  C10: The start of a daemon returns exactly if it fails, or has no monitoring API to serve, or
  cannot reach it, or one day fails to renew the subscription for downtimes; as long as that
  subscription works the start never returns. The web server is started exactly where the start
  returns a daemon: a daemon whose start stays with the monitoring API runs, and has none.
\<close>

theorem daemon_start_returns_iff:
  "((\<forall>d. daemon_New e cfg \<noteq> Serving d) \<longleftrightarrow>
      (\<exists>er. daemon_parts e cfg = Inl er)
      \<or> ac_IcingaAPIURL cfg = ''''
      \<or> NewDowntimeServer (de_icingaNew e) (de_icingaHosts e) True (ac_IcingaAPIURL cfg) (ac_IcingaAPIUser cfg)
          (ac_IcingaAPIPass cfg) \<noteq> None
      \<or> (\<exists>k er. de_icingaSubs e k = Refused er \<and> (\<forall>m < k. \<exists>evs. de_icingaSubs e m = Closed evs)))
   \<and> (\<forall>d. started_daemon (daemon_New e cfg) = Some d \<longrightarrow> (dm_web d \<longleftrightarrow> daemon_New e cfg = Returned d))"
proof (intro conjI allI impI)
  note loop = icinga_loop_iff [of "de_icingaDecode e" "de_icingaSubs e", symmetric]
  have web: "(\<exists>d. start_web st = Serving d) \<longleftrightarrow> (\<exists>d. st = Serving d)" for st :: "('a, 'b) daemon start"
    by (cases st) (simp_all add: start_web_def)
  show "(\<forall>d. daemon_New e cfg \<noteq> Serving d) \<longleftrightarrow>
      (\<exists>er. daemon_parts e cfg = Inl er)
      \<or> ac_IcingaAPIURL cfg = ''''
      \<or> NewDowntimeServer (de_icingaNew e) (de_icingaHosts e) True (ac_IcingaAPIURL cfg) (ac_IcingaAPIUser cfg)
          (ac_IcingaAPIPass cfg) \<noteq> None
      \<or> (\<exists>k er. de_icingaSubs e k = Refused er \<and> (\<forall>m < k. \<exists>evs. de_icingaSubs e m = Closed evs))"
    unfolding loop
  proof (cases "daemon_parts e cfg")
    case (Inr d)
    have "(\<forall>d'. daemon_New e cfg \<noteq> Serving d') \<longleftrightarrow> (\<forall>d'. start_downtimes e cfg d \<noteq> Serving d')"
      using web [of "start_downtimes e cfg d"] unfolding daemon_New_def Inr sum.case by blast
    then show "(\<forall>d'. daemon_New e cfg \<noteq> Serving d') \<longleftrightarrow> (\<exists>er. daemon_parts e cfg = Inl er) \<or> ac_IcingaAPIURL cfg = ''''
      \<or> NewDowntimeServer (de_icingaNew e) (de_icingaHosts e) True (ac_IcingaAPIURL cfg) (ac_IcingaAPIUser cfg)
          (ac_IcingaAPIPass cfg) \<noteq> None
      \<or> icinga_loop (de_icingaDecode e) (de_icingaSubs e) 0 [] [] \<noteq> None"
      by (simp add: Inr start_downtimes_def Let_def split: option.split prod.split)
  qed (simp add: daemon_New_def)
  fix d
  assume d: "started_daemon (daemon_New e cfg) = Some d"
  then obtain d0 where d0: "daemon_parts e cfg = Inr d0"
    by (cases "daemon_parts e cfg") (simp_all add: daemon_New_def)
  show "dm_web d \<longleftrightarrow> daemon_New e cfg = Returned d"
  proof (cases "start_downtimes e cfg d0")
    case (Serving d1)
    then have "dm_web d1 = dm_web d0" using start_downtimes_keeps [of e cfg d0 d1] by simp
    then show ?thesis using d Serving daemon_parts_Inr(4) [OF d0] by (simp add: daemon_New_def d0 start_web_def)
  qed (use d in \<open>simp_all add: daemon_New_def d0 start_web_def\<close>, auto)
qed

text \<open>
  A hangup always ends the process within six minutes; with code 0 a minute after the signal if the
  daemon's start had returned, and only by the emergency exit, six minutes after it, if the start
  has not returned.
\<close>

theorem hangup_ends_the_process:
  "(\<exists>x code. rvd_exit start ret (Some t) = Some (x, code) \<and> x \<le> t + 6 * minute)
   \<and> (start = Returned d \<and> ret \<le> t + minute \<longrightarrow> rvd_exit start ret (Some t) = Some (t + minute, 0))
   \<and> (start = Serving d \<longrightarrow> rvd_exit start ret (Some t) = Some (t + 6 * minute, 0))"
  by (auto simp: rvd_exit_def rvd_orderly_def time_units split: option.splits start.splits)

text \<open>
  C17: What a daemon announces is what a client finds: the heartbeat of a running daemon gives the
  client its host name, version and commands, counts as stale only after fifteen minutes without
  a new one, and until then makes it an active node that understands the query command. Of JSON
  it is used that the payload and the service entry come out as they went in.
\<close>

theorem announced_daemon_is_found:
  assumes "started_daemon (daemon_New e cfg) = Some d" and "dm_fqdn d \<noteq> ''''"
    and "payload \<noteq> ''''" and "j_nodeInfo j payload = Inr \<lparr>ni_TS = ts, ni_Services = mn_Services (dm_node d)\<rparr>"
    and "j_marshal j (rodrevData (daemonService (dm_fqdn d) (ac_Version cfg))) = Inr raw"
    and "j_rodrev j raw = Inr (daemonService (dm_fqdn d) (ac_Version cfg))"
    and "time_sub now ts \<le> 15 * minute"
  shows "\<exists>nd services. parseHeartbeat j \<lparr>msg_Topic = topic, msg_Payload = payload\<rparr> = Some (nd, services)
    \<and> nd_FQDN nd = dm_fqdn d \<and> nd_DaemonVersion nd = ac_Version cfg \<and> nd_Features nd = Features
    \<and> nd_StaleAge nd = 15 * minute \<and> {''puppet'', ''rodrev''} \<subseteq> set services
    \<and> dm_fqdn d \<in> set (WithFeature (watcher_Discovery now
        (watcher_run j \<lparr>msg_Topic = topic, msg_Payload = payload\<rparr> [])) cmd_Query)"
proof -
  let ?sv = "daemonService (dm_fqdn d) (ac_Version cfg)" and ?msg = "\<lparr>msg_Topic = topic, msg_Payload = payload\<rparr>"
  note sv = daemon_New_services(1) [OF assms(1)] and names = daemon_New_services(2) [OF assms(1)]
  define services where "services = sort (gm_keys (mn_Services (dm_node d)))"
  define nd where "nd = announcedNode (dm_fqdn d) (ac_Version cfg) services ts"
  have parsed: "parseHeartbeat j ?msg = Some (nd, services)"
    unfolding nd_def services_def by (rule announced_heartbeat [OF sv assms(2-6)])
  have fields: "nd_FQDN nd = dm_fqdn d" "nd_DaemonVersion nd = ac_Version cfg" "nd_Features nd = Features"
      "nd_StaleAge nd = 15 * minute" "nd_LastUpdate nd = Some ts" "nd_Services nd = services"
    by (simp_all add: nd_def announcedNode_def)
  note nd = parsed fields services_def
  have "watcher_run j ?msg [] = [(topic, nd)]" using nd(1) assms(3) by (simp add: watcher_run_def)
  moreover have "\<not> node_stale now nd" using nd assms(7) by (simp add: node_stale_def)
  moreover have "d_Active (fold (addService nd) ss dd) = d_Active dd" for ss dd
    by (induction ss arbitrary: dd) (simp_all add: addService_def)
  moreover have "cmd_Query \<in> set Features" by (simp add: Features_def)
  ultimately have "dm_fqdn d \<in> set (WithFeature (watcher_Discovery now (watcher_run j ?msg [])) cmd_Query)"
    using fields
    by (simp add: WithFeature_def watcher_Discovery_def watcher_add_def placeNode_def emptyDiscovery_def Let_def)
  then show ?thesis using nd names by auto
qed

text \<open>
  What is used of the broker: a filter without wildcards matches itself only, one that ends in
  \<^verbatim>\<open>/#\<close> the topic before it and everything below.
\<close>

definition wildcardFree :: "string \<Rightarrow> bool" where
  "wildcardFree s \<longleftrightarrow> CHR ''+'' \<notin> set s \<and> CHR ''#'' \<notin> set s"

definition topicMatch_ok :: "(string \<Rightarrow> string \<Rightarrow> bool) \<Rightarrow> bool" where
  "topicMatch_ok m \<longleftrightarrow>
     (\<forall>f t. wildcardFree f \<longrightarrow> (m f t \<longleftrightarrow> t = f))
     \<and> (\<forall>p t. wildcardFree p \<longrightarrow> (m (p @ ''/#'') t \<longleftrightarrow> t = p \<or> (\<exists>r. t = p @ ''/'' @ r)))"

definition hears :: "(string \<Rightarrow> string \<Rightarrow> bool) \<Rightarrow> ('b, 's) daemon \<Rightarrow> daemonTask \<Rightarrow> string \<Rightarrow> bool" where
  "hears m d task topic \<longleftrightarrow> (\<exists>f. (f, task) \<in> set (dm_listens d) \<and> m f topic)"

lemma start_ipsets_listens:
  "(f, task) \<in> set (fst (snd (start_ipsets lib cfg))) \<longleftrightarrow>
     (\<exists>sets k c. NewIPSets lib cfg = Inr sets \<and> (k, c) \<in> set cfg \<and> f = ipsetTopic c \<and> task = IPSetTask (is_Name c))"
  by (auto simp: start_ipsets_def Let_def split: sum.splits)

text \<open>
  The keys a daemon presses for a message: its fencing module handles what its listener hears.
\<close>

definition daemon_fence_keys ::
  "(string \<Rightarrow> string \<Rightarrow> bool) \<Rightarrow> 'b fenceCodec \<Rightarrow> string \<Rightarrow> (char \<Rightarrow> sysrq_write) \<Rightarrow> ('b, 's) daemon
     \<Rightarrow> string \<Rightarrow> 'b event \<Rightarrow> char list" where
  "daemon_fence_keys m fc host trigger d topic ev =
     (case dm_fence d of
        None \<Rightarrow> []
      | Some f \<Rightarrow>
          if hears m d FenceTask topic
          then sysrq_keys (fst (fence_HandleEvent fc (fe_node f) (fe_cfg f) (fe_fqdn f) host trigger ev))
          else [])"

lemma daemon_fence_settled:
  assumes "started_daemon (daemon_New e cfg) = Some d"
  shows "dm_fence d = (if fc_Enabled (ac_Fence cfg)
    then Some \<lparr>fe_cfg = ac_Fence cfg, fe_node = de_zn e (dm_node d), fe_fqdn = dm_fqdn d\<rparr> else None)"
proof -
  obtain d0 where d0: "daemon_parts e cfg = Inr d0" and eqs: "dm_fqdn d = dm_fqdn d0" "dm_node d = dm_node d0"
      "dm_fence d = dm_fence d0"
    using assms by (rule daemon_New_fields)
  from daemon_parts_Inr(1,5) [OF d0] show ?thesis by (simp only: eqs)
qed

lemma topicMatch_exact: "topicMatch_ok m \<Longrightarrow> wildcardFree f \<Longrightarrow> m f t \<longleftrightarrow> t = f"
  by (simp add: topicMatch_ok_def)

lemma hears_fence:
  assumes "started_daemon (daemon_New e cfg) = Some d" and "topicMatch_ok m" and "wildcardFree (dm_fqdn d)"
  shows "hears m d FenceTask t \<longleftrightarrow> fc_Enabled (ac_Fence cfg) \<and> t = ''fence/'' @ dm_fqdn d"
proof -
  obtain d0 where d0: "daemon_parts e cfg = Inr d0" "dm_fqdn d = dm_fqdn d0" "dm_listens d = dm_listens d0"
    using assms(1) by (rule daemon_New_fields)
  note l = daemon_parts_Inr(3) [OF d0(1), folded daemon_parts_Inr(1) [OF d0(1)] d0(2,3)]
  have "wildcardFree (''fence/'' @ dm_fqdn d)" using assms(3) by (simp add: wildcardFree_def)
  then have exact: "m (''fence/'' @ dm_fqdn d) t \<longleftrightarrow> t = ''fence/'' @ dm_fqdn d"
    by (rule topicMatch_exact [OF assms(2)])
  have fences: "(f, FenceTask) \<in> set (dm_listens d) \<longleftrightarrow> fc_Enabled (ac_Fence cfg) \<and> f = ''fence/'' @ dm_fqdn d" for f
    by (auto simp: l start_ipsets_listens)
  have "hears m d FenceTask t \<longleftrightarrow> fc_Enabled (ac_Fence cfg) \<and> m (''fence/'' @ dm_fqdn d) t"
    unfolding hears_def fences by blast
  then show ?thesis unfolding exact .
qed

lemma slash_split_unique:
  assumes "SLASH \<notin> set a" and "SLASH \<notin> set b"
  shows "a @ SLASH # x = b @ SLASH # y \<longleftrightarrow> a = b \<and> x = y"
  using assms
proof (induction a arbitrary: b)
  case (Cons c a)
  then show ?case by (cases b) auto
next
  case Nil
  then show ?case by (cases b) auto
qed

text \<open>Group and set name are joined by a slash, and nothing keeps a slash out of them.\<close>

lemma ipset_topics_collide:
  "ipsetTopic (c\<lparr>is_BroadcastGroup := ''a/b'', is_Name := ''c''\<rparr>) = ipsetTopic (c\<lparr>is_BroadcastGroup := ''a'', is_Name := ''b/c''\<rparr>)"
  by (simp add: ipsetTopic_def)


text \<open>
  C4: Fencing follows the configuration of the daemon, from the client's command to the keys. Whatever
  message arrives, a running daemon presses no sysrq key unless it came on its own fence topic, holds
  a fence command and comes from a sender its configuration lets fence it; then the keys are sync,
  terminate, remount read-only, reboot. The client's command presses them on a daemon exactly if it
  names that daemon, fencing is on there and not faked, and its configuration asks for nothing, or
  for the group the client gives, or has an entry for the client that lists the node.
\<close>

theorem fencing_follows_configuration:
  assumes "started_daemon (daemon_New e cfg) = Some d" and "topicMatch_ok m" and "wildcardFree (dm_fqdn d)"
    and "fence_Send fc n grp chan node answer = ([(topic, cmd)], err)"
    and "x_encodeCmd fc \<lparr>fk_Command = cmdFence, fk_Priority = 0, fk_Node = node\<rparr> = Inr b"
    and "x_decodeCmd fc b = Inr \<lparr>fk_Command = cmdFence, fk_Priority = 0, fk_Node = node\<rparr>"
    and "gm_get (ev_Headers (zn_NewEvent n)) ''fence-group'' = None"
  shows "(\<forall>t ev. daemon_fence_keys m fc host trigger d t ev = []
      \<or> (daemon_fence_keys m fc host trigger d t ev = [CmdSync, CmdTerm, CmdReadonly, CmdReboot]
         \<and> t = ''fence/'' @ dm_fqdn d \<and> fc_Enabled (ac_Fence cfg) \<and> \<not> fc_Fake (ac_Fence cfg)
         \<and> (\<exists>c. x_decodeCmd fc (ev_Body ev) = Inr c \<and> fk_Command c = cmdFence
              \<and> fence_authorised (ac_Fence cfg) (dm_fqdn d) ev c)))
    \<and> daemon_fence_keys m fc host trigger d topic cmd =
        (if fc_Enabled (ac_Fence cfg) \<and> \<not> fc_Fake (ac_Fence cfg) \<and> node = dm_fqdn d
            \<and> (fc_Group (ac_Fence cfg) = [] \<and> fc_NodeMap (ac_Fence cfg) = []
               \<or> grp \<noteq> [] \<and> grp = fc_Group (ac_Fence cfg)
               \<or> (\<exists>x. gm_get (fc_NodeMap (ac_Fence cfg)) (ev_NodeName (zn_NewEvent n)) = Some x
                      \<and> dm_fqdn d \<in> set (fn_Nodes x) \<union> set (fn_Node x)))
         then [CmdSync, CmdTerm, CmdReadonly, CmdReboot] else [])"
proof (intro conjI allI)
  note f = daemon_fence_settled [OF assms(1)] and h = hears_fence [OF assms(1-3)]
  show "daemon_fence_keys m fc host trigger d t ev = []
      \<or> (daemon_fence_keys m fc host trigger d t ev = [CmdSync, CmdTerm, CmdReadonly, CmdReboot]
         \<and> t = ''fence/'' @ dm_fqdn d \<and> fc_Enabled (ac_Fence cfg) \<and> \<not> fc_Fake (ac_Fence cfg)
         \<and> (\<exists>c. x_decodeCmd fc (ev_Body ev) = Inr c \<and> fk_Command c = cmdFence
              \<and> fence_authorised (ac_Fence cfg) (dm_fqdn d) ev c))" for t ev
  proof -
    from fence_HandleEvent_keys [of fc "de_zn e (dm_node d)" "ac_Fence cfg" "dm_fqdn d" host trigger ev]
    show ?thesis by (auto simp: daemon_fence_keys_def f h)
  qed
  let ?req = "\<lparr>fk_Command = cmdFence, fk_Priority = 0, fk_Node = node\<rparr>"
  obtain path where "cmd = fence_request fc n grp path cmdFence node" and topic: "topic = ''fence/'' @ node"
    using assms(4) by (auto simp: fence_Send_def Let_def split: sum.splits option.splits)
  with fence_request_fields [OF assms(5,7)]
  have cmd: "ev_Body cmd = b" "header_string cmd ''fence-group'' = (if grp = [] then None else Some grp)"
    "ev_NodeName cmd = ev_NodeName (zn_NewEvent n)" by simp_all
  have keys: "sysrq_keys (fst (fence_HandleEvent fc k c q host trigger cmd)) =
      (if \<not> fc_Fake c \<and> fence_authorised c q cmd ?req then [CmdSync, CmdTerm, CmdReadonly, CmdReboot] else [])" for k c q
    by (rule fence_HandleEvent_keys_iff) (simp_all add: cmd assms(6))
  show "daemon_fence_keys m fc host trigger d topic cmd =
        (if fc_Enabled (ac_Fence cfg) \<and> \<not> fc_Fake (ac_Fence cfg) \<and> node = dm_fqdn d
            \<and> (fc_Group (ac_Fence cfg) = [] \<and> fc_NodeMap (ac_Fence cfg) = []
               \<or> grp \<noteq> [] \<and> grp = fc_Group (ac_Fence cfg)
               \<or> (\<exists>x. gm_get (fc_NodeMap (ac_Fence cfg)) (ev_NodeName (zn_NewEvent n)) = Some x
                      \<and> dm_fqdn d \<in> set (fn_Nodes x) \<union> set (fn_Node x)))
         then [CmdSync, CmdTerm, CmdReadonly, CmdReboot] else [])"
    by (auto simp: daemon_fence_keys_def f h keys topic fence_authorised_def cmd)
qed

section \<open>The properties at concrete inputs\<close>

definition plainHost :: hostLib where
  "plainHost = \<lparr>hs_Hostname = ''n1'', hs_command = Some ''n1'', hs_LookupIP = (\<lambda>h. None), hs_LookupAddr = (\<lambda>a. None)\<rparr>"

definition plainEnv :: "(plainBody, string list) daemonEnv" where
  "plainEnv = \<lparr>de_urls = plainUrls, de_host = plainHost, de_uuid = ''u'', de_transport = (\<lambda>i u. None),
     de_build = (\<lambda>n. Inr []), de_subscribe = (\<lambda>t. None), de_zn = (\<lambda>n. plainNode (mn_Name n)),
     de_files = plainFiles, de_puppetInPath = True, de_puppetLocal = False, de_ipset = plainLib,
     de_icingaNew = (\<lambda>u n p. None), de_icingaHosts = Inr 1, de_icingaSubs = (\<lambda>n. Lasting []),
     de_icingaDecode = (\<lambda>b. Inl ''downtime'')\<rparr>"

definition plainDaemonConfig :: appConfig where
  "plainDaemonConfig = zeroConfig\<lparr>ac_MQAddress := ''mq'', ac_Version := ''1'', ac_IPSet := plainSets,
     ac_Fence := plainFenceConfig\<rparr>"

lemma plainHost_fqdn: "GetFQDN plainHost = ''n1''"
  by code_simp

text \<open>The daemon of these inputs starts, with and without a monitoring API to serve.\<close>

lemma plain_node:
  "\<exists>node. NewNode plainUrls (\<lambda>i u. None) (\<lambda>n. Inr []) (plainDaemonConfig\<lparr>ac_IcingaAPIURL := u\<rparr>)
     (daemonNodeConfig ''n1'' ''u'' ''1'') = Inr node"
  by (simp add: NewNode_def daemonNodeConfig_def TransportURL_def plainDaemonConfig_def zeroConfig_def)
    (simp add: plainUrls_def)

lemma plain_config [simp]:
  "ac_Version plainDaemonConfig = ''1''" "plainDaemonConfig\<lparr>ac_IcingaAPIURL := ''''\<rparr> = plainDaemonConfig"
  "ac_IcingaAPIURL plainDaemonConfig = ''''"
  by (simp_all add: plainDaemonConfig_def zeroConfig_def)

lemma plain_daemon: "\<exists>d. daemon_New plainEnv plainDaemonConfig = Returned d \<and> dm_fqdn d = ''n1''"
proof -
  obtain node where node:
    "NewNode plainUrls (\<lambda>i u. None) (\<lambda>n. Inr []) plainDaemonConfig (daemonNodeConfig ''n1'' ''u'' ''1'') = Inr node"
    using plain_node [of "''''"] by auto
  show ?thesis
    by (simp add: daemon_New_def start_web_def start_downtimes_def daemon_parts_def plainEnv_def plainHost_fqdn node NewPuppet_def
        Let_def split: prod.splits)
qed

lemma plain_daemon_parts:
  "\<exists>d. daemon_parts plainEnv (plainDaemonConfig\<lparr>ac_IcingaAPIURL := u\<rparr>) = Inr d"
  "\<exists>d. daemon_parts (plainEnv\<lparr>de_icingaSubs := s\<rparr>) (plainDaemonConfig\<lparr>ac_IcingaAPIURL := u\<rparr>) = Inr d"
proof -
  obtain node where node:
    "NewNode plainUrls (\<lambda>i u. None) (\<lambda>n. Inr []) (plainDaemonConfig\<lparr>ac_IcingaAPIURL := u\<rparr>)
       (daemonNodeConfig ''n1'' ''u'' ''1'') = Inr node"
    using plain_node by blast
  show "\<exists>d. daemon_parts plainEnv (plainDaemonConfig\<lparr>ac_IcingaAPIURL := u\<rparr>) = Inr d"
    "\<exists>d. daemon_parts (plainEnv\<lparr>de_icingaSubs := s\<rparr>) (plainDaemonConfig\<lparr>ac_IcingaAPIURL := u\<rparr>) = Inr d"
    by (simp_all add: daemon_parts_def plainEnv_def plainHost_fqdn node NewPuppet_def Let_def split: prod.splits)
qed

text \<open>A monitoring API that works keeps the start for ever; one that is lost in the second round lets it go.\<close>

theorem daemon_start_returns_iff_witness:
  "(\<exists>d. daemon_New plainEnv (plainDaemonConfig\<lparr>ac_IcingaAPIURL := ''https://icinga''\<rparr>) = Serving d \<and> \<not> dm_web d)
   \<and> (\<exists>d. daemon_New (plainEnv\<lparr>de_icingaSubs := \<lambda>n. if n = 0 then Closed [] else Refused ''lost''\<rparr>)
       (plainDaemonConfig\<lparr>ac_IcingaAPIURL := ''https://icinga''\<rparr>) = Returned d \<and> dm_web d)"
proof -
  let ?cfg = "plainDaemonConfig\<lparr>ac_IcingaAPIURL := ''https://icinga''\<rparr>"
  let ?e = "plainEnv\<lparr>de_icingaSubs := \<lambda>n. if n = 0 then Closed [] else Refused ''lost''\<rparr>"
  obtain d where parts: "daemon_parts plainEnv ?cfg = Inr d" using plain_daemon_parts(1) by blast
  obtain d' where same: "daemon_parts ?e ?cfg = Inr d'" using plain_daemon_parts(2) by blast
  have server: "NewDowntimeServer (de_icingaNew plainEnv) (de_icingaHosts plainEnv) True ''https://icinga'' user pass = None"
    for user pass by (simp add: NewDowntimeServer_def plainEnv_def)
  have "de_icingaSubs plainEnv k \<noteq> Refused er" for k er by (simp add: plainEnv_def)
  then obtain d1 where d1: "daemon_New plainEnv ?cfg = Serving d1"
    using daemon_start_returns_iff [of plainEnv ?cfg] parts server by auto
  moreover have "\<not> dm_web d1" using daemon_start_returns_iff [of plainEnv ?cfg] d1 by auto
  moreover have "de_icingaSubs ?e 1 = Refused ''lost'' \<and> (\<forall>m < 1. \<exists>evs. de_icingaSubs ?e m = Closed evs)" by simp
  then have "\<forall>d. daemon_New ?e ?cfg \<noteq> Serving d"
    using daemon_start_returns_iff [of ?e ?cfg] by blast
  then obtain d2 where d2: "daemon_New ?e ?cfg = Returned d2"
    using same by (cases "daemon_New ?e ?cfg")
      (auto simp: daemon_New_def start_web_def start_downtimes_def Let_def split: start.splits if_splits option.splits prod.splits)
  moreover have "dm_web d2" using daemon_start_returns_iff [of ?e ?cfg] d2 by auto
  ultimately show ?thesis by blast
qed

theorem announced_daemon_is_found_witness:
  "\<exists>d j. daemon_New plainEnv plainDaemonConfig = Returned d
     \<and> ''n1'' \<in> set (WithFeature (watcher_Discovery 0
          (watcher_run j \<lparr>msg_Topic = ''discovery/n1/u'', msg_Payload = ''x''\<rparr> [])) cmd_Query)"
proof -
  obtain d where d: "daemon_New plainEnv plainDaemonConfig = Returned d" "dm_fqdn d = ''n1''"
    using plain_daemon by blast
  let ?j = "\<lparr>j_nodeInfo = (\<lambda>s. Inr \<lparr>ni_TS = 0, ni_Services = mn_Services (dm_node d)\<rparr>), j_marshal = (\<lambda>v. Inr ''raw''),
     j_rodrev = (\<lambda>s. Inr (daemonService ''n1'' (ac_Version plainDaemonConfig)))\<rparr>"
  have "time_sub 0 0 \<le> 15 * minute" by (simp add: time_sub_def time_units)
  have "started_daemon (daemon_New plainEnv plainDaemonConfig) = Some d" by (simp add: d(1))
  from announced_daemon_is_found [OF this, of "''x''" ?j 0 "''raw''" 0 "''discovery/n1/u''"] d \<open>time_sub 0 0 \<le> 15 * minute\<close>
  show ?thesis by auto
qed

definition plainMatch :: "string \<Rightarrow> string \<Rightarrow> bool" where
  "plainMatch f t = (if hasSuffix f ''/#'' then t = trimSuffix f ''/#'' \<or> hasPrefix t (trimSuffix f ''#'') else t = f)"

lemma plainMatch_ok: "topicMatch_ok plainMatch"
proof -
  have "\<not> hasSuffix f ''/#''" if "wildcardFree f" for f
    using that by (cases f rule: rev_cases) (auto simp: wildcardFree_def hasSuffix_def hasPrefix_def)
  moreover have "hasSuffix (p @ ''/#'') ''/#''" "trimSuffix (p @ ''/#'') ''/#'' = p" "trimSuffix (p @ ''/#'') ''#'' = p @ ''/''" for p
    by (simp_all add: hasSuffix_def trimSuffix_def hasPrefix_def)
  moreover have "hasPrefix t (p @ ''/'') \<longleftrightarrow> (\<exists>r. t = p @ ''/'' @ r)" for p t
    by (auto simp: hasPrefix_def) (metis append_take_drop_id append.assoc append_Cons append_Nil)
  ultimately show ?thesis unfolding topicMatch_ok_def by (simp add: plainMatch_def)
qed


text \<open>A daemon whose group is \<open>g\<close> is fenced by a client that gives this group, and by no other group.\<close>

definition plainFenceEnv :: "(plainFenceBody, string list) daemonEnv" where
  "plainFenceEnv = \<lparr>de_urls = plainUrls, de_host = plainHost, de_uuid = ''u'', de_transport = (\<lambda>i u. None),
     de_build = (\<lambda>n. Inr []), de_subscribe = (\<lambda>t. None), de_zn = (\<lambda>n. plainFenceNode),
     de_files = plainFiles, de_puppetInPath = True, de_puppetLocal = False, de_ipset = plainLib,
     de_icingaNew = (\<lambda>u n p. None), de_icingaHosts = Inr 1, de_icingaSubs = (\<lambda>n. Lasting []),
     de_icingaDecode = (\<lambda>b. Inl ''downtime'')\<rparr>"

lemma plain_fence_daemon: "\<exists>d. daemon_New plainFenceEnv plainDaemonConfig = Returned d \<and> dm_fqdn d = ''n1''"
proof -
  obtain node where node:
    "NewNode plainUrls (\<lambda>i u. None) (\<lambda>n. Inr []) plainDaemonConfig (daemonNodeConfig ''n1'' ''u'' ''1'') = Inr node"
    using plain_node [of "''''"] by auto
  show ?thesis
    by (simp add: daemon_New_def start_web_def start_downtimes_def daemon_parts_def plainFenceEnv_def plainHost_fqdn node
        NewPuppet_def Let_def split: prod.splits)
qed

theorem fencing_follows_configuration_witness:
  "\<exists>d cmd. daemon_New plainFenceEnv plainDaemonConfig = Returned d
     \<and> fence_Send plainFenceCodec plainFenceNode ''g'' (Inr ''reply'') ''n1'' None
         = ([(''fence/n1'', cmd)], Some (fence_errText FenceTimeout))
     \<and> daemon_fence_keys plainMatch plainFenceCodec ''n1'' (\<lambda>c. Written) d ''fence/n1'' cmd
         = [CmdSync, CmdTerm, CmdReadonly, CmdReboot]"
proof -
  obtain d where d: "daemon_New plainFenceEnv plainDaemonConfig = Returned d" "dm_fqdn d = ''n1''"
    using plain_fence_daemon by blast
  obtain cmd where s: "fence_Send plainFenceCodec plainFenceNode ''g'' (Inr ''reply'') ''n1'' None
      = ([(''fence/n1'', cmd)], Some (fence_errText FenceTimeout))"
    by (simp add: fence_Send_def plainFenceNode_def Let_def)
  let ?req = "\<lparr>fk_Command = cmdFence, fk_Priority = 0, fk_Node = ''n1''\<rparr>"
  have codec: "x_encodeCmd plainFenceCodec ?req = Inr (FCmd ?req)" "x_decodeCmd plainFenceCodec (FCmd ?req) = Inr ?req"
    by (simp_all add: plainFenceCodec_def)
  have free: "wildcardFree (dm_fqdn d)" by (simp add: d(2) wildcardFree_def)
  have header: "gm_get (ev_Headers (zn_NewEvent plainFenceNode)) ''fence-group'' = None"
    by (simp add: plainFenceNode_def)
  have st: "started_daemon (daemon_New plainFenceEnv plainDaemonConfig) = Some d" by (simp add: d(1))
  have cfg: "ac_Fence plainDaemonConfig = plainFenceConfig" by (simp add: plainDaemonConfig_def zeroConfig_def)
  have "daemon_fence_keys plainMatch plainFenceCodec ''n1'' (\<lambda>c. Written) d ''fence/n1'' cmd
         = [CmdSync, CmdTerm, CmdReadonly, CmdReboot]"
    using fencing_follows_configuration [OF st plainMatch_ok free s codec header, of "''n1''" "\<lambda>c. Written"]
    by (simp add: cfg d(2) plainFenceConfig_def)
  with d(1) s show ?thesis by blast
qed

end
