(* ===== verification/Presence.thy ===== *)
theory Presence
  imports Heartbeat_Cleanup Daemon
begin

text \<open>
  Presence on a shared broker: daemons that announce themselves (\<^verbatim>\<open>daemon/daemon.go\<close>), each with a
  cleanup that removes what it takes for dead (\<^verbatim>\<open>daemon/heartbeat-cleanup.go\<close>), and clients that watch
  the fleet (\<^verbatim>\<open>client/watch.go\<close>). The theory adds no code to its components; it says when they step. A
  daemon announces itself when it starts and at least once per interval, its clock agrees with the
  others', what it publishes is on the broker at once and reaches a subscriber at most \<open>D\<close> later;
  messages on one topic arrive in their order, all others in any. A pass of a cleanup is one step.
\<close>

section \<open>Subscribers\<close>

text \<open>
  A subscriber gets what the broker retains at that moment and then every message published; \<open>sb_feed\<close>
  is what is on the way, with the time it was sent.
\<close>

record 'v subscriber =
  sb_open :: bool
  sb_since :: gotime
  sb_feed :: "(gotime \<times> message) list"
  sb_view :: "'v gomap"

definition subscribe :: "bool \<Rightarrow> gotime \<Rightarrow> (string \<times> string) list \<Rightarrow> 'v subscriber" where
  "subscribe active now retained =
     \<lparr>sb_open = active, sb_since = now,
      sb_feed = map (\<lambda>(t, payload). (now, \<lparr>msg_Topic = t, msg_Payload = payload\<rparr>)) retained, sb_view = []\<rparr>"

definition hear :: "gotime \<Rightarrow> message list \<Rightarrow> 'v subscriber \<Rightarrow> 'v subscriber" where
  "hear now msgs s = (if sb_open s then s\<lparr>sb_feed := sb_feed s @ map (Pair now) msgs\<rparr> else s)"

inductive receives :: "(message \<Rightarrow> 'v gomap \<Rightarrow> 'v gomap) \<Rightarrow> 'v subscriber \<Rightarrow> 'v subscriber \<Rightarrow> bool" for apply_msg where
  "\<lbrakk>sb_feed s = xs @ (q, m) # ys; \<forall>e \<in> set xs. msg_Topic (snd e) \<noteq> msg_Topic m\<rbrakk> \<Longrightarrow>
     receives apply_msg s (s\<lparr>sb_feed := xs @ ys, sb_view := apply_msg m (sb_view s)\<rparr>)"

inductive_cases receivesE: "receives apply_msg s s'"

definition on_time :: "duration \<Rightarrow> gotime \<Rightarrow> 'v subscriber \<Rightarrow> bool" where
  "on_time D now s \<longleftrightarrow> sb_open s \<longrightarrow> (\<forall>(q, m) \<in> set (sb_feed s). now \<le> q + D)"

section \<open>The fleet\<close>

text \<open>
  A process is one life of a daemon: a restarted one has a new identifier. Its services are what
  its heartbeat carries, its cleanup is \<open>None\<close> where none was started.
\<close>

record process =
  pr_fqdn :: string
  pr_uuid :: string
  pr_services :: "gv option gomap"
  pr_cleanup :: "cleanupConfig option"
  pr_alive :: bool
  pr_started :: gotime
  pr_beat :: gotime

record presence =
  ps_now :: gotime
  ps_retained :: "string gomap"
  ps_used :: "string list"
  ps_procs :: "process list"
  ps_cleaners :: "string subscriber list"
  ps_watchers :: "Node subscriber list"

definition pr_topic :: "string \<Rightarrow> process \<Rightarrow> string" where
  "pr_topic mq p = presenceTopic mq (pr_fqdn p) (pr_uuid p)"

definition heartbeat :: "(gv option gomap \<Rightarrow> gotime \<Rightarrow> string) \<Rightarrow> string \<Rightarrow> process \<Rightarrow> gotime \<Rightarrow> message" where
  "heartbeat enc mq p ts = \<lparr>msg_Topic = pr_topic mq p, msg_Payload = enc (pr_services p) ts\<rparr>"

text \<open>The broker keeps the last message of every topic, and nothing once an empty one came.\<close>

definition retain :: "message \<Rightarrow> string gomap \<Rightarrow> string gomap" where
  "retain m kept =
     (if msg_Payload m = [] then gm_del (msg_Topic m) kept else gm_put (msg_Topic m) (msg_Payload m) kept)"

definition publish :: "message list \<Rightarrow> presence \<Rightarrow> presence" where
  "publish msgs w = w\<lparr>ps_retained := fold retain msgs (ps_retained w),
     ps_used := map msg_Topic msgs @ ps_used w,
     ps_cleaners := map (hear (ps_now w) msgs) (ps_cleaners w),
     ps_watchers := map (hear (ps_now w) msgs) (ps_watchers w)\<rparr>"

text \<open>Removing a retained message is publishing an empty one; the node puts the event root back.\<close>

definition clears :: "string \<Rightarrow> (string \<Rightarrow> string option) \<Rightarrow> string list \<Rightarrow> message list" where
  "clears mq send paths =
     map (\<lambda>path. \<lparr>msg_Topic = rawTopic mq path, msg_Payload = []\<rparr>) (filter (\<lambda>path. send path = None) paths)"

text \<open>One pass of the cleanup of the \<open>i\<close>th daemon, with the settings its loop runs with.\<close>

definition cleanup_pass ::
  "json \<Rightarrow> string \<Rightarrow> nat \<Rightarrow> cleanupConfig \<Rightarrow> (string \<Rightarrow> string option) \<Rightarrow> (string \<times> string) list \<Rightarrow> presence \<Rightarrow> presence" where
  "cleanup_pass j mq i cfg send entries w =
     (let p = ps_procs w ! i; c = ps_cleaners w ! i;
          r = runHeartbeatCleanup j (ps_now w) send (cleanupLoopOpts cfg mq (pr_fqdn p) (pr_uuid p)) entries (sb_view c)
      in publish (clears mq send (pa_sent r)) (w\<lparr>ps_cleaners := (ps_cleaners w)[i := c\<lparr>sb_view := pa_cache r\<rparr>]\<rparr>))"

text \<open>
  The steps. \<open>pt_will\<close> is the broker noticing that a daemon is gone, \<open>pt_other\<close> somebody else who
  publishes, on a topic that is no daemon's. A pass may happen at any time.
\<close>

inductive presence_step ::
  "json \<Rightarrow> (gv option gomap \<Rightarrow> gotime \<Rightarrow> string) \<Rightarrow> string \<Rightarrow> duration \<Rightarrow> presence \<Rightarrow> presence \<Rightarrow> bool"
  for j enc mq D where
  pt_tick: "\<lbrakk>ps_now w \<le> now; \<forall>p \<in> set (ps_procs w). pr_alive p \<longrightarrow> now \<le> pr_beat p + heartbeatInterval;
     \<forall>s \<in> set (ps_cleaners w). on_time D now s; \<forall>s \<in> set (ps_watchers w). on_time D now s\<rbrakk> \<Longrightarrow>
     presence_step j enc mq D w (w\<lparr>ps_now := now\<rparr>)"
| pt_start: "\<lbrakk>p = \<lparr>pr_fqdn = fqdn, pr_uuid = uuid, pr_services = services, pr_cleanup = cleanup,
       pr_alive = True, pr_started = ps_now w, pr_beat = ps_now w\<rparr>;
     pr_topic mq p \<notin> set (ps_used w); w1 = publish [heartbeat enc mq p (ps_now w)] w;
     mset retained = mset (ps_retained w1)\<rbrakk> \<Longrightarrow>
     presence_step j enc mq D w (w1\<lparr>ps_procs := ps_procs w @ [p],
       ps_cleaners := ps_cleaners w1 @ [subscribe (cleanup \<noteq> None) (ps_now w) retained]\<rparr>)"
| pt_beat: "\<lbrakk>i < length (ps_procs w); p = ps_procs w ! i; pr_alive p\<rbrakk> \<Longrightarrow>
     presence_step j enc mq D w (publish [heartbeat enc mq p (ps_now w)]
       (w\<lparr>ps_procs := (ps_procs w)[i := p\<lparr>pr_beat := ps_now w\<rparr>]\<rparr>))"
| pt_stop: "i < length (ps_procs w) \<Longrightarrow>
     presence_step j enc mq D w (w\<lparr>ps_procs := (ps_procs w)[i := (ps_procs w ! i)\<lparr>pr_alive := False\<rparr>],
       ps_cleaners := (ps_cleaners w)[i := (ps_cleaners w ! i)\<lparr>sb_open := False\<rparr>]\<rparr>)"
| pt_will: "\<lbrakk>p \<in> set (ps_procs w); \<not> pr_alive p\<rbrakk> \<Longrightarrow>
     presence_step j enc mq D w (publish [\<lparr>msg_Topic = pr_topic mq p, msg_Payload = []\<rparr>] w)"
| pt_other: "rawTopic mq path \<notin> pr_topic mq ` set (ps_procs w) \<Longrightarrow>
     presence_step j enc mq D w (publish [\<lparr>msg_Topic = rawTopic mq path, msg_Payload = payload\<rparr>] w)"
| pt_watch: "mset retained = mset (ps_retained w) \<Longrightarrow>
     presence_step j enc mq D w (w\<lparr>ps_watchers := ps_watchers w @ [subscribe True (ps_now w) retained]\<rparr>)"
| pt_unwatch: "i < length (ps_watchers w) \<Longrightarrow>
     presence_step j enc mq D w (w\<lparr>ps_watchers := (ps_watchers w)[i := (ps_watchers w ! i)\<lparr>sb_open := False\<rparr>]\<rparr>)"
| pt_cleaner: "\<lbrakk>i < length (ps_cleaners w); receives follow (ps_cleaners w ! i) s\<rbrakk> \<Longrightarrow>
     presence_step j enc mq D w (w\<lparr>ps_cleaners := (ps_cleaners w)[i := s]\<rparr>)"
| pt_watcher: "\<lbrakk>i < length (ps_watchers w); receives (watcher_run j) (ps_watchers w ! i) s\<rbrakk> \<Longrightarrow>
     presence_step j enc mq D w (w\<lparr>ps_watchers := (ps_watchers w)[i := s]\<rparr>)"
| pt_pass: "\<lbrakk>i < length (ps_procs w); p = ps_procs w ! i; pr_alive p; pr_cleanup p = Some cfg; c = ps_cleaners w ! i;
     sb_open c; mset entries = mset (cache_snapshot (sb_view c));
     r = runHeartbeatCleanup j (ps_now w) send (cleanupLoopOpts cfg mq (pr_fqdn p) (pr_uuid p)) entries (sb_view c)\<rbrakk> \<Longrightarrow>
     presence_step j enc mq D w (publish (clears mq send (pa_sent r))
       (w\<lparr>ps_cleaners := (ps_cleaners w)[i := c\<lparr>sb_view := pa_cache r\<rparr>]\<rparr>))"

text \<open>At the start there are no daemons; what is left over from others may be retained.\<close>

definition presence_start :: "string \<Rightarrow> presence \<Rightarrow> bool" where
  "presence_start mq w \<longleftrightarrow> ps_now w > 0 \<and> ps_procs w = [] \<and> ps_cleaners w = [] \<and> ps_watchers w = []
     \<and> gm_ok (ps_retained w) \<and> fst ` set (ps_retained w) \<subseteq> set (ps_used w) \<and> [] \<notin> snd ` set (ps_retained w)
     \<and> set (ps_used w) \<subseteq> range (rawTopic mq)"

inductive presence_reachable ::
  "json \<Rightarrow> (gv option gomap \<Rightarrow> gotime \<Rightarrow> string) \<Rightarrow> string \<Rightarrow> duration \<Rightarrow> presence \<Rightarrow> bool" for j enc mq D where
  pe_start: "presence_start mq w \<Longrightarrow> presence_reachable j enc mq D w"
| pe_step: "\<lbrakk>presence_reachable j enc mq D w; presence_step j enc mq D w w'\<rbrakk> \<Longrightarrow>
     presence_reachable j enc mq D w'"

section \<open>What is on the way about a living daemon\<close>

text \<open>
  A heartbeat is covered if it is the last one or one that was sent at most an interval later is on
  the way; so it is never older than an interval and the delay of a message.
\<close>

definition covered :: "string \<Rightarrow> gotime \<Rightarrow> gotime \<Rightarrow> (gotime \<times> message) list \<Rightarrow> bool" where
  "covered t newest y feed \<longleftrightarrow> y = newest \<or> (\<exists>(q, m) \<in> set feed. msg_Topic m = t \<and> q \<le> y + heartbeatInterval)"

fun only_beats :: "(gotime \<Rightarrow> message) \<Rightarrow> string \<Rightarrow> gotime \<Rightarrow> (gotime \<times> message) list \<Rightarrow> bool" where
  "only_beats beat t newest [] \<longleftrightarrow> True"
| "only_beats beat t newest ((q, m) # feed) \<longleftrightarrow>
     (msg_Topic m = t \<longrightarrow> (\<exists>y > 0. m = beat y \<and> covered t newest y feed)) \<and> only_beats beat t newest feed"

definition follows ::
  "(message \<Rightarrow> 'v option option) \<Rightarrow> (gotime \<Rightarrow> message) \<Rightarrow> string \<Rightarrow> gotime \<Rightarrow> gotime \<Rightarrow> 'v subscriber \<Rightarrow> bool" where
  "follows value_of beat t started newest s \<longleftrightarrow> sb_open s \<longrightarrow>
     only_beats beat t newest (sb_feed s)
     \<and> (\<forall>v. gm_get (sb_view s) t = Some v \<longrightarrow> (\<exists>y > 0. value_of (beat y) = Some (Some v) \<and> covered t newest y (sb_feed s)))
     \<and> (gm_get (sb_view s) t \<noteq> None \<or> (\<exists>(q, m) \<in> set (sb_feed s). msg_Topic m = t \<and> q \<le> max (sb_since s) started))"

lemma covered_append: "covered t newest y f \<Longrightarrow> covered t newest y (f @ g)"
  by (auto simp: covered_def)

lemma covered_beat: "\<lbrakk>covered t newest y f; msg_Topic m = t; now \<le> newest + heartbeatInterval\<rbrakk> \<Longrightarrow> covered t now y (f @ [(now, m)])"
  by (auto simp: covered_def)

lemma covered_drop: "\<lbrakk>covered t newest y (xs @ (q, m) # ys); msg_Topic m \<noteq> t\<rbrakk> \<Longrightarrow> covered t newest y (xs @ ys)"
  by (auto simp: covered_def)

lemma covered_recent:
  assumes "covered t newest y f" and "\<forall>(q, m) \<in> set f. now \<le> q + D" and "now \<le> newest + heartbeatInterval" and "0 \<le> D"
  shows "now \<le> y + heartbeatInterval + D"
  using assms by (force simp: covered_def)

lemma only_beats_append:
  "\<lbrakk>only_beats beat t newest f; \<forall>e \<in> set g. msg_Topic (snd e) \<noteq> t\<rbrakk> \<Longrightarrow> only_beats beat t newest (f @ g)"
proof (induction f)
  case Nil
  then show ?case by (induction g) auto
next
  case (Cons a f)
  then show ?case by (cases a) (auto intro: covered_append)
qed

lemma only_beats_beat:
  "\<lbrakk>only_beats beat t newest f; msg_Topic (beat now) = t; now \<le> newest + heartbeatInterval; 0 < now\<rbrakk>
    \<Longrightarrow> only_beats beat t now (f @ [(now, beat now)])"
proof (induction f)
  case Nil
  then show ?case by (auto simp: covered_def)
next
  case (Cons a f)
  then show ?case by (cases a) (auto intro: covered_beat)
qed

lemma only_beats_drop:
  "\<lbrakk>only_beats beat t newest (xs @ (q, m) # ys); \<forall>e \<in> set xs. msg_Topic (snd e) \<noteq> msg_Topic m\<rbrakk>
    \<Longrightarrow> only_beats beat t newest (xs @ ys) \<and> (msg_Topic m = t \<longrightarrow> (\<exists>y > 0. m = beat y \<and> covered t newest y ys))"
proof (induction xs)
  case (Cons a xs)
  obtain q' m' where a: "a = (q', m')" by (cases a)
  with Cons have "only_beats beat t newest (xs @ ys) \<and> (msg_Topic m = t \<longrightarrow> (\<exists>y > 0. m = beat y \<and> covered t newest y ys))"
    by simp
  moreover have "\<exists>y > 0. m' = beat y \<and> covered t newest y (xs @ ys)" if "msg_Topic m' = t"
  proof -
    from that Cons.prems(1) a obtain y where "y > 0" "m' = beat y" "covered t newest y (xs @ (q, m) # ys)" by auto
    moreover have "msg_Topic m \<noteq> t" using that Cons.prems(2) a by auto
    ultimately show ?thesis using covered_drop by blast
  qed
  ultimately show ?case by (simp add: a)
qed simp

lemma covered_more: "\<lbrakk>covered t newest y f; set f \<subseteq> set g\<rbrakk> \<Longrightarrow> covered t newest y g"
  by (auto simp: covered_def)

context retained_view
begin

lemma keys_apply: "fst ` set (apply_msg m view) \<subseteq> insert (msg_Topic m) (fst ` set view)"
proof -
  have "gm_get (apply_msg m view) k = None" if "k \<noteq> msg_Topic m" "k \<notin> fst ` set view" for k
    using that by (simp add: get_apply)
  then show ?thesis by (auto simp: gm_get_None)
qed

lemma follows_receives:
  assumes "receives apply_msg s s'" and "follows value_of beat t started newest s"
    and "\<And>y. msg_Topic (beat y) = t" and "\<And>y. \<exists>v. value_of (beat y) = Some (Some v)"
  shows "follows value_of beat t started newest s'"
proof -
  obtain xs q m ys where s': "s' = s\<lparr>sb_feed := xs @ ys, sb_view := apply_msg m (sb_view s)\<rparr>" and f: "sb_feed s = xs @ (q, m) # ys"
    and first: "\<forall>e \<in> set xs. msg_Topic (snd e) \<noteq> msg_Topic m"
    using assms(1) by (rule receivesE)
  show ?thesis
  proof (cases "sb_open s")
    case True
    with assms(2) have b: "only_beats beat t newest (xs @ (q, m) # ys)"
      and v: "\<And>v. gm_get (sb_view s) t = Some v \<Longrightarrow> \<exists>y > 0. value_of (beat y) = Some (Some v) \<and> covered t newest y (xs @ (q, m) # ys)"
      and k: "gm_get (sb_view s) t \<noteq> None \<or> (\<exists>(q, m) \<in> set (xs @ (q, m) # ys). msg_Topic m = t \<and> q \<le> max (sb_since s) started)"
      by (simp_all add: follows_def f)
    note d = only_beats_drop [OF b first]
    show ?thesis
    proof (cases "msg_Topic m = t")
      case True
      with d obtain y where y: "y > 0" "m = beat y" "covered t newest y ys" by blast
      obtain u where u: "value_of (beat y) = Some (Some u)" using assms(4) by blast
      have "gm_get (apply_msg m (sb_view s)) t = Some u" using True u by (simp add: get_apply y(2))
      with d u y covered_more [OF y(3), of "xs @ ys"] show ?thesis by (auto simp: follows_def s')
    next
      case False
      then have "gm_get (apply_msg m (sb_view s)) t = gm_get (sb_view s) t" by (simp add: get_apply)
      with d k v covered_drop [OF _ False] False show ?thesis by (fastforce simp: follows_def s')
    qed
  qed (simp add: follows_def s')
qed

end

section \<open>Well-formed states\<close>

definition sub_ok :: "string set \<Rightarrow> 'v subscriber \<Rightarrow> bool" where
  "sub_ok used s \<longleftrightarrow> gm_ok (sb_view s) \<and> fst ` set (sb_view s) \<subseteq> used \<and> (\<forall>(q, m) \<in> set (sb_feed s). msg_Topic m \<in> used)"

definition shape :: "string \<Rightarrow> presence \<Rightarrow> bool" where
  "shape mq w \<longleftrightarrow> length (ps_cleaners w) = length (ps_procs w) \<and> distinct (map (pr_topic mq) (ps_procs w))
     \<and> pr_topic mq ` set (ps_procs w) \<subseteq> set (ps_used w)
     \<and> gm_ok (ps_retained w) \<and> fst ` set (ps_retained w) \<subseteq> set (ps_used w) \<and> [] \<notin> snd ` set (ps_retained w)
     \<and> list_all (sub_ok (set (ps_used w))) (ps_cleaners w) \<and> list_all (sub_ok (set (ps_used w))) (ps_watchers w)
     \<and> set (ps_used w) \<subseteq> range (rawTopic mq)"

definition timely :: "duration \<Rightarrow> presence \<Rightarrow> bool" where
  "timely D w \<longleftrightarrow> 0 < ps_now w
     \<and> (\<forall>p \<in> set (ps_procs w). 0 < pr_beat p \<and> pr_beat p \<le> ps_now w \<and> (pr_alive p \<longrightarrow> ps_now w \<le> pr_beat p + heartbeatInterval))
     \<and> list_all (on_time D (ps_now w)) (ps_cleaners w) \<and> list_all (on_time D (ps_now w)) (ps_watchers w)"

text \<open>Once everything has arrived, a cleanup's cache is what the broker retains.\<close>

definition catches_up :: "string gomap \<Rightarrow> string subscriber \<Rightarrow> bool" where
  "catches_up retained s \<longleftrightarrow> sb_open s \<longrightarrow>
     (\<forall>t. gm_get (fold follow (map snd (sb_feed s)) (sb_view s)) t = gm_get retained t)"

definition synced :: "presence \<Rightarrow> bool" where
  "synced w \<longleftrightarrow> list_all (catches_up (ps_retained w)) (ps_cleaners w)"

lemma pr_topic_raw: "pr_topic mq p = rawTopic mq (''discovery/'' @ pr_fqdn p @ SLASH # pr_uuid p)"
  by (simp add: pr_topic_def presenceTopic_def rawTopic_def strJoin_Cons)

lemma hear_simps [simp]:
  "sb_open (hear now msgs s) = sb_open s" "sb_since (hear now msgs s) = sb_since s" "sb_view (hear now msgs s) = sb_view s"
  "sb_open s \<Longrightarrow> sb_feed (hear now msgs s) = sb_feed s @ map (Pair now) msgs"
  by (simp_all add: hear_def)

lemma subscribe_simps [simp]:
  "sb_open (subscribe active now rs) = active" "sb_since (subscribe active now rs) = now" "sb_view (subscribe active now rs) = []"
  "sb_feed (subscribe active now rs) = map (\<lambda>(t, payload). (now, \<lparr>msg_Topic = t, msg_Payload = payload\<rparr>)) rs"
  by (simp_all add: subscribe_def)

text \<open>A cleanup's cache follows the broker the way the broker keeps its messages.\<close>

lemma retain_eq: "retain = follow"
  by (simp add: fun_eq_iff retain_def follow_def)

lemma publish_simps [simp]:
  "ps_now (publish msgs w) = ps_now w" "ps_procs (publish msgs w) = ps_procs w"
  "ps_retained (publish msgs w) = fold follow msgs (ps_retained w)"
  "ps_used (publish msgs w) = map msg_Topic msgs @ ps_used w"
  "ps_cleaners (publish msgs w) = map (hear (ps_now w) msgs) (ps_cleaners w)"
  "ps_watchers (publish msgs w) = map (hear (ps_now w) msgs) (ps_watchers w)"
  by (simp_all add: publish_def retain_eq)

lemma sub_ok_hear: "sub_ok used s \<Longrightarrow> sub_ok (msg_Topic ` set msgs \<union> used) (hear now msgs s)"
  by (auto simp: sub_ok_def hear_def)

lemma sub_ok_subscribe: "fst ` set rs \<subseteq> used \<Longrightarrow> sub_ok used (subscribe active now rs)"
  by (force simp: sub_ok_def)

context retained_view
begin

lemma sub_ok_receives:
  assumes "receives apply_msg s s'" and "sub_ok used s"
  shows "sub_ok used s'"
proof -
  obtain xs q m ys where s': "s' = s\<lparr>sb_feed := xs @ ys, sb_view := apply_msg m (sb_view s)\<rparr>"
    and f: "sb_feed s = xs @ (q, m) # ys" using assms(1) by (auto elim: receivesE)
  have "fst ` set (apply_msg m (sb_view s)) \<subseteq> used"
    using assms(2) keys_apply [of m "sb_view s"] by (simp add: sub_ok_def f) (meson insert_subset subset_trans)
  then show ?thesis using assms(2) by (simp add: sub_ok_def s' f apply_ok)
qed

lemma keys_follow: "fst ` set (fold apply_msg msgs view) \<subseteq> msg_Topic ` set msgs \<union> fst ` set view"
proof (induction msgs arbitrary: view)
  case (Cons m msgs)
  show ?case using Cons [of "apply_msg m view"] keys_apply [of m view] by auto
qed simp

text \<open>What is known of a topic depends on the messages about it only.\<close>

lemma get_fold:
  "gm_get (fold apply_msg msgs view) t =
     fold (\<lambda>m v. case value_of m of None \<Rightarrow> v | Some v' \<Rightarrow> v') (filter (\<lambda>m. msg_Topic m = t) msgs) (gm_get view t)"
  by (induction msgs arbitrary: view) (auto simp: get_apply)

lemma get_fold_other: "t \<notin> msg_Topic ` set msgs \<Longrightarrow> gm_get (fold apply_msg msgs view) t = gm_get view t"
  by (induction msgs arbitrary: view) (auto simp: get_apply)

lemma get_fold_drop:
  assumes "\<forall>e \<in> set xs. msg_Topic e \<noteq> msg_Topic m"
  shows "gm_get (fold apply_msg ys (fold apply_msg xs (apply_msg m view))) t
    = gm_get (fold apply_msg ys (apply_msg m (fold apply_msg xs view))) t"
proof (cases "msg_Topic m = t")
  case True
  then have x: "t \<notin> msg_Topic ` set xs" using assms by auto
  show ?thesis by (simp add: get_fold [of ys] get_apply get_fold_other [OF x] True split: option.split)
qed (simp add: get_fold [of ys] get_fold [of xs] get_apply)

end

lemma on_time_hear: "\<lbrakk>on_time D now s; 0 \<le> D\<rbrakk> \<Longrightarrow> on_time D now (hear now msgs s)"
  by (auto simp: on_time_def hear_def)

lemma on_time_subscribe: "0 \<le> D \<Longrightarrow> on_time D now (subscribe active now rs)"
  by (auto simp: on_time_def)

lemma on_time_receives: "\<lbrakk>receives f s s'; on_time D now s\<rbrakk> \<Longrightarrow> on_time D now s'"
  by (auto simp: on_time_def elim!: receivesE)

lemma catches_up_hear: "catches_up retained s \<Longrightarrow> catches_up (fold follow msgs retained) (hear now msgs s)"
  by (auto simp: catches_up_def comp_def cache.get_fold)

lemma catches_up_receives: "\<lbrakk>receives follow s s'; catches_up retained s\<rbrakk> \<Longrightarrow> catches_up retained s'"
  by (auto simp: catches_up_def cache.get_fold_drop elim!: receivesE)

lemma catches_up_subscribe:
  assumes "mset rs = mset retained" and "gm_ok retained" and "[] \<notin> snd ` set retained"
  shows "catches_up retained (subscribe active now rs)"
proof -
  have k: "gm_ok rs" using mset_eq_imp_distinct_iff [of "map fst rs" "map fst retained"] assms(1,2) by simp
  have "\<forall>(t, v) \<in> set rs. v \<noteq> []" using assms(3) mset_eq_setD [OF assms(1)] by force
  then have "fold follow (map snd (map (\<lambda>(t, payload). (now, \<lparr>msg_Topic = t, msg_Payload = payload\<rparr>)) rs)) []
      = fold (\<lambda>(t, v) out. gm_put t v out) rs []"
    unfolding map_map fold_map by (intro fold_cong) (auto simp: follow_def fun_eq_iff)
  then have "gm_get (fold follow (map snd (map (\<lambda>(t, payload). (now, \<lparr>msg_Topic = t, msg_Payload = payload\<rparr>)) rs)) []) t
      = gm_get rs t" for t
    using cache_snapshot_get [OF k] by (simp add: cache_snapshot_def)
  moreover have "gm_get rs t = gm_get retained t" for t
  proof -
    have "gm_get rs t = Some v \<longleftrightarrow> gm_get retained t = Some v" for v
      using gm_get_iff [OF k] gm_get_iff [OF assms(2)] mset_eq_setD [OF assms(1)] by simp
    then show ?thesis by (metis option.exhaust)
  qed
  ultimately show ?thesis by (simp add: catches_up_def)
qed

section \<open>Every step keeps states well formed\<close>

lemma list_all_update: "\<lbrakk>list_all P xs; P x\<rbrakk> \<Longrightarrow> list_all P (xs[i := x])"
  using set_update_subset_insert [of xs i x] by (auto simp: list_all_iff)

lemma set_updateD: "x \<in> set (xs[i := y]) \<Longrightarrow> x \<in> set xs \<or> x = y"
  using set_update_subset_insert by fastforce

lemma list_all_nthD: "\<lbrakk>list_all P xs; i < length xs\<rbrakk> \<Longrightarrow> P (xs ! i)"
  by (simp add: list_all_length)

lemma sub_ok_mono: "\<lbrakk>sub_ok used s; used \<subseteq> used'\<rbrakk> \<Longrightarrow> sub_ok used' s"
  by (fastforce simp: sub_ok_def)

lemma gm_put_values: "snd ` set (gm_put k v m) \<subseteq> insert v (snd ` set m)"
  by (induction m) auto

lemma set_delete_subset: "set (gm_del k m) \<subseteq> set m"
  by (induction m) auto

lemma follow_no_empty: "[] \<notin> snd ` set view \<Longrightarrow> [] \<notin> snd ` set (fold follow msgs view)"
proof (induction msgs arbitrary: view)
  case (Cons m msgs)
  have "[] \<notin> snd ` set (gm_put k v view)" if "v \<noteq> []" for k v
    using Cons.prems that gm_put_values [of k v view] by blast
  moreover have "[] \<notin> snd ` set (gm_del k view)" for k
    using Cons.prems set_delete_subset [of k view] by blast
  ultimately show ?case using Cons.IH [of "follow m view"] by (simp add: follow_def)
qed simp

lemma publish_shape:
  assumes "shape mq w" and "msg_Topic ` set msgs \<subseteq> range (rawTopic mq)"
  shows "shape mq (publish msgs w)"
proof -
  have "fst ` set (fold follow msgs (ps_retained w)) \<subseteq> msg_Topic ` set msgs \<union> set (ps_used w)"
    using assms(1) cache.keys_follow [of msgs "ps_retained w"] by (simp add: shape_def) (meson Un_mono subset_refl subset_trans)
  then show ?thesis
    using assms cache.follow_ok [of "ps_retained w" msgs] follow_no_empty [of "ps_retained w" msgs]
    by (auto simp: shape_def list.pred_map comp_def intro!: sub_ok_hear elim!: list.pred_mono_strong)
qed

text \<open>A pass only shrinks its cache and asks for topics of its cache.\<close>

lemma pass_parts:
  assumes "mset entries = mset (cache_snapshot view)" and "gm_ok view"
    and "r = runHeartbeatCleanup j now send opts entries view"
  shows "(t, v) \<in> set entries \<longleftrightarrow> gm_get view t = Some v"
    and "gm_get (pa_cache r) t = (if \<exists>v. gm_get view t = Some v \<and> removed j now send opts (t, v) then None else gm_get view t)"
    and "path \<in> set (filter (\<lambda>path. send path = None) (pa_sent r))
      \<longleftrightarrow> (\<exists>t v. gm_get view t = Some v \<and> removed j now send opts (t, v) \<and> path = relativeTopic t (co_EventRoot opts))"
    and "gm_ok (pa_cache r)"
proof -
  have ok: "gm_ok (cache_snapshot view)"
  proof -
    have "gm_ok acc \<Longrightarrow> gm_ok (fold (\<lambda>(topic, payload) out. gm_put topic payload out) es acc)" for es acc :: heartbeatCache
      by (induction es arbitrary: acc) auto
    then show ?thesis by (simp add: cache_snapshot_def)
  qed
  have e: "(t, v) \<in> set entries \<longleftrightarrow> gm_get view t = Some v" for t v
    using gm_get_iff [OF ok, of t v] mset_eq_setD [OF assms(1)] by (simp add: cache_snapshot_get [OF assms(2)])
  then show "(t, v) \<in> set entries \<longleftrightarrow> gm_get view t = Some v" .
  note f = cleanup_fold [where es = entries and p = "\<lparr>pa_cleared = 0, pa_seen = 0, pa_sent = [], pa_cache = view\<rparr>"
      and j = j and now = now and send = send and opts = opts, folded runHeartbeatCleanup_def, folded assms(3), simplified]
  have "t \<in> fst ` {x \<in> set entries. removed j now send opts x} \<longleftrightarrow> (\<exists>v. gm_get view t = Some v \<and> removed j now send opts (t, v))"
    by (force simp: e)
  note * = this
  show "gm_get (pa_cache r) t = (if \<exists>v. gm_get view t = Some v \<and> removed j now send opts (t, v) then None else gm_get view t)"
    by (simp only: f(4) * pass.simps)
  show "path \<in> set (filter (\<lambda>path. send path = None) (pa_sent r))
      \<longleftrightarrow> (\<exists>t v. gm_get view t = Some v \<and> removed j now send opts (t, v) \<and> path = relativeTopic t (co_EventRoot opts))"
    unfolding f(3) removed_def using e by (force simp: image_iff)
  have "gm_ok (pa_cache p) \<Longrightarrow> gm_ok (pa_cache (fold (cleanupEntry j now send opts) es p))" for es p
    by (induction es arbitrary: p) (auto simp: cleanupEntry_fields)
  then show "gm_ok (pa_cache r)" using assms(2) by (simp add: assms(3) runHeartbeatCleanup_def)
qed

text \<open>What is published for it are removals of exactly the topics it forgot.\<close>

lemma pass_clears:
  assumes "mset entries = mset (cache_snapshot view)" and "gm_ok view" and "EventRoot mq \<noteq> []"
    and "fst ` set view \<subseteq> range (rawTopic mq)"
    and "r = runHeartbeatCleanup j now send (cleanupLoopOpts cfg mq name uuid) entries view"
  shows "msg_Topic ` set (clears mq send (pa_sent r))
      = {t. \<exists>v. gm_get view t = Some v \<and> removed j now send (cleanupLoopOpts cfg mq name uuid) (t, v)}"
    and "m \<in> set (clears mq send (pa_sent r)) \<Longrightarrow> msg_Payload m = []"
proof -
  have "rawTopic mq (relativeTopic t (EventRoot mq)) = t" if "gm_get view t = Some v" for t v
    using assms(4) gm_get_SomeD [OF that] relativeTopic_root [OF assms(3)] by force
  then have "msg_Topic ` set (clears mq send (pa_sent r))
      = {t. \<exists>v. gm_get view t = Some v \<and> removed j now send (cleanupLoopOpts cfg mq name uuid) (t, v)}"
    unfolding clears_def set_map image_image
    using pass_parts(3) [OF assms(1,2,5)] by (auto simp: cleanupLoopOpts_def image_iff simp del: set_filter) metis+
  then show "msg_Topic ` set (clears mq send (pa_sent r))
      = {t. \<exists>v. gm_get view t = Some v \<and> removed j now send (cleanupLoopOpts cfg mq name uuid) (t, v)}" .
  show "m \<in> set (clears mq send (pa_sent r)) \<Longrightarrow> msg_Payload m = []" by (auto simp: clears_def)
qed

lemma distinct_topics_update:
  "distinct (map (pr_topic mq) ps) \<Longrightarrow> pr_topic mq p = pr_topic mq (ps ! i)
    \<Longrightarrow> map (pr_topic mq) (ps[i := p]) = map (pr_topic mq) ps"
  by (cases "i < length ps") (simp_all add: map_update list_update_same_conv list_update_beyond)

lemma pr_topic_simps [simp]:
  "pr_topic mq (p\<lparr>pr_beat := b\<rparr>) = pr_topic mq p" "pr_topic mq (p\<lparr>pr_alive := a\<rparr>) = pr_topic mq p"
  by (simp_all add: pr_topic_def)

lemma heartbeat_topic [simp]: "msg_Topic (heartbeat enc mq p ts) = pr_topic mq p"
  by (simp add: heartbeat_def)

lemma presence_step_shape:
  assumes "presence_step j enc mq D w w'" and "shape mq w" and "EventRoot mq \<noteq> []"
  shows "shape mq w'"
  using assms(1)
proof cases
  case (pt_tick now)
  then show ?thesis using assms(2) by (simp add: shape_def)
next
  case (pt_start p fqdn uuid services cleanup w1 retained)
  have 1: "shape mq w1" unfolding pt_start(4) using assms(2) by (rule publish_shape) (auto simp: pr_topic_raw)
  have "pr_topic mq p \<in> set (ps_used w1)" by (simp add: pt_start(4))
  moreover have "pr_topic mq p \<notin> pr_topic mq ` set (ps_procs w)" using pt_start(3) assms(2) by (auto simp: shape_def)
  moreover have "ps_procs w1 = ps_procs w" by (simp add: pt_start(4))
  moreover have "sub_ok (set (ps_used w1)) (subscribe (cleanup \<noteq> None) (ps_now w) retained)"
    using 1 mset_eq_setD [OF pt_start(5)] by (intro sub_ok_subscribe) (simp add: shape_def)
  ultimately show ?thesis using 1 by (simp add: shape_def pt_start(1))
next
  case (pt_beat i p)
  have "shape mq (w\<lparr>ps_procs := (ps_procs w)[i := p\<lparr>pr_beat := ps_now w\<rparr>]\<rparr>)"
    using assms(2) pt_beat(3) by (simp add: shape_def distinct_topics_update flip: set_map)
  then show ?thesis unfolding pt_beat(1) by (rule publish_shape) (auto simp: pr_topic_raw)
next
  case (pt_stop i)
  have "sub_ok used s \<Longrightarrow> sub_ok used (s\<lparr>sb_open := False\<rparr>)" for used and s :: "string subscriber"
    by (simp add: sub_ok_def)
  then show ?thesis using assms(2) pt_stop
    by (auto simp: shape_def distinct_topics_update list_all_length nth_list_update simp flip: set_map)
next
  case (pt_will p)
  show ?thesis unfolding pt_will(1) using assms(2) by (rule publish_shape) (auto simp: pr_topic_raw)
next
  case (pt_other path payload)
  show ?thesis unfolding pt_other(1) using assms(2) by (rule publish_shape) auto
next
  case (pt_watch retained)
  then show ?thesis using assms(2) mset_eq_setD [OF pt_watch(2)] by (simp add: shape_def sub_ok_subscribe)
next
  case (pt_unwatch i)
  then show ?thesis using assms(2)
    by (auto simp: shape_def sub_ok_def list_all_length nth_list_update)
next
  case (pt_cleaner i s)
  have "sub_ok (set (ps_used w)) (ps_cleaners w ! i)" using assms(2) pt_cleaner(2) by (simp add: shape_def list_all_nthD)
  from cache.sub_ok_receives [OF pt_cleaner(3) this] show ?thesis using assms(2)
    by (simp add: shape_def pt_cleaner(1) list_all_update)
next
  case (pt_watcher i s)
  have "sub_ok (set (ps_used w)) (ps_watchers w ! i)" using assms(2) pt_watcher(2) by (simp add: shape_def list_all_nthD)
  from watch.sub_ok_receives [OF pt_watcher(3) this] show ?thesis using assms(2)
    by (simp add: shape_def pt_watcher(1) list_all_update)
next
  case (pt_pass i p cfg c entries r send)
  have "i < length (ps_cleaners w)" using pt_pass(2) assms(2) by (simp add: shape_def)
  then have c: "sub_ok (set (ps_used w)) c" using assms(2) by (simp add: shape_def pt_pass(6) list_all_length)
  then have ok: "gm_ok (sb_view c)" and keys: "fst ` set (sb_view c) \<subseteq> set (ps_used w)" by (simp_all add: sub_ok_def)
  have raw: "fst ` set (sb_view c) \<subseteq> range (rawTopic mq)" using keys assms(2) by (auto simp: shape_def)
  note parts = pass_parts [OF pt_pass(8) ok pt_pass(9)]
  have "fst ` set (pa_cache r) \<subseteq> fst ` set (sb_view c)"
  proof
    fix t assume "t \<in> fst ` set (pa_cache r)"
    then have "gm_get (pa_cache r) t \<noteq> None" by (simp add: gm_get_None)
    then have "gm_get (sb_view c) t \<noteq> None" by (auto simp: parts(2) split: if_splits)
    then show "t \<in> fst ` set (sb_view c)" by (simp add: gm_get_None)
  qed
  then have "sub_ok (set (ps_used w)) (c\<lparr>sb_view := pa_cache r\<rparr>)" using c keys parts(4) by (auto simp: sub_ok_def)
  then have "shape mq (w\<lparr>ps_cleaners := (ps_cleaners w)[i := c\<lparr>sb_view := pa_cache r\<rparr>]\<rparr>)"
    using assms(2) by (simp add: shape_def list_all_update)
  then show ?thesis unfolding pt_pass(1) by (rule publish_shape) (auto simp: clears_def)
qed

lemma publish_timely: "\<lbrakk>timely D w; 0 \<le> D\<rbrakk> \<Longrightarrow> timely D (publish msgs w)"
  by (auto simp: timely_def list.pred_map comp_def on_time_hear elim!: list.pred_mono_strong)

lemma heartbeatInterval_pos: "0 < heartbeatInterval"
  by (simp add: heartbeatInterval_def time_units)

lemma timely_procs:
  assumes "timely D w" and "\<And>p. p \<in> set ps \<Longrightarrow> p \<in> set (ps_procs w) \<or> pr_beat p = ps_now w \<or> (\<exists>p0 \<in> set (ps_procs w). pr_beat p = pr_beat p0 \<and> \<not> pr_alive p)"
  shows "timely D (w\<lparr>ps_procs := ps\<rparr>)"
  using assms heartbeatInterval_pos by (fastforce simp: timely_def)

lemma on_time_closed: "on_time D now (s\<lparr>sb_open := False\<rparr>)"
  by (simp add: on_time_def)

lemma presence_step_timely:
  assumes "presence_step j enc mq D w w'" and "timely D w" and "0 \<le> D" and "length (ps_cleaners w) = length (ps_procs w)"
  shows "timely D w'"
  using assms(1)
proof cases
  case (pt_tick now)
  then show ?thesis using assms(2) by (fastforce simp: timely_def list_all_iff)
next
  case (pt_start p fqdn uuid services cleanup w1 retained)
  have "timely D (publish [heartbeat enc mq p (ps_now w)] w)" using assms(2,3) by (rule publish_timely)
  moreover have "pr_beat p = ps_now w" by (simp add: pt_start(2))
  ultimately show ?thesis using assms(3) heartbeatInterval_pos
    by (auto simp: timely_def pt_start(1,4) on_time_subscribe)
next
  case (pt_beat i p)
  have "timely D (w\<lparr>ps_procs := (ps_procs w)[i := p\<lparr>pr_beat := ps_now w\<rparr>]\<rparr>)"
    using assms(2) by (rule timely_procs) (auto dest!: set_updateD)
  then show ?thesis unfolding pt_beat(1) using assms(3) by (rule publish_timely)
next
  case (pt_stop i)
  have "timely D (w\<lparr>ps_procs := (ps_procs w)[i := (ps_procs w ! i)\<lparr>pr_alive := False\<rparr>]\<rparr>)"
    using assms(2)
  proof (rule timely_procs)
    fix p assume "p \<in> set ((ps_procs w)[i := (ps_procs w ! i)\<lparr>pr_alive := False\<rparr>])"
    then have "p \<in> set (ps_procs w) \<or> p = (ps_procs w ! i)\<lparr>pr_alive := False\<rparr>"
      by (rule set_updateD)
    then show "p \<in> set (ps_procs w) \<or> pr_beat p = ps_now w \<or> (\<exists>p0 \<in> set (ps_procs w). pr_beat p = pr_beat p0 \<and> \<not> pr_alive p)"
      using nth_mem [OF pt_stop(2)] by auto
  qed
  then show ?thesis by (simp add: timely_def pt_stop(1) list_all_update on_time_closed)
next
  case (pt_will p)
  show ?thesis unfolding pt_will(1) using assms(2,3) by (rule publish_timely)
next
  case (pt_other path payload)
  show ?thesis unfolding pt_other(1) using assms(2,3) by (rule publish_timely)
next
  case (pt_watch retained)
  then show ?thesis using assms(2,3) by (simp add: timely_def on_time_subscribe)
next
  case (pt_unwatch i)
  then show ?thesis using assms(2) by (simp add: timely_def list_all_update on_time_closed)
next
  case (pt_cleaner i s)
  then show ?thesis using assms(2) on_time_receives [OF pt_cleaner(3)] by (simp add: timely_def list_all_update list_all_nthD)
next
  case (pt_watcher i s)
  then show ?thesis using assms(2) on_time_receives [OF pt_watcher(3)] by (simp add: timely_def list_all_update list_all_nthD)
next
  case (pt_pass i p cfg c entries r send)
  have "on_time D (ps_now w) c" using assms(2,4) pt_pass(2,6) by (simp add: timely_def list_all_nthD)
  then have "on_time D (ps_now w) (c\<lparr>sb_view := pa_cache r\<rparr>)" by (simp add: on_time_def)
  then have "timely D (w\<lparr>ps_cleaners := (ps_cleaners w)[i := c\<lparr>sb_view := pa_cache r\<rparr>]\<rparr>)"
    using assms(2) by (simp add: timely_def list_all_update)
  then show ?thesis unfolding pt_pass(1) using assms(3) by (rule publish_timely)
qed

lemma publish_synced: "synced w \<Longrightarrow> synced (publish msgs w)"
  by (auto simp: synced_def list.pred_map comp_def catches_up_hear elim!: list.pred_mono_strong)

lemma fold_clears:
  assumes "\<And>m. m \<in> set msgs \<Longrightarrow> msg_Payload m = []"
  shows "gm_get (fold follow msgs view) t = (if t \<in> msg_Topic ` set msgs then None else gm_get view t)"
  using assms by (induction msgs arbitrary: view) (auto simp: follow_def)

lemma catches_up_pass:
  assumes "catches_up retained s" and "\<And>m. m \<in> set msgs \<Longrightarrow> msg_Payload m = []"
    and "\<And>t. t \<notin> msg_Topic ` set msgs \<Longrightarrow> gm_get view t = gm_get (sb_view s) t"
  shows "catches_up (fold follow msgs retained) (hear now msgs (s\<lparr>sb_view := view\<rparr>))"
proof -
  have "gm_get (fold follow msgs (fold follow (map snd (sb_feed s)) view)) t = gm_get (fold follow msgs retained) t"
    if "sb_open s" for t
  proof (cases "t \<in> msg_Topic ` set msgs")
    case False
    then have "gm_get view t = gm_get (sb_view s) t" by (rule assms(3))
    then have "gm_get (fold follow (map snd (sb_feed s)) view) t = gm_get (fold follow (map snd (sb_feed s)) (sb_view s)) t"
      by (simp add: cache.get_fold)
    then show ?thesis using assms(1) that False by (simp add: fold_clears [OF assms(2)] catches_up_def)
  qed (simp add: fold_clears [OF assms(2)])
  then show ?thesis by (auto simp: catches_up_def comp_def)
qed

lemma presence_step_synced:
  assumes "presence_step j enc mq D w w'" and "synced w" and "shape mq w" and "EventRoot mq \<noteq> []"
  shows "synced w'"
  using assms(1)
proof cases
  case (pt_start p fqdn uuid services cleanup w1 retained)
  have "synced w1" unfolding pt_start(4) using assms(2) by (rule publish_synced)
  moreover have "shape mq w1" unfolding pt_start(4) using assms(3) by (rule publish_shape) (auto simp: pr_topic_raw)
  ultimately show ?thesis using pt_start(5) by (simp add: synced_def pt_start(1) catches_up_subscribe shape_def)
next
  case (pt_beat i p)
  have "synced (w\<lparr>ps_procs := (ps_procs w)[i := p\<lparr>pr_beat := ps_now w\<rparr>]\<rparr>)" using assms(2) by (simp add: synced_def)
  then show ?thesis unfolding pt_beat(1) by (rule publish_synced)
next
  case (pt_stop i)
  then show ?thesis using assms(2) by (simp add: synced_def list_all_update catches_up_def)
next
  case (pt_will p)
  show ?thesis unfolding pt_will(1) using assms(2) by (rule publish_synced)
next
  case (pt_other path payload)
  show ?thesis unfolding pt_other(1) using assms(2) by (rule publish_synced)
next
  case (pt_cleaner i s)
  then show ?thesis using assms(2) catches_up_receives [OF pt_cleaner(3)] by (simp add: synced_def list_all_update list_all_nthD)
next
  case (pt_pass i p cfg c entries r send)
  have i: "i < length (ps_cleaners w)" using pt_pass(2) assms(3) by (simp add: shape_def)
  then have c: "sub_ok (set (ps_used w)) c" using assms(3) by (simp add: shape_def pt_pass(6) list_all_nthD)
  then have ok: "gm_ok (sb_view c)" and raw: "fst ` set (sb_view c) \<subseteq> range (rawTopic mq)"
    using assms(3) by (auto simp: sub_ok_def shape_def)
  let ?msgs = "clears mq send (pa_sent r)"
  note clears = pass_clears [OF pt_pass(8) ok assms(4) raw pt_pass(9)]
  have "catches_up (ps_retained w) c" using assms(2) i by (simp add: synced_def pt_pass(6) list_all_nthD)
  then have "catches_up (fold follow ?msgs (ps_retained w)) (hear (ps_now w) ?msgs (c\<lparr>sb_view := pa_cache r\<rparr>))"
    using clears pass_parts(2) [OF pt_pass(8) ok pt_pass(9)] by (intro catches_up_pass) auto
  moreover have "list_all (catches_up (fold follow ?msgs (ps_retained w))) (map (hear (ps_now w) ?msgs) (ps_cleaners w))"
    using publish_synced [OF assms(2), of ?msgs] by (simp add: synced_def)
  ultimately show ?thesis unfolding pt_pass(1) by (simp add: synced_def map_update list_all_update)
qed (use assms(2) in \<open>simp_all add: synced_def\<close>)

section \<open>What is left of a daemon's presence\<close>

text \<open>
  What the broker retains about a daemon is its last heartbeat or nothing, and what a cleanup has
  not heard about it yet was sent before its last heartbeat, or when the cleanup started, or
  removes it.
\<close>

definition owned :: "(gv option gomap \<Rightarrow> gotime \<Rightarrow> string) \<Rightarrow> string \<Rightarrow> presence \<Rightarrow> bool" where
  "owned enc mq w \<longleftrightarrow> (\<forall>p \<in> set (ps_procs w).
     gm_get (ps_retained w) (pr_topic mq p) \<in> {None, Some (enc (pr_services p) (pr_beat p))})"

definition known_until :: "string \<Rightarrow> gotime \<Rightarrow> string subscriber \<Rightarrow> bool" where
  "known_until t limit s \<longleftrightarrow> sb_open s \<longrightarrow>
     (\<forall>(q, m) \<in> set (sb_feed s). msg_Topic m = t \<longrightarrow> msg_Payload m = [] \<or> q \<le> max (sb_since s) limit)"

definition accounted :: "string \<Rightarrow> presence \<Rightarrow> bool" where
  "accounted mq w \<longleftrightarrow> (\<forall>p \<in> set (ps_procs w). list_all (known_until (pr_topic mq p) (pr_beat p)) (ps_cleaners w))"

lemma known_until_hear:
  "\<lbrakk>known_until t limit s; limit \<le> limit'; \<And>m. m \<in> set msgs \<Longrightarrow> msg_Topic m = t \<Longrightarrow> msg_Payload m = [] \<or> now \<le> limit'\<rbrakk>
    \<Longrightarrow> known_until t limit' (hear now msgs s)"
  by (fastforce simp: known_until_def hear_def)

lemma known_until_receives: "\<lbrakk>receives f s s'; known_until t limit s\<rbrakk> \<Longrightarrow> known_until t limit s'"
  by (auto simp: known_until_def elim!: receivesE)

lemma known_until_subscribe: "known_until t limit (subscribe active now rs)"
  by (auto simp: known_until_def)

lemma known_until_fresh:
  "\<lbrakk>sub_ok used s; t \<notin> used\<rbrakk> \<Longrightarrow> known_until t limit s"
  by (auto simp: known_until_def sub_ok_def)

lemma publish_accounted:
  assumes "accounted mq w"
    and "\<And>p m. p \<in> set (ps_procs w) \<Longrightarrow> m \<in> set msgs \<Longrightarrow> msg_Topic m = pr_topic mq p \<Longrightarrow> msg_Payload m = [] \<or> ps_now w \<le> pr_beat p"
  shows "accounted mq (publish msgs w)"
  using assms by (auto simp: accounted_def list_all_iff intro!: known_until_hear [OF _ order_refl])

lemma accounted_procs:
  assumes "accounted mq w"
    and "\<And>p. p \<in> set ps \<Longrightarrow> \<exists>p0 \<in> set (ps_procs w). pr_topic mq p = pr_topic mq p0 \<and> pr_beat p0 \<le> pr_beat p"
  shows "accounted mq (w\<lparr>ps_procs := ps\<rparr>)"
proof -
  have "known_until t limit s \<Longrightarrow> limit \<le> limit' \<Longrightarrow> known_until t limit' s" for t limit limit' s
    by (force simp: known_until_def)
  then show ?thesis using assms unfolding accounted_def by simp (metis (mono_tags, lifting) list.pred_mono_strong)
qed

lemma accounted_cleaner:
  "\<lbrakk>accounted mq w; \<And>p. p \<in> set (ps_procs w) \<Longrightarrow> known_until (pr_topic mq p) (pr_beat p) s\<rbrakk>
    \<Longrightarrow> accounted mq (w\<lparr>ps_cleaners := (ps_cleaners w)[i := s]\<rparr>)"
  by (simp add: accounted_def list_all_update)

lemma update_procs:
  assumes "i < length (ps_procs w)" and "pr_topic mq p = pr_topic mq (ps_procs w ! i)" and "pr_beat (ps_procs w ! i) \<le> pr_beat p"
    and "p' \<in> set ((ps_procs w)[i := p])"
  shows "\<exists>p0 \<in> set (ps_procs w). pr_topic mq p' = pr_topic mq p0 \<and> pr_beat p0 \<le> pr_beat p'"
  using set_updateD [OF assms(4)] assms(2,3) nth_mem [OF assms(1)] by auto

lemma presence_step_accounted:
  assumes "presence_step j enc mq D w w'" and "accounted mq w" and "shape mq w" and "timely D w"
  shows "accounted mq w'"
  using assms(1)
proof cases
  case (pt_start p fqdn uuid services cleanup w1 retained)
  have "pr_topic mq p \<notin> pr_topic mq ` set (ps_procs w)" using pt_start(3) assms(3) by (auto simp: shape_def)
  then have 1: "accounted mq (publish [heartbeat enc mq p (ps_now w)] w)"
    using assms(2) by (intro publish_accounted) auto
  have "list_all (known_until (pr_topic mq p) (pr_beat p)) (ps_cleaners w)"
    using assms(3) pt_start(3) by (auto simp: shape_def elim!: list.pred_mono_strong known_until_fresh)
  then have "list_all (known_until (pr_topic mq p) (pr_beat p)) (ps_cleaners w1)"
    by (auto simp: pt_start(2,4) list.pred_map comp_def elim!: list.pred_mono_strong known_until_hear)
  with 1 show ?thesis by (auto simp: accounted_def pt_start(1,4) known_until_subscribe)
next
  case (pt_beat i p)
  have b: "pr_beat p \<le> ps_now w" using assms(4) nth_mem [OF pt_beat(2)] by (simp add: timely_def pt_beat(3))
  let ?w = "w\<lparr>ps_procs := (ps_procs w)[i := p\<lparr>pr_beat := ps_now w\<rparr>]\<rparr>"
  have "accounted mq ?w"
    using assms(2) update_procs [OF pt_beat(2), of mq "p\<lparr>pr_beat := ps_now w\<rparr>"] b
    by (intro accounted_procs) (auto simp: pt_beat(3))
  then show ?thesis unfolding pt_beat(1)
  proof (rule publish_accounted)
    fix p' m assume p': "p' \<in> set (ps_procs ?w)" and m: "m \<in> set [heartbeat enc mq p (ps_now w)]" "msg_Topic m = pr_topic mq p'"
    have "map (pr_topic mq) (ps_procs ?w) = map (pr_topic mq) (ps_procs w)"
      by (simp add: distinct_topics_update assms(3) [unfolded shape_def] pt_beat(3))
    then have d: "distinct (map (pr_topic mq) (ps_procs ?w))" using assms(3) by (simp add: shape_def)
    have "p\<lparr>pr_beat := ps_now w\<rparr> \<in> set (ps_procs ?w)" using pt_beat(2) by (simp add: set_update_memI)
    moreover have "pr_topic mq (p\<lparr>pr_beat := ps_now w\<rparr>) = pr_topic mq p'" using m by simp
    ultimately have "p' = p\<lparr>pr_beat := ps_now w\<rparr>" using d p' by (auto simp: distinct_map inj_on_def)
    then show "msg_Payload m = [] \<or> ps_now ?w \<le> pr_beat p'" by simp
  qed
next
  case (pt_stop i)
  have "accounted mq (w\<lparr>ps_procs := (ps_procs w)[i := (ps_procs w ! i)\<lparr>pr_alive := False\<rparr>]\<rparr>)"
    using assms(2) update_procs [OF pt_stop(2), of mq "(ps_procs w ! i)\<lparr>pr_alive := False\<rparr>"]
    by (intro accounted_procs) auto
  then show ?thesis unfolding pt_stop(1) by (simp add: accounted_def list_all_update known_until_def)
next
  case (pt_will p)
  show ?thesis unfolding pt_will(1) using assms(2) by (rule publish_accounted) auto
next
  case (pt_other path payload)
  show ?thesis unfolding pt_other(1) using assms(2) pt_other(2) by (intro publish_accounted) auto
next
  case (pt_cleaner i s)
  show ?thesis unfolding pt_cleaner(1)
    using assms(2) known_until_receives [OF pt_cleaner(3)] pt_cleaner(2)
    by (intro accounted_cleaner) (auto simp: accounted_def list_all_nthD)
next
  case (pt_pass i p cfg c entries r send)
  have "accounted mq (w\<lparr>ps_cleaners := (ps_cleaners w)[i := c\<lparr>sb_view := pa_cache r\<rparr>]\<rparr>)"
  proof (rule accounted_cleaner [OF assms(2)])
    fix p' assume "p' \<in> set (ps_procs w)"
    moreover have "i < length (ps_cleaners w)" using pt_pass(2) assms(3) by (simp add: shape_def)
    ultimately have "known_until (pr_topic mq p') (pr_beat p') c" using assms(2) by (simp add: accounted_def pt_pass(6) list_all_nthD)
    then show "known_until (pr_topic mq p') (pr_beat p') (c\<lparr>sb_view := pa_cache r\<rparr>)" by (simp add: known_until_def)
  qed
  then show ?thesis unfolding pt_pass(1) by (rule publish_accounted) (auto simp: clears_def)
qed (use assms(2) in \<open>simp_all add: accounted_def\<close>)

text \<open>Removals only remove.\<close>

lemma fold_removals:
  "(\<And>m. m \<in> set msgs \<Longrightarrow> msg_Topic m = t \<Longrightarrow> msg_Payload m = []) \<Longrightarrow> gm_get (fold follow msgs view) t \<in> {None, gm_get view t}"
proof (induction msgs arbitrary: view)
  case (Cons m msgs)
  have "gm_get (follow m view) t \<in> {None, gm_get view t}" using Cons.prems [of m] by (auto simp: follow_def)
  then show ?case using Cons.IH [of "follow m view"] Cons.prems by auto
qed simp

lemma publish_owned:
  assumes "owned enc mq w"
    and "\<And>p m. p \<in> set (ps_procs w) \<Longrightarrow> m \<in> set msgs \<Longrightarrow> msg_Topic m = pr_topic mq p \<Longrightarrow> msg_Payload m = []"
  shows "owned enc mq (publish msgs w)"
  using assms fold_removals unfolding owned_def publish_simps by (metis (no_types, lifting) empty_iff insert_iff)

lemma beat_retained:
  assumes "owned enc mq w0" and "ps_procs w = ps" and "ps_retained w = fold follow [heartbeat enc mq p now] (ps_retained w0)"
    and "pr_beat p = now" and "\<And>p'. p' \<in> set ps \<Longrightarrow> p' = p \<or> p' \<in> set (ps_procs w0) \<and> pr_topic mq p' \<noteq> pr_topic mq p"
  shows "owned enc mq w"
  using assms(1,4,5) by (fastforce simp: owned_def assms(2,3) follow_def heartbeat_def)

lemma presence_step_owned:
  assumes "presence_step j enc mq D w w'" and "owned enc mq w" and "shape mq w"
  shows "owned enc mq w'"
  using assms(1)
proof cases
  case (pt_start p fqdn uuid services cleanup w1 retained)
  have "pr_topic mq p' \<noteq> pr_topic mq p" if "p' \<in> set (ps_procs w)" for p'
    using that pt_start(3) assms(3) by (force simp: shape_def)
  moreover have "pr_beat p = ps_now w" by (simp add: pt_start(2))
  ultimately show ?thesis
    using assms(2) by (intro beat_retained [of enc mq w w' "ps_procs w @ [p]" p "ps_now w"]) (auto simp: pt_start(1,4))
next
  case (pt_beat i p)
  let ?p = "p\<lparr>pr_beat := ps_now w\<rparr>"
  have d: "distinct (map (pr_topic mq) ((ps_procs w)[i := ?p]))"
    using assms(3) by (simp add: shape_def distinct_topics_update pt_beat(3))
  have i: "?p \<in> set ((ps_procs w)[i := ?p])" using pt_beat(2) by (simp add: set_update_memI)
  show ?thesis
  proof (rule beat_retained [OF assms(2)])
    show "ps_procs w' = (ps_procs w)[i := ?p]" by (simp add: pt_beat(1))
    show "ps_retained w' = fold follow [heartbeat enc mq ?p (ps_now w)] (ps_retained w)"
      by (simp add: pt_beat(1) heartbeat_def pr_topic_def)
    show "p' = ?p \<or> p' \<in> set (ps_procs w) \<and> pr_topic mq p' \<noteq> pr_topic mq ?p" if "p' \<in> set ((ps_procs w)[i := ?p])" for p'
      using set_updateD [OF that] that i d by (auto simp: distinct_map inj_on_def)
  qed simp
next
  case (pt_stop i)
  have "p \<in> set (ps_procs w) \<or> p = (ps_procs w ! i)\<lparr>pr_alive := False\<rparr>" if "p \<in> set (ps_procs w')" for p
    using that set_updateD by (fastforce simp: pt_stop(1))
  then show ?thesis using assms(2) nth_mem [OF pt_stop(2)] by (fastforce simp: owned_def pt_stop(1))
next
  case (pt_will p)
  show ?thesis unfolding pt_will(1) using assms(2) by (rule publish_owned) auto
next
  case (pt_other path payload)
  show ?thesis unfolding pt_other(1) using assms(2) pt_other(2) by (intro publish_owned) auto
next
  case (pt_pass i p cfg c entries r send)
  have "owned enc mq (w\<lparr>ps_cleaners := (ps_cleaners w)[i := c\<lparr>sb_view := pa_cache r\<rparr>]\<rparr>)" using assms(2) by (simp add: owned_def)
  then show ?thesis unfolding pt_pass(1) by (rule publish_owned) (auto simp: clears_def)
qed (use assms(2) in \<open>simp_all add: owned_def\<close>)

section \<open>Living daemons\<close>

text \<open>
  What is used of JSON: a heartbeat comes out as it went in. Its services contain the daemon's own
  entry, as the start of a daemon puts it there.
\<close>

definition announced :: "json \<Rightarrow> (gv option gomap \<Rightarrow> gotime \<Rightarrow> string) \<Rightarrow> process \<Rightarrow> bool" where
  "announced j enc p \<longleftrightarrow>
     (\<forall>ts. enc (pr_services p) ts \<noteq> '''' \<and> j_nodeInfo j (enc (pr_services p) ts) = Inr \<lparr>ni_TS = ts, ni_Services = pr_services p\<rparr>)
     \<and> pr_fqdn p \<noteq> ''''
     \<and> (\<exists>version raw. gm_get (pr_services p) RodrevServiceName = Some (Some (rodrevData (daemonService (pr_fqdn p) version)))
          \<and> j_marshal j (rodrevData (daemonService (pr_fqdn p) version)) = Inr raw
          \<and> j_rodrev j raw = Inr (daemonService (pr_fqdn p) version))"

text \<open>A daemon that was started is such a process.\<close>

definition daemonProcess :: "('b, 's) daemon \<Rightarrow> string \<Rightarrow> gotime \<Rightarrow> process" where
  "daemonProcess d uuid now =
     \<lparr>pr_fqdn = dm_fqdn d, pr_uuid = uuid, pr_services = mn_Services (dm_node d),
      pr_cleanup = (case dm_cleanup d of Inr (Some (topics, cfg)) \<Rightarrow> Some cfg | _ \<Rightarrow> None),
      pr_alive = True, pr_started = now, pr_beat = now\<rparr>"

lemma daemonProcess_announced:
  assumes "started_daemon (daemon_New e cfg) = Some d" and "dm_fqdn d \<noteq> ''''"
    and "\<And>ts. enc (mn_Services (dm_node d)) ts \<noteq> ''''"
    and "\<And>ts. j_nodeInfo j (enc (mn_Services (dm_node d)) ts) = Inr \<lparr>ni_TS = ts, ni_Services = mn_Services (dm_node d)\<rparr>"
    and "j_marshal j (rodrevData (daemonService (dm_fqdn d) (ac_Version cfg))) = Inr raw"
    and "j_rodrev j raw = Inr (daemonService (dm_fqdn d) (ac_Version cfg))"
  shows "announced j enc (daemonProcess d uuid now)"
  unfolding announced_def using assms(2-6) daemon_New_services(1) [OF assms(1)]
  by (simp add: daemonProcess_def) blast

text \<open>A topic with a level called \<^verbatim>\<open>heartbeat\<close> is taken for a left-over of an old daemon.\<close>

definition sound :: "json \<Rightarrow> (gv option gomap \<Rightarrow> gotime \<Rightarrow> string) \<Rightarrow> string \<Rightarrow> process \<Rightarrow> bool" where
  "sound j enc mq p \<longleftrightarrow> announced j enc p \<and> \<not> strContains (pr_topic mq p) ''/heartbeat/''"

definition patient :: "duration \<Rightarrow> presence \<Rightarrow> bool" where
  "patient D w \<longleftrightarrow> (\<forall>p \<in> set (ps_procs w). \<forall>cfg. pr_cleanup p = Some cfg \<longrightarrow> heartbeatInterval + D \<le> hc_MaxAge cfg)"

definition lives :: "json \<Rightarrow> (gv option gomap \<Rightarrow> gotime \<Rightarrow> string) \<Rightarrow> string \<Rightarrow> presence \<Rightarrow> process \<Rightarrow> bool" where
  "lives j enc mq w p \<longleftrightarrow>
     gm_get (ps_retained w) (pr_topic mq p) = Some (enc (pr_services p) (pr_beat p))
     \<and> list_all (follows retained_payload (heartbeat enc mq p) (pr_topic mq p) (pr_started p) (pr_beat p)) (ps_cleaners w)
     \<and> list_all (follows (heartbeat_value j) (heartbeat enc mq p) (pr_topic mq p) (pr_started p) (pr_beat p)) (ps_watchers w)"

lemma sound_simps [simp]:
  "sound j enc mq (p\<lparr>pr_beat := b\<rparr>) = sound j enc mq p" "sound j enc mq (p\<lparr>pr_alive := a\<rparr>) = sound j enc mq p"
  by (simp_all add: sound_def announced_def)

lemma heartbeat_beat [simp]: "heartbeat enc mq (p\<lparr>pr_beat := b\<rparr>) = heartbeat enc mq p"
  by (simp add: heartbeat_def fun_eq_iff)

lemma sound_values:
  assumes "sound j enc mq p"
  shows "retained_payload (heartbeat enc mq p y) = Some (Some (enc (pr_services p) y))"
    and "\<exists>v. heartbeat_value j (heartbeat enc mq p y) = Some (Some v) \<and> nd_FQDN v = pr_fqdn p
      \<and> nd_LastUpdate v = Some y \<and> nd_StaleAge v = 15 * minute"
proof -
  have ne: "enc (pr_services p) y \<noteq> []" and info: "j_nodeInfo j (enc (pr_services p) y) = Inr \<lparr>ni_TS = y, ni_Services = pr_services p\<rparr>"
    and fqdn: "pr_fqdn p \<noteq> ''''"
    using assms by (simp_all add: sound_def announced_def)
  show "retained_payload (heartbeat enc mq p y) = Some (Some (enc (pr_services p) y))"
    using ne by (simp add: retained_payload_def heartbeat_def)
  obtain version raw where "gm_get (pr_services p) RodrevServiceName = Some (Some (rodrevData (daemonService (pr_fqdn p) version)))"
    "j_marshal j (rodrevData (daemonService (pr_fqdn p) version)) = Inr raw"
    "j_rodrev j raw = Inr (daemonService (pr_fqdn p) version)"
    using assms by (auto simp: sound_def announced_def)
  from announced_heartbeat [OF this(1) fqdn _ info this(2,3)] ne
  show "\<exists>v. heartbeat_value j (heartbeat enc mq p y) = Some (Some v) \<and> nd_FQDN v = pr_fqdn p
      \<and> nd_LastUpdate v = Some y \<and> nd_StaleAge v = 15 * minute"
    by (simp add: heartbeat_value_def heartbeat_def announcedNode_def)
qed

lemma follows_other:
  assumes "follows value_of beat t started newest s" and "t \<notin> msg_Topic ` set msgs"
  shows "follows value_of beat t started newest (hear now msgs s)"
proof -
  have o: "\<forall>e \<in> set (map (Pair now) msgs). msg_Topic (snd e) \<noteq> t" using assms(2) by auto
  show ?thesis
  proof (cases "sb_open s")
    case True
    with assms(1) only_beats_append [OF _ o] show ?thesis by (simp add: follows_def) (blast intro: covered_append)
  qed (simp add: follows_def)
qed

lemma follows_beat:
  assumes "follows value_of beat t started newest s" and "msg_Topic (beat now) = t" and "now \<le> newest + heartbeatInterval" and "0 < now"
  shows "follows value_of beat t started now (hear now [beat now] s)"
proof (cases "sb_open s")
  case True
  then show ?thesis
    using assms only_beats_beat [of beat t newest "sb_feed s" now] covered_beat [of t newest _ "sb_feed s" "beat now" now]
    by (simp add: follows_def) blast
qed (simp add: follows_def)

lemma follows_first:
  assumes "sub_ok used s" and "t \<notin> used" and "msg_Topic (beat now) = t" and "0 < now"
  shows "follows value_of beat t now now (hear now [beat now] s)"
proof -
  have n: "\<forall>(q, m) \<in> set (sb_feed s). msg_Topic m \<noteq> t" and v: "gm_get (sb_view s) t = None"
    using assms(1,2) by (auto simp: sub_ok_def gm_get_None)
  have "only_beats beat t now feed" if "\<forall>(q, m) \<in> set feed. msg_Topic m \<noteq> t" for feed
    using that by (induction feed) auto
  with n have "only_beats beat t now (sb_feed s @ [(now, beat now)])"
    using only_beats_beat [of beat t now "sb_feed s" now] assms(3,4) heartbeatInterval_pos by simp
  with v assms(3) show ?thesis by (auto simp: follows_def)
qed

lemma follows_subscribe:
  assumes "gm_get retained t = Some (msg_Payload (beat newest))" and "gm_ok retained" and "mset rs = mset retained"
    and "0 < newest" and "\<And>y. msg_Topic (beat y) = t"
  shows "follows value_of beat t started newest (subscribe active now rs)"
proof -
  have r: "v = msg_Payload (beat newest)" if "(t, v) \<in> set rs" for v
    using that mset_eq_setD [OF assms(3)] gm_get_iff [OF assms(2), of t v] assms(1) by simp
  have "\<lparr>msg_Topic = t, msg_Payload = msg_Payload (beat newest)\<rparr> = beat newest" using assms(5) [of newest] by simp
  then have m: "\<lparr>msg_Topic = t', msg_Payload = v\<rparr> = beat newest" if "(t', v) \<in> set rs" "t' = t" for t' v
    using r that by simp
  have "only_beats beat t newest (map (\<lambda>(t, payload). (now, \<lparr>msg_Topic = t, msg_Payload = payload\<rparr>)) es)" if "set es \<subseteq> set rs" for es
    using that
  proof (induction es)
    case (Cons e es)
    then show ?case using m assms(4) by (cases e) (auto simp: covered_def)
  qed simp
  moreover have "(t, msg_Payload (beat newest)) \<in> set rs"
    using gm_get_SomeD [OF assms(1)] mset_eq_setD [OF assms(3)] by simp
  then have "\<exists>(q, m) \<in> set (map (\<lambda>(t, payload). (now, \<lparr>msg_Topic = t, msg_Payload = payload\<rparr>)) rs). msg_Topic m = t \<and> q \<le> max now started"
    by force
  ultimately show ?thesis by (simp add: follows_def)
qed

lemma lives_publish:
  assumes "lives j enc mq w p" and "pr_topic mq p \<notin> msg_Topic ` set msgs"
  shows "lives j enc mq (publish msgs w) p"
  using assms cache.get_fold_other [OF assms(2)]
  by (auto simp: lives_def list.pred_map comp_def intro: follows_other elim!: list.pred_mono_strong)

lemma lives_beat:
  assumes "lives j enc mq w p" and "sound j enc mq p" and "ps_now w \<le> pr_beat p + heartbeatInterval" and "0 < ps_now w"
  shows "lives j enc mq (publish [heartbeat enc mq p (ps_now w)] w) (p\<lparr>pr_beat := ps_now w\<rparr>)"
proof -
  have "enc (pr_services p) (ps_now w) \<noteq> []" using assms(2) by (simp add: sound_def announced_def)
  then have "gm_get (follow (heartbeat enc mq p (ps_now w)) (ps_retained w)) (pr_topic mq p) = Some (enc (pr_services p) (ps_now w))"
    by (simp add: follow_def heartbeat_def)
  then show ?thesis using assms
    by (auto simp: lives_def list.pred_map comp_def intro!: follows_beat elim!: list.pred_mono_strong)
qed

lemma lives_first:
  assumes "shape mq w" and "sound j enc mq p" and "pr_topic mq p \<notin> set (ps_used w)" and "0 < ps_now w"
    and "pr_started p = ps_now w" and "pr_beat p = ps_now w"
  shows "lives j enc mq (publish [heartbeat enc mq p (ps_now w)] w) p"
proof -
  have "enc (pr_services p) (ps_now w) \<noteq> []" using assms(2) by (simp add: sound_def announced_def)
  then have "gm_get (follow (heartbeat enc mq p (ps_now w)) (ps_retained w)) (pr_topic mq p) = Some (enc (pr_services p) (ps_now w))"
    by (simp add: follow_def heartbeat_def)
  then show ?thesis using assms
    by (auto simp: lives_def shape_def list.pred_map comp_def intro!: follows_first elim!: list.pred_mono_strong)
qed

lemma lives_subscribe:
  assumes "lives j enc mq w p" and "gm_ok (ps_retained w)" and "mset rs = mset (ps_retained w)" and "0 < pr_beat p"
  shows "follows value_of (heartbeat enc mq p) (pr_topic mq p) (pr_started p) (pr_beat p) (subscribe active now rs)"
  using assms by (intro follows_subscribe [of "ps_retained w"]) (simp_all add: lives_def heartbeat_def)

text \<open>A cleanup that is patient enough never takes a living daemon for dead.\<close>

lemma living_not_removed:
  assumes "follows retained_payload (heartbeat enc mq p) (pr_topic mq p) (pr_started p) (pr_beat p) c" and "sb_open c"
    and "on_time D now c" and "now \<le> pr_beat p + heartbeatInterval" and "0 \<le> D" and "sound j enc mq p"
    and "heartbeatInterval + D \<le> hc_MaxAge cfg" and "gm_get (sb_view c) (pr_topic mq p) = Some v"
  shows "\<not> removed j now send (cleanupLoopOpts cfg mq name uuid) (pr_topic mq p, v)"
proof -
  obtain y where y: "y > 0" "retained_payload (heartbeat enc mq p y) = Some (Some v)"
    "covered (pr_topic mq p) (pr_beat p) y (sb_feed c)"
    using assms(1,2,8) by (auto simp: follows_def)
  have v: "v = enc (pr_services p) y" using y(2) sound_values(1) [OF assms(6)] by simp
  have "now \<le> y + heartbeatInterval + D"
    using covered_recent [OF y(3) _ assms(4,5)] assms(2,3) by (simp add: on_time_def)
  then have "time_sub now y \<le> hc_MaxAge cfg"
    using assms(5,7) heartbeatInterval_pos by (simp add: time_sub_def)
  then show ?thesis using assms(6) y(1)
    by (simp add: removed_def picked_def staleHeartbeat_def sound_def announced_def v cleanupLoopOpts_def Let_def)
qed

definition all_live :: "json \<Rightarrow> (gv option gomap \<Rightarrow> gotime \<Rightarrow> string) \<Rightarrow> string \<Rightarrow> duration \<Rightarrow> presence \<Rightarrow> bool" where
  "all_live j enc mq D w \<longleftrightarrow> patient D w \<longrightarrow>
     (\<forall>p \<in> set (ps_procs w). pr_alive p \<and> sound j enc mq p \<longrightarrow> lives j enc mq w p)"

lemma lives_procs: "lives j enc mq (w\<lparr>ps_procs := ps\<rparr>) p = lives j enc mq w p"
  by (simp add: lives_def)

lemma lives_cleaner:
  "\<lbrakk>lives j enc mq w p; follows retained_payload (heartbeat enc mq p) (pr_topic mq p) (pr_started p) (pr_beat p) s\<rbrakk>
    \<Longrightarrow> lives j enc mq (w\<lparr>ps_cleaners := (ps_cleaners w)[i := s]\<rparr>) p"
  by (simp add: lives_def list_all_update)

lemma topics_differ:
  "\<lbrakk>distinct (map (pr_topic mq) ps); p \<in> set ps; p' \<in> set ps; p \<noteq> p'\<rbrakk> \<Longrightarrow> pr_topic mq p \<noteq> pr_topic mq p'"
  by (auto simp: distinct_map inj_on_def)

lemma presence_step_lives:
  assumes "presence_step j enc mq D w w'" and "shape mq w" and "timely D w" and "EventRoot mq \<noteq> []" and "0 \<le> D"
    and live: "\<And>p. \<lbrakk>p \<in> set (ps_procs w); pr_alive p; sound j enc mq p\<rbrakk> \<Longrightarrow> lives j enc mq w p"
    and "patient D w" and p': "p' \<in> set (ps_procs w')" "pr_alive p'" "sound j enc mq p'"
  shows "lives j enc mq w' p'"
  using assms(1)
proof cases
  case (pt_tick now)
  then show ?thesis using live p' by (simp add: lives_def)
next
  case (pt_start p fqdn uuid services cleanup w1 retained)
  have now: "0 < ps_now w" using assms(3) by (simp add: timely_def)
  have w1: "shape mq w1" unfolding pt_start(4) using assms(2) by (rule publish_shape) (auto simp: pr_topic_raw)
  have fresh: "pr_topic mq q \<noteq> pr_topic mq p" if "q \<in> set (ps_procs w)" for q
    using that pt_start(3) assms(2) by (force simp: shape_def)
  have st: "pr_started p = ps_now w" "pr_beat p = ps_now w" by (simp_all add: pt_start(2))
  consider "p' = p" | "p' \<in> set (ps_procs w)" using p'(1) by (auto simp: pt_start(1))
  then have "0 < pr_beat p' \<and> lives j enc mq w1 p'"
  proof cases
    case 1
    then show ?thesis using lives_first [OF assms(2) _ pt_start(3) now st, of j enc] p'(3) now st by (simp add: pt_start(4))
  next
    case 2
    then have "0 < pr_beat p'" using assms(3) by (simp add: timely_def)
    with 2 live p' fresh [OF 2] show ?thesis unfolding pt_start(4) by (auto intro!: lives_publish)
  qed
  then have pos: "0 < pr_beat p'" and l: "lives j enc mq w1 p'" by simp_all
  from l pos have "follows retained_payload (heartbeat enc mq p') (pr_topic mq p') (pr_started p') (pr_beat p')
      (subscribe (cleanup \<noteq> None) (ps_now w) retained)"
    using w1 pt_start(5) by (intro lives_subscribe [OF l]) (simp_all add: shape_def)
  with l show ?thesis by (simp add: lives_def pt_start(1))
next
  case (pt_beat i p)
  have mem: "p \<in> set (ps_procs w)" using pt_beat(2,3) by simp
  have d: "distinct (map (pr_topic mq) ((ps_procs w)[i := p\<lparr>pr_beat := ps_now w\<rparr>]))"
    using assms(2) by (simp add: shape_def distinct_topics_update pt_beat(3))
  show ?thesis
  proof (cases "p' = p\<lparr>pr_beat := ps_now w\<rparr>")
    case True
    with p' live mem pt_beat(4) have "lives j enc mq w p" by simp
    with lives_beat [of j enc mq w p] True p' mem pt_beat(4) assms(3)
    show ?thesis by (simp add: pt_beat(1) timely_def lives_def)
  next
    case False
    with p' pt_beat(2) d have "pr_topic mq p' \<noteq> pr_topic mq (p\<lparr>pr_beat := ps_now w\<rparr>)"
      by (intro topics_differ [OF d]) (simp_all add: pt_beat(1) set_update_memI)
    moreover have "p' \<in> set (ps_procs w)" using p'(1) False set_updateD by (fastforce simp: pt_beat(1))
    ultimately show ?thesis using live p' unfolding pt_beat(1) by (intro lives_publish) (simp_all add: lives_procs)
  qed
next
  case (pt_stop i)
  have "p' \<in> set (ps_procs w)" using p'(1,2) set_updateD by (fastforce simp: pt_stop(1))
  then have "lives j enc mq w p'" using live p' by blast
  then have "lives j enc mq (w\<lparr>ps_cleaners := (ps_cleaners w)[i := (ps_cleaners w ! i)\<lparr>sb_open := False\<rparr>]\<rparr>) p'"
    by (rule lives_cleaner) (simp add: follows_def)
  then show ?thesis by (simp add: pt_stop(1) lives_def)
next
  case (pt_will p)
  have "pr_topic mq p' \<noteq> pr_topic mq p"
    using assms(2) pt_will(2,3) p' by (intro topics_differ [of mq "ps_procs w"]) (auto simp: shape_def pt_will(1))
  then show ?thesis unfolding pt_will(1) using live p' by (intro lives_publish) (simp_all add: pt_will(1))
next
  case (pt_other path payload)
  then have "pr_topic mq p' \<noteq> rawTopic mq path" using p'(1) by (metis imageI publish_simps(2))
  then show ?thesis unfolding pt_other(1) using live p' by (intro lives_publish) (simp_all add: pt_other(1))
next
  case (pt_watch retained)
  have l: "lives j enc mq w p'" and "0 < pr_beat p'" using live p' assms(3) by (simp_all add: pt_watch(1) timely_def)
  then have "follows (heartbeat_value j) (heartbeat enc mq p') (pr_topic mq p') (pr_started p') (pr_beat p')
      (subscribe True (ps_now w) retained)"
    using assms(2) pt_watch(2) by (intro lives_subscribe [OF l]) (simp_all add: shape_def)
  with l show ?thesis by (simp add: lives_def pt_watch(1))
next
  case (pt_unwatch i)
  have "lives j enc mq w p'" using live p' by (simp add: pt_unwatch(1))
  then show ?thesis by (simp add: lives_def pt_unwatch(1) list_all_update follows_def)
next
  case (pt_cleaner i s)
  have l: "lives j enc mq w p'" using live p' by (simp add: pt_cleaner(1))
  then have "follows retained_payload (heartbeat enc mq p') (pr_topic mq p') (pr_started p') (pr_beat p') (ps_cleaners w ! i)"
    using pt_cleaner(2) by (simp add: lives_def list_all_nthD)
  from cache.follows_receives [OF pt_cleaner(3) this heartbeat_topic] sound_values(1) [OF p'(3)]
  show ?thesis unfolding pt_cleaner(1) by (intro lives_cleaner [OF l]) blast
next
  case (pt_watcher i s)
  have l: "lives j enc mq w p'" using live p' by (simp add: pt_watcher(1))
  then have "follows (heartbeat_value j) (heartbeat enc mq p') (pr_topic mq p') (pr_started p') (pr_beat p') (ps_watchers w ! i)"
    using pt_watcher(2) by (simp add: lives_def list_all_nthD)
  from watch.follows_receives [OF pt_watcher(3) this heartbeat_topic] sound_values(2) [OF p'(3)]
  have "follows (heartbeat_value j) (heartbeat enc mq p') (pr_topic mq p') (pr_started p') (pr_beat p') s" by blast
  with l show ?thesis by (simp add: lives_def pt_watcher(1) list_all_update)
next
  case (pt_pass i p cfg c entries r send)
  have i: "i < length (ps_cleaners w)" and mem: "p \<in> set (ps_procs w)" using pt_pass(2,3) assms(2) by (simp_all add: shape_def)
  then have c: "sub_ok (set (ps_used w)) c" "on_time D (ps_now w) c"
    using assms(2,3) by (simp_all add: shape_def timely_def pt_pass(6) list_all_nthD)
  then have ok: "gm_ok (sb_view c)" and raw: "fst ` set (sb_view c) \<subseteq> range (rawTopic mq)"
    using assms(2) by (auto simp: sub_ok_def shape_def)
  have l: "lives j enc mq w p'" and alive: "ps_now w \<le> pr_beat p' + heartbeatInterval"
    using live p' assms(3) by (simp_all add: pt_pass(1) timely_def)
  then have f: "follows retained_payload (heartbeat enc mq p') (pr_topic mq p') (pr_started p') (pr_beat p') c"
    using i by (simp add: lives_def pt_pass(6) list_all_nthD)
  have "heartbeatInterval + D \<le> hc_MaxAge cfg" using assms(7) mem pt_pass(5) by (simp add: patient_def)
  note n = living_not_removed [OF f pt_pass(7) c(2) alive assms(5) p'(3) this]
  have "pr_topic mq p' \<notin> msg_Topic ` set (clears mq send (pa_sent r))"
    using n by (auto simp: pass_clears(1) [OF pt_pass(8) ok assms(4) raw pt_pass(9)])
  moreover have "gm_get (pa_cache r) (pr_topic mq p') = gm_get (sb_view c) (pr_topic mq p')"
    using n by (auto simp: pass_parts(2) [OF pt_pass(8) ok pt_pass(9)])
  then have "follows retained_payload (heartbeat enc mq p') (pr_topic mq p') (pr_started p') (pr_beat p') (c\<lparr>sb_view := pa_cache r\<rparr>)"
    using f by (simp add: follows_def)
  with l have "lives j enc mq (w\<lparr>ps_cleaners := (ps_cleaners w)[i := c\<lparr>sb_view := pa_cache r\<rparr>]\<rparr>) p'" by (rule lives_cleaner)
  ultimately show ?thesis unfolding pt_pass(1) by (intro lives_publish)
qed

lemma presence_step_cleanups:
  "presence_step j enc mq D w w' \<Longrightarrow> set (map pr_cleanup (ps_procs w)) \<subseteq> set (map pr_cleanup (ps_procs w'))"
proof (induction rule: presence_step.induct)
  case (pt_beat i w p)
  have "map pr_cleanup ((ps_procs w)[i := p\<lparr>pr_beat := ps_now w\<rparr>]) = map pr_cleanup (ps_procs w)"
    using pt_beat(1) by (simp add: map_update pt_beat(2) list_update_same_conv)
  then show ?case by (simp del: set_map)
next
  case (pt_stop i w)
  then have "map pr_cleanup ((ps_procs w)[i := (ps_procs w ! i)\<lparr>pr_alive := False\<rparr>]) = map pr_cleanup (ps_procs w)"
    by (simp add: map_update list_update_same_conv)
  then show ?case by (simp del: set_map)
qed auto

lemma presence_step_patient: "\<lbrakk>presence_step j enc mq D w w'; patient D w'\<rbrakk> \<Longrightarrow> patient D w"
  using presence_step_cleanups [of j enc mq D w w'] by (force simp: patient_def)

lemma presence_reachable_inv:
  assumes "presence_reachable j enc mq D w" and "EventRoot mq \<noteq> []" and "0 \<le> D"
  shows "shape mq w \<and> timely D w \<and> synced w \<and> accounted mq w \<and> owned enc mq w \<and> all_live j enc mq D w"
  using assms(1)
proof induction
  case (pe_start w)
  then show ?case
    by (auto simp: presence_start_def shape_def timely_def synced_def accounted_def owned_def all_live_def)
next
  case (pe_step w w')
  then have inv: "shape mq w" "timely D w" "synced w" "accounted mq w" "owned enc mq w" "all_live j enc mq D w" by simp_all
  have "all_live j enc mq D w'"
    unfolding all_live_def
  proof (intro impI ballI)
    fix p assume "patient D w'" and p: "p \<in> set (ps_procs w')" "pr_alive p \<and> sound j enc mq p"
    then have "patient D w" using presence_step_patient pe_step(2) by blast
    with inv(6) have "\<And>p. \<lbrakk>p \<in> set (ps_procs w); pr_alive p; sound j enc mq p\<rbrakk> \<Longrightarrow> lives j enc mq w p" by (simp add: all_live_def)
    with presence_step_lives [OF pe_step(2) inv(1,2) assms(2,3) _ \<open>patient D w\<close>] p show "lives j enc mq w' p" by blast
  qed
  moreover have "length (ps_cleaners w) = length (ps_procs w)" using inv(1) by (simp add: shape_def)
  ultimately show ?case
    using presence_step_shape [OF pe_step(2) inv(1) assms(2)] presence_step_timely [OF pe_step(2) inv(2) assms(3)]
      presence_step_synced [OF pe_step(2) inv(3,1) assms(2)] presence_step_accounted [OF pe_step(2) inv(4,1,2)]
      presence_step_owned [OF pe_step(2) inv(5,1)] by blast
qed

section \<open>Properties\<close>

text \<open>
  C14: No living daemon is forgotten: whatever the cleanups of all the daemons do and whenever they
  do it, a daemon that announces itself once per interval stays retained on the broker, and every
  client that has been watching for the delay of a message lists it as active, as soon as it has
  been up that long. The cleanups must wait at least for an interval and the delay, the delay be
  at most fourteen minutes, and the daemon's topic contain no level called \<^verbatim>\<open>heartbeat\<close>.
\<close>

theorem living_daemon_stays_listed:
  assumes "presence_reachable j enc mq D w" and "EventRoot mq \<noteq> []" and "0 \<le> D" and "D \<le> 14 * minute" and "patient D w"
    and "p \<in> set (ps_procs w)" and "pr_alive p" and "sound j enc mq p"
  shows "gm_get (ps_retained w) (pr_topic mq p) = Some (enc (pr_services p) (pr_beat p))
    \<and> (\<forall>s \<in> set (ps_watchers w). sb_open s \<and> max (sb_since s) (pr_started p) + D < ps_now w
        \<longrightarrow> pr_fqdn p \<in> set (ActiveNodes (watcher_Discovery (ps_now w) (sb_view s))))"
proof (intro conjI ballI impI)
  note inv = presence_reachable_inv [OF assms(1-3)]
  then have l: "lives j enc mq w p" using assms(5-8) by (simp add: all_live_def)
  then show "gm_get (ps_retained w) (pr_topic mq p) = Some (enc (pr_services p) (pr_beat p))" by (simp add: lives_def)
  fix s assume s: "s \<in> set (ps_watchers w)" and o: "sb_open s \<and> max (sb_since s) (pr_started p) + D < ps_now w"
  have t: "\<forall>(q, m) \<in> set (sb_feed s). ps_now w \<le> q + D" and alive: "ps_now w \<le> pr_beat p + heartbeatInterval"
    using inv s o assms(6,7) by (auto simp: timely_def list_all_iff on_time_def)
  have f: "follows (heartbeat_value j) (heartbeat enc mq p) (pr_topic mq p) (pr_started p) (pr_beat p) s"
    using l s by (simp add: lives_def list_all_iff)
  then obtain v where v: "gm_get (sb_view s) (pr_topic mq p) = Some v" using o t by (force simp: follows_def)
  then obtain y where y: "heartbeat_value j (heartbeat enc mq p y) = Some (Some v)" "covered (pr_topic mq p) (pr_beat p) y (sb_feed s)"
    using f o by (auto simp: follows_def)
  have n: "nd_FQDN v = pr_fqdn p" "nd_LastUpdate v = Some y" "nd_StaleAge v = 15 * minute"
    using sound_values(2) [OF assms(8), of y] y(1) by auto
  have "ps_now w \<le> y + heartbeatInterval + D" by (rule covered_recent [OF y(2) t alive assms(3)])
  then have "\<not> node_stale (ps_now w) v"
    using assms(4) n by (simp add: node_stale_def time_sub_def heartbeatInterval_def time_units)
  then show "pr_fqdn p \<in> set (ActiveNodes (watcher_Discovery (ps_now w) (sb_view s)))"
    using gm_get_SomeD [OF v] n(1) by (force simp: ActiveNodes_def watcher_Discovery_keys)
qed

text \<open>
  C15: No dead daemon is remembered for ever: a pass of another daemon's cleanup whose removals the
  broker accepts leaves nothing of a daemon that is gone and whose last heartbeat is older than the
  maximum age, provided the cleanup runs for longer than the delay of a message and is no dry run.
\<close>

theorem dead_daemon_is_forgotten:
  assumes "presence_reachable j enc mq D w" and "EventRoot mq \<noteq> []" and "0 \<le> D"
    and "p \<in> set (ps_procs w)" and "\<not> pr_alive p" and "sound j enc mq p"
    and "i < length (ps_procs w)" and "pr_alive (ps_procs w ! i)" and "pr_cleanup (ps_procs w ! i) = Some cfg"
    and "sb_open (ps_cleaners w ! i)" and "\<not> hc_DryRun cfg"
    and "sb_since (ps_cleaners w ! i) + D < ps_now w" and "D \<le> hc_MaxAge cfg" and "hc_MaxAge cfg < time_sub (ps_now w) (pr_beat p)"
    and "mset entries = mset (cache_snapshot (sb_view (ps_cleaners w ! i)))"
    and "w' = cleanup_pass j mq i cfg (\<lambda>path. None) entries w"
  shows "presence_step j enc mq D w w' \<and> gm_get (ps_retained w') (pr_topic mq p) = None"
proof
  define k c r where "k = ps_procs w ! i" and "c = ps_cleaners w ! i"
    and r: "r = runHeartbeatCleanup j (ps_now w) (\<lambda>path. None) (cleanupLoopOpts cfg mq (pr_fqdn k) (pr_uuid k)) entries (sb_view c)"
  note k = this(1) and c_def = this(2)
  have w': "w' = publish (clears mq (\<lambda>path. None) (pa_sent r)) (w\<lparr>ps_cleaners := (ps_cleaners w)[i := c\<lparr>sb_view := pa_cache r\<rparr>]\<rparr>)"
    by (simp add: assms(16) cleanup_pass_def r k c_def Let_def)
  show "presence_step j enc mq D w w'"
    unfolding w' using assms(7-10,15) by (intro pt_pass [OF _ k _ _ c_def _ _ r]) (simp_all add: k c_def)
  let ?t = "pr_topic mq p" and ?msgs = "clears mq (\<lambda>path. None) (pa_sent r)"
  have inv: "shape mq w" "timely D w" "synced w" "accounted mq w" "owned enc mq w"
    using presence_reachable_inv [OF assms(1-3)] by simp_all
  have i: "i < length (ps_cleaners w)" using assms(7) inv(1) by (simp add: shape_def)
  then have c: "sub_ok (set (ps_used w)) c" "on_time D (ps_now w) c" "catches_up (ps_retained w) c" "known_until ?t (pr_beat p) c"
    using inv assms(4) by (simp_all add: shape_def timely_def synced_def accounted_def c_def list_all_nthD)
  then have ok: "gm_ok (sb_view c)" and raw: "fst ` set (sb_view c) \<subseteq> range (rawTopic mq)"
    using inv(1) by (auto simp: sub_ok_def shape_def)
  note clears = pass_clears [OF assms(15) [folded c_def] ok assms(2) raw r]
  have old: "pr_beat p + D < ps_now w" using assms(3,13,14) by (simp add: time_sub_def)
  have late: "msg_Payload m = []" if "(q, m) \<in> set (sb_feed c)" "msg_Topic m = ?t" for q m
    using that c(2,4) assms(10,12) [folded c_def] old by (fastforce simp: known_until_def on_time_def)
  have "gm_get (ps_retained w) ?t = None \<or> gm_get (sb_view c) ?t = gm_get (ps_retained w) ?t"
  proof -
    have "gm_get (fold follow msgs view) ?t \<in> {None, gm_get view ?t}"
      if "\<forall>m \<in> set msgs. msg_Topic m = ?t \<longrightarrow> msg_Payload m = []" for msgs view
      by (rule fold_removals) (use that in auto)
    moreover have "\<forall>m \<in> set (map snd (sb_feed c)). msg_Topic m = ?t \<longrightarrow> msg_Payload m = []" using late by auto
    ultimately have "gm_get (fold follow (map snd (sb_feed c)) (sb_view c)) ?t \<in> {None, gm_get (sb_view c) ?t}" by blast
    then show ?thesis using c(3) assms(10) [folded c_def] by (auto simp: catches_up_def)
  qed
  then show "gm_get (ps_retained w') ?t = None"
  proof
    assume "gm_get (ps_retained w) ?t = None"
    then show ?thesis using clears(2) by (simp add: w' fold_clears)
  next
    assume same: "gm_get (sb_view c) ?t = gm_get (ps_retained w) ?t"
    have "gm_get (ps_retained w) ?t \<in> {None, Some (enc (pr_services p) (pr_beat p))}" using inv(5) assms(4) by (simp add: owned_def)
    moreover have "?t \<in> msg_Topic ` set ?msgs" if "gm_get (sb_view c) ?t = Some (enc (pr_services p) (pr_beat p))"
    proof -
      have "p \<noteq> k" using assms(5,8) by (auto simp: k)
      then have "?t \<noteq> pr_topic mq k" using assms(4,7) inv(1) by (intro topics_differ [of mq "ps_procs w"]) (simp_all add: shape_def k)
      then have "removed j (ps_now w) (\<lambda>path. None) (cleanupLoopOpts cfg mq (pr_fqdn k) (pr_uuid k)) (?t, enc (pr_services p) (pr_beat p))"
        using assms(6,11,14)
        by (simp add: removed_def picked_def cleanupLoopOpts_def staleHeartbeat_def sound_def announced_def Let_def) (simp add: pr_topic_def)
      with that show ?thesis by (auto simp: clears(1))
    qed
    ultimately show ?thesis using same clears(2) by (auto simp: w' fold_clears)
  qed
qed

section \<open>Witnesses\<close>

text \<open>A heartbeat that is nothing but its time, and daemons that start, are watched and die.\<close>

definition plainBeat :: "gv option gomap \<Rightarrow> gotime \<Rightarrow> string" where
  "plainBeat services ts = (if ts < 0 then CHR ''-'' else CHR ''+'') # replicate (nat (abs ts)) CHR ''i''"

definition plainServices :: "gv option gomap" where
  "plainServices = [(RodrevServiceName, Some (rodrevData (daemonService ''n1'' ''1'')))]"

definition plainJson :: json where
  "plainJson = \<lparr>j_nodeInfo = (\<lambda>s. Inr \<lparr>ni_TS = (if hd s = CHR ''-'' then - int (length (tl s)) else int (length (tl s))),
       ni_Services = plainServices\<rparr>),
     j_marshal = (\<lambda>v. Inr ''raw''), j_rodrev = (\<lambda>s. Inr (daemonService ''n1'' ''1''))\<rparr>"

definition plainProcess :: "string \<Rightarrow> cleanupConfig option \<Rightarrow> process" where
  "plainProcess uuid cleanup = \<lparr>pr_fqdn = ''n1'', pr_uuid = uuid, pr_services = plainServices, pr_cleanup = cleanup,
     pr_alive = True, pr_started = 1, pr_beat = 1\<rparr>"

definition plainTopic :: "string \<Rightarrow> string" where
  "plainTopic uuid = ''rv/discovery/n1/'' @ uuid"

definition plainHeartbeat :: "string \<Rightarrow> message" where
  "plainHeartbeat uuid = \<lparr>msg_Topic = plainTopic uuid, msg_Payload = plainBeat plainServices 1\<rparr>"

definition emptyPresence :: presence where
  "emptyPresence = \<lparr>ps_now = 1, ps_retained = [], ps_used = [], ps_procs = [], ps_cleaners = [], ps_watchers = []\<rparr>"

definition plainStart :: "string \<Rightarrow> cleanupConfig option \<Rightarrow> presence \<Rightarrow> presence" where
  "plainStart uuid cleanup w =
     (let w1 = publish [plainHeartbeat uuid] w
      in w1\<lparr>ps_procs := ps_procs w @ [plainProcess uuid cleanup],
            ps_cleaners := ps_cleaners w1 @ [subscribe (cleanup \<noteq> None) 1 (ps_retained w1)]\<rparr>)"

lemma plainBeat_law [simp]:
  "plainBeat services ts \<noteq> []" "j_nodeInfo plainJson (plainBeat services ts) = Inr \<lparr>ni_TS = ts, ni_Services = plainServices\<rparr>"
  by (simp_all add: plainBeat_def plainJson_def)

lemma plain_EventRoot: "EventRoot ''rv'' = ''rv''"
  by (simp add: EventRoot_def trimSuffix_def hasSuffix_def hasPrefix_def)

lemma plainProcess_simps [simp]:
  "pr_topic ''rv'' (plainProcess uuid cleanup) = plainTopic uuid" "pr_alive (plainProcess uuid cleanup)"
  "pr_beat (plainProcess uuid cleanup) = 1" "pr_started (plainProcess uuid cleanup) = 1"
  "pr_cleanup (plainProcess uuid cleanup) = cleanup" "pr_services (plainProcess uuid cleanup) = plainServices"
  "pr_fqdn (plainProcess uuid cleanup) = ''n1''"
  by (simp_all add: pr_topic_raw rawTopic_def plain_EventRoot plainProcess_def plainTopic_def)

lemma plainTopic_inject [simp]: "plainTopic u = plainTopic v \<longleftrightarrow> u = v"
  by (simp add: plainTopic_def)

lemma plain_heartbeat: "heartbeat plainBeat ''rv'' (plainProcess uuid cleanup) 1 = plainHeartbeat uuid"
  by (simp add: heartbeat_def plainHeartbeat_def)

lemma plain_sound: "sound plainJson plainBeat ''rv'' (plainProcess ''u1'' cleanup)"
proof -
  have "\<not> strContains (plainTopic ''u1'') ''/heartbeat/''" unfolding plainTopic_def by code_simp
  then show ?thesis
    unfolding sound_def announced_def
    by simp (rule exI [of _ "''1''"], simp add: plainServices_def plainJson_def)
qed

lemma emptyPresence_reachable: "presence_reachable plainJson plainBeat ''rv'' 0 emptyPresence"
  by (rule pe_start) (simp add: presence_start_def emptyPresence_def)

lemma plainStart_reachable:
  assumes "presence_reachable plainJson plainBeat ''rv'' 0 w" and "ps_now w = 1" and "plainTopic uuid \<notin> set (ps_used w)"
  shows "presence_reachable plainJson plainBeat ''rv'' 0 (plainStart uuid cleanup w)"
proof -
  let ?p = "plainProcess uuid cleanup"
  let ?w1 = "publish [heartbeat plainBeat ''rv'' ?p (ps_now w)] w"
  have "?p = \<lparr>pr_fqdn = ''n1'', pr_uuid = uuid, pr_services = plainServices, pr_cleanup = cleanup,
      pr_alive = True, pr_started = ps_now w, pr_beat = ps_now w\<rparr>"
    by (simp add: plainProcess_def assms(2))
  moreover have "pr_topic ''rv'' ?p \<notin> set (ps_used w)" by (simp add: assms(3))
  ultimately have "presence_step plainJson plainBeat ''rv'' 0 w (?w1\<lparr>ps_procs := ps_procs w @ [?p],
      ps_cleaners := ps_cleaners ?w1 @ [subscribe (cleanup \<noteq> None) (ps_now w) (ps_retained ?w1)]\<rparr>)"
    by (rule pt_start [OF _ _ refl refl])
  then have "presence_step plainJson plainBeat ''rv'' 0 w (plainStart uuid cleanup w)"
    by (simp add: plain_heartbeat plainStart_def Let_def assms(2))
  with assms(1) show ?thesis by (rule pe_step)
qed

text \<open>A client watches the daemon and has heard its heartbeat.\<close>

definition watchedPresence :: presence where
  "watchedPresence = (plainStart ''u1'' None emptyPresence)\<lparr>ps_now := 2,
     ps_watchers := [\<lparr>sb_open = True, sb_since = 1, sb_feed = [],
       sb_view = watcher_run plainJson (plainHeartbeat ''u1'') []\<rparr>]\<rparr>"

lemma plainStart_empty:
  "plainStart uuid cleanup emptyPresence = \<lparr>ps_now = 1, ps_retained = [(plainTopic uuid, plainBeat plainServices 1)],
     ps_used = [plainTopic uuid], ps_procs = [plainProcess uuid cleanup],
     ps_cleaners = [subscribe (cleanup \<noteq> None) 1 [(plainTopic uuid, plainBeat plainServices 1)]], ps_watchers = []\<rparr>"
  by (simp add: plainStart_def emptyPresence_def publish_def retain_def plainHeartbeat_def)

lemma plain_interval: "t \<le> 1 + 2 * second \<Longrightarrow> t \<le> 1 + heartbeatInterval"
  by (simp add: heartbeatInterval_def time_units)

lemma watchedPresence_reachable: "presence_reachable plainJson plainBeat ''rv'' 0 watchedPresence"
proof -
  let ?w1 = "plainStart ''u1'' None emptyPresence"
  let ?w2 = "?w1\<lparr>ps_watchers := [subscribe True 1 [(plainTopic ''u1'', plainBeat plainServices 1)]]\<rparr>"
  let ?w3 = "?w2\<lparr>ps_watchers := [\<lparr>sb_open = True, sb_since = 1, sb_feed = [],
       sb_view = watcher_run plainJson (plainHeartbeat ''u1'') []\<rparr>]\<rparr>"
  have "presence_reachable plainJson plainBeat ''rv'' 0 ?w1"
    by (rule plainStart_reachable [OF emptyPresence_reachable]) (simp_all add: emptyPresence_def)
  moreover have "presence_step plainJson plainBeat ''rv'' 0 ?w1 ?w2"
    using pt_watch [of "[(plainTopic ''u1'', plainBeat plainServices 1)]" ?w1] by (simp add: plainStart_empty)
  ultimately have 2: "presence_reachable plainJson plainBeat ''rv'' 0 ?w2" by (rule pe_step)
  have "receives (watcher_run plainJson) (ps_watchers ?w2 ! 0) \<lparr>sb_open = True, sb_since = 1, sb_feed = [],
       sb_view = watcher_run plainJson (plainHeartbeat ''u1'') []\<rparr>"
    using receives.intros [of "ps_watchers ?w2 ! 0" "[]" 1 "plainHeartbeat ''u1''" "[]" "watcher_run plainJson"]
    by (simp add: plainHeartbeat_def) (simp add: subscribe_def)
  then have "presence_step plainJson plainBeat ''rv'' 0 ?w2 ?w3"
    using pt_watcher [of 0 ?w2 plainJson] by simp
  with 2 have 3: "presence_reachable plainJson plainBeat ''rv'' 0 ?w3" by (rule pe_step)
  have "presence_step plainJson plainBeat ''rv'' 0 ?w3 (?w3\<lparr>ps_now := 2\<rparr>)"
    by (rule pt_tick) (simp_all add: plainStart_empty on_time_def plain_interval time_units)
  moreover have "watchedPresence = ?w3\<lparr>ps_now := 2\<rparr>" by (simp add: watchedPresence_def)
  ultimately show ?thesis using pe_step [OF 3] by simp
qed

theorem living_daemon_stays_listed_witness:
  "''n1'' \<in> set (ActiveNodes (watcher_Discovery 2 (watcher_run plainJson (plainHeartbeat ''u1'') [])))"
  using living_daemon_stays_listed [OF watchedPresence_reachable, of "plainProcess ''u1'' None"]
  by (simp add: plain_EventRoot plain_sound patient_def time_units) (simp add: watchedPresence_def plainStart_empty)

text \<open>
  The daemon has died; another one started after it, and its cleanup has heard everything and
  removes what is older than a second.
\<close>

definition plainCleanup :: cleanupConfig where
  "plainCleanup = \<lparr>hc_Disabled = False, hc_DryRun = False, hc_MaxAge = second, hc_Interval = hour, hc_InitialDelay = minute\<rparr>"

definition deadPresence :: presence where
  "deadPresence = \<lparr>ps_now = 1 + 2 * second,
     ps_retained = [(plainTopic ''u1'', plainBeat plainServices 1), (plainTopic ''u2'', plainBeat plainServices 1)],
     ps_used = [plainTopic ''u2'', plainTopic ''u1''],
     ps_procs = [(plainProcess ''u1'' None)\<lparr>pr_alive := False\<rparr>, plainProcess ''u2'' (Some plainCleanup)],
     ps_cleaners = [(subscribe False 1 [(plainTopic ''u1'', plainBeat plainServices 1)])\<lparr>sb_open := False\<rparr>,
       \<lparr>sb_open = True, sb_since = 1, sb_feed = [],
        sb_view = [(plainTopic ''u1'', plainBeat plainServices 1), (plainTopic ''u2'', plainBeat plainServices 1)]\<rparr>],
     ps_watchers = []\<rparr>"

definition freshPresence :: presence where
  "freshPresence = plainStart ''u2'' (Some plainCleanup) (plainStart ''u1'' None emptyPresence
     \<lparr>ps_procs := [(plainProcess ''u1'' None)\<lparr>pr_alive := False\<rparr>],
      ps_cleaners := [(subscribe False 1 [(plainTopic ''u1'', plainBeat plainServices 1)])\<lparr>sb_open := False\<rparr>]\<rparr>)"

lemma freshPresence_reachable: "presence_reachable plainJson plainBeat ''rv'' 0 freshPresence"
proof -
  let ?w1 = "plainStart ''u1'' None emptyPresence"
  have "presence_reachable plainJson plainBeat ''rv'' 0 ?w1"
    by (rule plainStart_reachable [OF emptyPresence_reachable]) (simp_all add: emptyPresence_def)
  moreover have "presence_step plainJson plainBeat ''rv'' 0 ?w1 (?w1
     \<lparr>ps_procs := [(plainProcess ''u1'' None)\<lparr>pr_alive := False\<rparr>],
      ps_cleaners := [(subscribe False 1 [(plainTopic ''u1'', plainBeat plainServices 1)])\<lparr>sb_open := False\<rparr>]\<rparr>)"
    using pt_stop [of 0 ?w1] by (simp add: plainStart_empty)
  ultimately show ?thesis
    unfolding freshPresence_def by (intro plainStart_reachable) (auto intro: pe_step simp: plainStart_empty)
qed

lemma freshPresence_eq:
  "freshPresence = deadPresence\<lparr>ps_now := 1, ps_cleaners := [(subscribe False 1 [(plainTopic ''u1'', plainBeat plainServices 1)])\<lparr>sb_open := False\<rparr>,
     \<lparr>sb_open = True, sb_since = 1, sb_feed = [(1, plainHeartbeat ''u1''), (1, plainHeartbeat ''u2'')], sb_view = []\<rparr>]\<rparr>"
  by (simp add: freshPresence_def plainStart_empty)
    (simp add: plainStart_def publish_def retain_def plainHeartbeat_def deadPresence_def subscribe_def hear_def)

lemma deadPresence_reachable: "presence_reachable plainJson plainBeat ''rv'' 0 deadPresence"
proof -
  let ?c = "\<lambda>feed view. [(subscribe False 1 [(plainTopic ''u1'', plainBeat plainServices 1)])\<lparr>sb_open := False\<rparr>,
     \<lparr>sb_open = True, sb_since = 1, sb_feed = feed, sb_view = view\<rparr>]"
  let ?w = "\<lambda>feed view. deadPresence\<lparr>ps_now := 1, ps_cleaners := ?c feed view\<rparr>"
  have hears: "presence_step plainJson plainBeat ''rv'' 0 (?w (e # feed) view) (?w feed (follow (snd e) view))" for e feed view
    using pt_cleaner [of 1 "?w (e # feed) view"] receives.intros [of "?c (e # feed) view ! 1" "[]" "fst e" "snd e" feed follow]
    by simp
  have "presence_reachable plainJson plainBeat ''rv'' 0 (?w [(1, plainHeartbeat ''u1''), (1, plainHeartbeat ''u2'')] [])"
    using freshPresence_reachable by (simp add: freshPresence_eq)
  from pe_step [OF pe_step [OF this hears] hears]
  have "presence_reachable plainJson plainBeat ''rv'' 0 (deadPresence\<lparr>ps_now := 1\<rparr>)"
    by (simp add: follow_def plainHeartbeat_def) (simp add: deadPresence_def)
  moreover have "presence_step plainJson plainBeat ''rv'' 0 (deadPresence\<lparr>ps_now := 1\<rparr>) (deadPresence\<lparr>ps_now := 1, ps_now := 1 + 2 * second\<rparr>)"
    by (rule pt_tick) (simp_all add: deadPresence_def on_time_def plain_interval time_units)
  then have "presence_step plainJson plainBeat ''rv'' 0 (deadPresence\<lparr>ps_now := 1\<rparr>) deadPresence"
    by (simp add: deadPresence_def)
  ultimately show ?thesis by (rule pe_step)
qed

theorem dead_daemon_is_forgotten_witness:
  "gm_get (ps_retained (cleanup_pass plainJson ''rv'' 1 plainCleanup (\<lambda>path. None)
     (cache_snapshot (sb_view (ps_cleaners deadPresence ! 1))) deadPresence)) (plainTopic ''u1'') = None"
  using dead_daemon_is_forgotten [OF deadPresence_reachable, of "(plainProcess ''u1'' None)\<lparr>pr_alive := False\<rparr>" 1 plainCleanup
      "cache_snapshot (sb_view (ps_cleaners deadPresence ! 1))"]
  by (simp add: plain_EventRoot plain_sound)
    (simp add: deadPresence_def plainCleanup_def time_units time_sub_def)

end
