(* ===== verification/Commands.thy ===== *)
theory Commands
  imports Setup Repl_Session Downtime
begin

text \<open>
  The command line of \<^verbatim>\<open>rv\<close>: the tree of commands and their flags (\<^verbatim>\<open>cmd/rv/cobra.go\<close>), and the
  commands around the client operations (\<^verbatim>\<open>cmd/rv/commands.go\<close>, \<^verbatim>\<open>cmd/rv/commands/\<close>). Parsing the
  command line is the cobra library's; what it leaves behind is the list of flags that were set.
  A command sees its own flags and the persistent ones of itself and everything above it.
\<close>

section \<open>Flags\<close>

datatype flagVal = BoolV bool | StringV string | DurationV duration | StringsV "string list"

record flagDef =
  fd_name :: string
  fd_short :: string
  fd_default :: flagVal

abbreviation flag :: "string \<Rightarrow> string \<Rightarrow> flagVal \<Rightarrow> flagDef" where
  "flag n s v \<equiv> \<lparr>fd_name = n, fd_short = s, fd_default = v\<rparr>"

datatype rvCommand =
    RvRoot | RvVersion | RvPuppet | RvDowntime | RvPuppetRun | RvPuppetStatus | RvPuppetFact | RvQuery
  | RvStatus | RvStatusPuppet | RvStatusRodrev | RvFence | RvFenceRun | RvFenceStatus
  | RvIpset | RvIpsetAdd | RvIpsetDelete

fun commandParent :: "rvCommand \<Rightarrow> rvCommand option" where
  "commandParent RvRoot = None"
| "commandParent RvDowntime = Some RvRoot"
| "commandParent RvVersion = Some RvRoot"
| "commandParent RvPuppetRun = Some RvPuppet"
| "commandParent RvPuppetStatus = Some RvPuppet"
| "commandParent RvPuppetFact = Some RvPuppet"
| "commandParent RvPuppet = Some RvRoot"
| "commandParent RvStatusPuppet = Some RvStatus"
| "commandParent RvStatusRodrev = Some RvStatus"
| "commandParent RvStatus = Some RvRoot"
| "commandParent RvFenceRun = Some RvFence"
| "commandParent RvFenceStatus = Some RvFence"
| "commandParent RvFence = Some RvRoot"
| "commandParent RvIpsetAdd = Some RvIpset"
| "commandParent RvIpsetDelete = Some RvIpset"
| "commandParent RvIpset = Some RvRoot"
| "commandParent RvQuery = Some RvRoot"

fun commandDepth :: "rvCommand \<Rightarrow> nat" where
  "commandDepth RvRoot = 0"
| "commandDepth RvPuppetRun = 2"
| "commandDepth RvPuppetStatus = 2"
| "commandDepth RvPuppetFact = 2"
| "commandDepth RvStatusPuppet = 2"
| "commandDepth RvStatusRodrev = 2"
| "commandDepth RvFenceRun = 2"
| "commandDepth RvFenceStatus = 2"
| "commandDepth RvIpsetAdd = 2"
| "commandDepth RvIpsetDelete = 2"
| "commandDepth c = 1"

function lineage :: "rvCommand \<Rightarrow> rvCommand list" where
  "lineage c = c # (case commandParent c of None \<Rightarrow> [] | Some p \<Rightarrow> lineage p)"
  by pat_completeness auto
termination
proof (relation "measure commandDepth")
  fix c p
  assume "commandParent c = Some p"
  then show "(p, c) \<in> measure commandDepth" by (cases c) auto
qed simp

declare lineage.simps [simp del]

definition cobraDefaultString :: "(string \<Rightarrow> string) \<Rightarrow> string \<Rightarrow> string \<Rightarrow> string" where
  "cobraDefaultString getenv env defaultValue = (if getenv env = '''' then defaultValue else getenv env)"

fun persistentFlags :: "(string \<Rightarrow> string) \<Rightarrow> rvCommand \<Rightarrow> flagDef list" where
  "persistentFlags getenv RvRoot =
     [flag ''quiet'' ''q'' (BoolV False), flag ''debug'' ''d'' (BoolV False),
      flag ''mqtt-url'' '''' (StringV (cobraDefaultString getenv ''RF_MQTT_URL'' '''')),
      flag ''output-format'' ''o'' (StringV ''stderr''), flag ''config'' ''c'' (StringV '''')]"
| "persistentFlags getenv RvPuppet =
     [flag ''node'' ''n'' (StringV ''all''), flag ''target'' '''' (StringV ''all''),
      flag ''filter'' ''f'' (StringV ''''), flag ''random-delay'' ''t'' (DurationV 0),
      flag ''noop'' '''' (BoolV False)]"
| "persistentFlags getenv RvDowntime = [flag ''host'' '''' (StringV '''')]"
| "persistentFlags getenv c = []"

fun localFlags :: "(string \<Rightarrow> string) \<Rightarrow> rvCommand \<Rightarrow> flagDef list" where
  "localFlags getenv RvQuery =
     [flag ''eval'' ''e'' (StringsV []), flag ''facts'' '''' (StringV ''''), flag ''classes'' '''' (StringV ''''),
      flag ''last-run-summary'' '''' (StringV ''''), flag ''data-dir'' '''' (StringV ''''),
      flag ''snapshot'' '''' (StringV ''''), flag ''snapshot-file'' '''' (StringV ''''),
      flag ''node-meta'' '''' (StringsV []), flag ''local'' '''' (BoolV False),
      flag ''timeout'' '''' (DurationV (second * 4)),
      flag ''history'' '''' (StringV (cobraDefaultString getenv ''RV_QUERY_HISTORY'' '''')),
      flag ''no-history'' '''' (BoolV False)]"
| "localFlags getenv c = []"

definition visibleFlags :: "(string \<Rightarrow> string) \<Rightarrow> rvCommand \<Rightarrow> flagDef list" where
  "visibleFlags getenv c = localFlags getenv c @ concat (map (persistentFlags getenv) (lineage c))"

text \<open>An invocation: the environment, the command, the flags set and the arguments.\<close>

record invocation =
  iv_getenv :: "string \<Rightarrow> string"
  iv_command :: rvCommand
  iv_set :: "flagVal gomap"
  iv_args :: "string list"

definition flagValue :: "invocation \<Rightarrow> string \<Rightarrow> flagVal option" where
  "flagValue iv name =
     (case List.find (\<lambda>d. fd_name d = name) (visibleFlags (iv_getenv iv) (iv_command iv)) of
        None \<Rightarrow> None
      | Some d \<Rightarrow> Some (case gm_get (iv_set iv) name of Some v \<Rightarrow> v | None \<Rightarrow> fd_default d))"

text \<open>The library's readers give a value and an error: an unknown flag, or one of another type.\<close>

definition flagError :: "string \<Rightarrow> 'v option \<Rightarrow> string option" where
  "flagError name v =
     Some (case v of None \<Rightarrow> ''flag accessed but not defined: '' @ name
       | Some x \<Rightarrow> ''trying to get a value of another type of flag '' @ name)"

definition GetString :: "invocation \<Rightarrow> string \<Rightarrow> string \<times> string option" where
  "GetString iv name = (case flagValue iv name of Some (StringV s) \<Rightarrow> (s, None) | v \<Rightarrow> ('''', flagError name v))"

definition GetBool :: "invocation \<Rightarrow> string \<Rightarrow> bool \<times> string option" where
  "GetBool iv name = (case flagValue iv name of Some (BoolV b) \<Rightarrow> (b, None) | v \<Rightarrow> (False, flagError name v))"

definition GetDuration :: "invocation \<Rightarrow> string \<Rightarrow> duration \<times> string option" where
  "GetDuration iv name = (case flagValue iv name of Some (DurationV d) \<Rightarrow> (d, None) | v \<Rightarrow> (0, flagError name v))"

definition GetStringArray :: "invocation \<Rightarrow> string \<Rightarrow> string list \<times> string option" where
  "GetStringArray iv name = (case flagValue iv name of Some (StringsV l) \<Rightarrow> (l, None) | v \<Rightarrow> ([], flagError name v))"

definition stringFlag :: "invocation \<Rightarrow> string \<Rightarrow> string outcome" where
  "stringFlag iv name = (case GetString iv name of (s, err) \<Rightarrow> StringOrPanic s err)"

definition boolFlag :: "invocation \<Rightarrow> string \<Rightarrow> bool outcome" where
  "boolFlag iv name = (case GetBool iv name of (b, err) \<Rightarrow> BoolOrPanic b err)"

definition durationFlag :: "invocation \<Rightarrow> string \<Rightarrow> duration outcome" where
  "durationFlag iv name = (case GetDuration iv name of (d, err) \<Rightarrow> DurationOrPanic d err)"

section \<open>What the commands read\<close>

definition initFlagsOf :: "invocation \<Rightarrow> initFlags outcome" where
  "initFlagsOf iv =
     outcome_bind (boolFlag iv ''debug'') (\<lambda>debug.
     outcome_bind (boolFlag iv ''quiet'') (\<lambda>quiet.
     outcome_bind (stringFlag iv ''mqtt-url'') (\<lambda>mqtt.
     outcome_bind (stringFlag iv ''output-format'') (\<lambda>out.
       Ret \<lparr>if_mqttURL = mqtt, if_config = fst (GetString iv ''config''), if_output = out,
            if_debug = debug, if_quiet = quiet\<rparr>))))"

record runFlags =
  rn_node :: string
  rn_noop :: bool
  rn_target :: string
  rn_delay :: duration
  rn_filter :: string

text \<open>The node flag falls back to the deprecated target flag only when it is empty.\<close>

definition runFlagsOf :: "invocation \<Rightarrow> runFlags outcome" where
  "runFlagsOf iv =
     outcome_bind (stringFlag iv ''node'') (\<lambda>node.
     outcome_bind (boolFlag iv ''noop'') (\<lambda>noop.
     outcome_bind (if length node = 0 then stringFlag iv ''target'' else Ret node) (\<lambda>target.
     outcome_bind (durationFlag iv ''random-delay'') (\<lambda>delay.
     outcome_bind (stringFlag iv ''filter'') (\<lambda>flt.
       Ret \<lparr>rn_node = node, rn_noop = noop, rn_target = target, rn_delay = delay, rn_filter = flt\<rparr>)))))"

definition queryFlagsOf :: "invocation \<Rightarrow> queryFlags outcome" where
  "queryFlagsOf iv =
     outcome_bind (stringFlag iv ''facts'') (\<lambda>facts.
     outcome_bind (stringFlag iv ''classes'') (\<lambda>classes.
     outcome_bind (stringFlag iv ''last-run-summary'') (\<lambda>lastRun.
     outcome_bind (stringFlag iv ''data-dir'') (\<lambda>dataDir.
     outcome_bind (boolFlag iv ''local'') (\<lambda>local.
     outcome_bind (boolFlag iv ''debug'') (\<lambda>debug.
     outcome_bind (boolFlag iv ''quiet'') (\<lambda>quiet.
     outcome_bind (stringFlag iv ''output-format'') (\<lambda>format.
     outcome_bind (durationFlag iv ''timeout'') (\<lambda>timeout.
     outcome_bind (stringFlag iv ''history'') (\<lambda>history.
     outcome_bind (boolFlag iv ''no-history'') (\<lambda>noHistory.
     outcome_bind (stringFlag iv ''snapshot'') (\<lambda>snapshotNode.
     outcome_bind (stringFlag iv ''snapshot-file'') (\<lambda>snapshotFile.
       Ret \<lparr>qf_facts = facts, qf_classes = classes, qf_lastRun = lastRun, qf_dataDir = dataDir, qf_local = local,
            qf_quiet = quiet, qf_format = format, qf_timeout = timeout, qf_snapshotNode = snapshotNode,
            qf_snapshotFile = snapshotFile, qf_nodeMeta = fst (GetStringArray iv ''node-meta''),
            qf_eval = fst (GetStringArray iv ''eval''), qf_history = history, qf_noHistory = noHistory\<rparr>)))))))))))))"

section \<open>Running a command\<close>

text \<open>
  What a command prints: help, rows for the CSV writer, a value for the JSON encoder, a line for
  the log, or a value for the pretty printer.
\<close>

datatype cmdOutput =
    HelpText
  | VersionText
  | CsvRow "string list"
  | JsonSummaries "LastRunSummary gomap"
  | JsonFacts "gv gomap"
  | JsonDiscovery "Node list gomap" "Node gomap" "Node gomap"
  | LogLine string
  | PrettyFacts "gv gomap"

record 'b cmdRun =
  cr_sent :: "(string \<times> 'b event) list"
  cr_out :: "cmdOutput list"
  cr_exit :: nat

definition cmdDone :: "(string \<times> 'b event) list \<Rightarrow> cmdOutput list \<Rightarrow> nat \<Rightarrow> 'b cmdRun outcome" where
  "cmdDone sent out code = Ret \<lparr>cr_sent = sent, cr_out = out, cr_exit = code\<rparr>"

text \<open>Everything around a command: connecting, the queue, what comes back, and formatting.\<close>

record 'b cli =
  cx_urls :: urlLib
  cx_env :: clientEnv
  cx_exists :: "string \<Rightarrow> bool"
  cx_load :: "string list \<Rightarrow> appConfig"
  cx_codec :: "'b codec"
  cx_fenceCodec :: "'b fenceCodec"
  cx_ipsetEncode :: "IPsetCmd \<Rightarrow> string + 'b"
  cx_zn :: "clientRuntime \<Rightarrow> 'b zn"
  cx_replyChan :: "string + string"
  cx_cid :: string
  cx_arrived :: "'b Reply list"
  cx_answer :: "'b event option"
  cx_discovered :: "Node list gomap \<times> Node gomap \<times> Node gomap \<times> string option"
  cx_fmtUnix :: "int \<Rightarrow> string"
  cx_fmtTime :: "gotime option \<Rightarrow> string"
  cx_fmtFloat :: "nat \<Rightarrow> string"
  cx_pretty :: "gv \<Rightarrow> string"

definition cli_Init :: "'b cli \<Rightarrow> invocation \<Rightarrow> (appConfig \<times> clientRuntime) outcome" where
  "cli_Init x iv =
     outcome_bind (initFlagsOf iv) (\<lambda>f.
       client_Init (cx_urls x) (cx_env x) (iv_getenv iv ''RV_CONFIG'') (cx_exists x) (cx_load x) f)"

text \<open>The commands that only group others show their help; some of them fail doing so.\<close>

fun groupRun :: "rvCommand \<Rightarrow> 'b cmdRun outcome option" where
  "groupRun RvRoot = Some (cmdDone [] [HelpText] 1)"
| "groupRun RvPuppet = Some (cmdDone [] [HelpText] 1)"
| "groupRun RvVersion = Some (cmdDone [] [VersionText] 0)"
| "groupRun RvStatus = Some (cmdDone [] [HelpText] 0)"
| "groupRun RvFence = Some (cmdDone [] [HelpText] 0)"
| "groupRun RvIpset = Some (cmdDone [] [HelpText] 0)"
| "groupRun c = None"

subsection \<open>puppet\<close>

datatype runDecision = NeedsTarget | NeedsDelay | GoAhead string duration

definition decideRun :: "runFlags \<Rightarrow> runDecision" where
  "decideRun f =
     (if length (rn_target f) = 0 then NeedsTarget
      else
        (let delay = (if rn_node f = ''all'' \<and> rn_delay f = 0 \<and> length (rn_filter f) > 3 then second else rn_delay f)
         in if rn_node f = ''all'' \<and> delay = 0 then NeedsDelay else GoAhead (rn_target f) delay))"

definition cmd_PuppetRun :: "'b cli \<Rightarrow> invocation \<Rightarrow> 'b cmdRun outcome" where
  "cmd_PuppetRun x iv =
     outcome_bind (cli_Init x iv) (\<lambda>(cfg, rt).
     outcome_bind (runFlagsOf iv) (\<lambda>f.
       case decideRun f of
         NeedsTarget \<Rightarrow> cmdDone [] [LogLine ''need --target parameter''] 1
       | NeedsDelay \<Rightarrow> cmdDone [] [LogLine (''do not run all 'all' without delay, if you REALLY need to run all nodes ''
             @ ''at once set random-delay to '1s' ''), HelpText] 1
       | GoAhead target delay \<Rightarrow>
           cmdDone (client_PuppetRun (cx_codec x) (cx_zn x rt) (cx_replyChan x) target (rn_filter f) delay (rn_noop f))
             ((if length (rn_filter f) > 0 then [LogLine (''filter query: '' @ rn_filter f)] else [])
              @ [LogLine (''sending  puppet run request to '' @ rn_node f)]) 0))"

definition summaryRow :: "'b cli \<Rightarrow> string \<times> LastRunSummary \<Rightarrow> string list" where
  "summaryRow x e =
     (let (node, s) = e
      in [node, cx_fmtUnix x (lt_LastRun (lrs_Timing s)), itoa (lr_Changed (lrs_Resources s)),
          itoa (lr_Total (lrs_Resources s)),
          (case gm_get (lt_Duration (lrs_Timing s)) ''total'' of None \<Rightarrow> ''0'' | Some v \<Rightarrow> cx_fmtFloat x v),
          lv_Puppet (lrs_Version s), lv_Config (lrs_Version s)])"

definition summaryLine :: "string \<times> LastRunSummary \<Rightarrow> string" where
  "summaryLine e =
     (let (node, s) = e
      in node @ '': '' @ lv_Config (lrs_Version s) @ '', changes: '' @ itoa (lr_Changed (lrs_Resources s)) @ ''/''
         @ itoa (lr_Total (lrs_Resources s)))"

text \<open>An output format the expression lets through but no case names prints nothing.\<close>

definition printStatus :: "'b cli \<Rightarrow> string \<Rightarrow> LastRunSummary gomap \<Rightarrow> cmdOutput list" where
  "printStatus x format status =
     (if format = OutStderr then LogLine ''puppet status'' # map (LogLine \<circ> summaryLine) status
      else if format = OutCsv then
        CsvRow [''fqdn'', ''last_run'', ''changed'', ''total'', ''duration'', ''puppet_version'', ''config_version'']
          # map (CsvRow \<circ> summaryRow x) status
      else if format = OutJson then [JsonSummaries status]
      else [])"

text \<open>The requests the two streams send.\<close>

definition statusSent :: "'b cli \<Rightarrow> clientRuntime \<Rightarrow> string \<Rightarrow> (string \<times> 'b event) list" where
  "statusSent x rt flt =
     (case NewSession (cx_replyChan x) of
        Inl er \<Rightarrow> []
      | Inr s \<Rightarrow> fst (PuppetStatusStream (cx_codec x) (cx_zn x rt) s (cx_cid x) flt (cx_arrived x)))"

definition factSent :: "'b cli \<Rightarrow> clientRuntime \<Rightarrow> string \<Rightarrow> string \<Rightarrow> (string \<times> 'b event) list" where
  "factSent x rt name flt =
     (case NewSession (cx_replyChan x) of
        Inl er \<Rightarrow> []
      | Inr s \<Rightarrow> fst (PuppetFactStream (cx_codec x) (cx_zn x rt) s (cx_cid x) name flt (cx_arrived x)))"

definition cmd_PuppetStatus :: "'b cli \<Rightarrow> invocation \<Rightarrow> 'b cmdRun outcome" where
  "cmd_PuppetStatus x iv =
     outcome_bind (cli_Init x iv) (\<lambda>(cfg, rt).
     outcome_bind (stringFlag iv ''filter'') (\<lambda>flt.
     outcome_bind (PuppetStatus (cx_codec x) (cx_zn x rt) (cx_replyChan x) (cx_cid x) [flt] (cx_arrived x)) (\<lambda>status.
     outcome_bind (stringFlag iv ''output-format'') (\<lambda>format.
       cmdDone (statusSent x rt flt) (printStatus x format status) 0))))"

definition printFact :: "'b cli \<Rightarrow> string \<Rightarrow> string \<Rightarrow> gv gomap \<Rightarrow> cmdOutput list \<times> nat" where
  "printFact x format name status =
     (if format = OutStderr then ([LogLine ''puppet status'', PrettyFacts status], 0)
      else if format = OutCsv then
        (CsvRow [''node'', ''fact'', ''value''] # map (\<lambda>(node, v). CsvRow [node, name, cx_pretty x v]) status, 0)
      else if format = OutJson then ([JsonFacts status], 0)
      else ([LogLine (''unsupported output['' @ format @ '']''), PrettyFacts status], 1))"

definition cmd_PuppetFact :: "'b cli \<Rightarrow> invocation \<Rightarrow> 'b cmdRun outcome" where
  "cmd_PuppetFact x iv =
     outcome_bind (cli_Init x iv) (\<lambda>(cfg, rt).
       if length (iv_args iv) < 1 then cmdDone [] [LogLine ''need at least one fact as argument''] 1
       else
         outcome_bind (stringFlag iv ''filter'') (\<lambda>flt.
         outcome_bind (client_PuppetFact (cx_codec x) (cx_zn x rt) (cx_replyChan x) (cx_cid x) (iv_args iv ! 0) [flt]
             (cx_arrived x)) (\<lambda>status.
         outcome_bind (stringFlag iv ''output-format'') (\<lambda>format.
           let (out, code) = printFact x format (iv_args iv ! 0) status
           in cmdDone (factSent x rt (iv_args iv ! 0) flt) out code))))"

subsection \<open>status rodrev\<close>

definition nodeRow :: "'b cli \<Rightarrow> string \<Rightarrow> string \<times> Node \<Rightarrow> string list" where
  "nodeRow x active e =
     (let info = snd e
      in [nd_FQDN info, cx_fmtTime x (nd_LastUpdate info), nd_DaemonVersion info, strJoin (nd_Services info) '','', active])"

text \<open>
  The stale nodes of the human output are logged with Go's own formatting of the node, which is
  left out of the line.
\<close>

definition printDiscovery ::
  "'b cli \<Rightarrow> string \<Rightarrow> Node list gomap \<Rightarrow> Node gomap \<Rightarrow> Node gomap \<Rightarrow> cmdOutput list" where
  "printDiscovery x format services active stale =
     (if format = OutStderr then
        concat (map (\<lambda>(service, nodes). LogLine (''  '' @ service @ '':'')
            # map (\<lambda>node. LogLine (''    '' @ nd_FQDN node @ '':'')) (sort_key nd_FQDN nodes)) services)
        @ map (\<lambda>(name, node). LogLine (''node '' @ name @ '' is stale'')) stale
      else if format = OutCsv then
        CsvRow [''fqdn'', ''last_update'', ''version'', ''service'', ''active'']
          # map (CsvRow \<circ> nodeRow x ''1'') active @ map (CsvRow \<circ> nodeRow x ''0'') stale
      else if format = OutJson then [JsonDiscovery services active stale]
      else [])"

definition cmd_StatusRodrev :: "'b cli \<Rightarrow> invocation \<Rightarrow> 'b cmdRun outcome" where
  "cmd_StatusRodrev x iv =
     outcome_bind (initFlagsOf iv) (\<lambda>f.
     outcome_bind (status_Init (cx_urls x) (cx_env x) (iv_getenv iv ''RV_CONFIG'') (cx_exists x) (cx_load x) f) (\<lambda>(cfg, rt).
     outcome_bind (stringFlag iv ''output-format'') (\<lambda>format.
       let (services, active, stale, err) = cx_discovered x
       in cmdDone [] ([LogLine ''running service discovery'']
            @ (case err of None \<Rightarrow> [] | Some er \<Rightarrow> [LogLine (''error running discovery: '' @ er)])
            @ [LogLine ''services:''] @ printDiscovery x format services active stale) 0)))"

subsection \<open>fence and ipset\<close>

definition cmd_FenceRun :: "'b cli \<Rightarrow> invocation \<Rightarrow> 'b cmdRun outcome" where
  "cmd_FenceRun x iv =
     (if length (iv_args iv) < 1 then cmdDone [] [HelpText] 0
      else
        outcome_bind (cli_Init x iv) (\<lambda>(cfg, rt).
          let node = iv_args iv ! 0;
              (sent, err) = fence_Send (cx_fenceCodec x) (cx_zn x rt) (fc_Group (ac_Fence (rt_Cfg rt))) (cx_replyChan x)
                node (cx_answer x)
          in cmdDone sent (LogLine (''sending fence to '' @ node @ '' from ['' @ rt_FQDN rt @ '']'')
               # (case err of None \<Rightarrow> [] | Some er \<Rightarrow> [LogLine (''fence failed: '' @ er)])) 0))"

definition cmd_FenceStatus :: "'b cli \<Rightarrow> invocation \<Rightarrow> 'b cmdRun outcome" where
  "cmd_FenceStatus x iv =
     (if length (iv_args iv) < 1 then cmdDone [] [HelpText] 0
      else
        outcome_bind (cli_Init x iv) (\<lambda>(cfg, rt).
          let node = iv_args iv ! 0;
              (sent, ok, err) = fence_Status (cx_fenceCodec x) (cx_zn x rt) (fc_Group (ac_Fence (rt_Cfg rt))) (cx_replyChan x)
                node (cx_answer x);
              started = LogLine (''sending status request to '' @ node @ '' from ['' @ rt_FQDN rt @ '']'')
          in case err of
               Some er \<Rightarrow> cmdDone sent [started, LogLine (''status request failed: '' @ er)] 1
             | None \<Rightarrow> cmdDone sent [started] (if ok then 0 else 1)))"

definition ipsetCommand :: "'b cli \<Rightarrow> invocation \<Rightarrow> string \<Rightarrow> (string list \<Rightarrow> string) \<Rightarrow> 'b cmdRun outcome" where
  "ipsetCommand x iv command say =
     (if length (iv_args iv) < 3 then cmdDone [] [HelpText] 0
      else
        outcome_bind (cli_Init x iv) (\<lambda>(cfg, rt).
          let (sent, err) = ipset_Cmd (cx_zn x rt) (cx_ipsetEncode x) (cx_replyChan x) command (iv_args iv ! 0)
                (iv_args iv ! 1) (iv_args iv ! 2)
          in cmdDone sent (LogLine (say (iv_args iv))
               # (case err of None \<Rightarrow> [] | Some er \<Rightarrow> [LogLine (''ipset failed: '' @ er)])) 0))"

definition cmd_IpsetAdd :: "'b cli \<Rightarrow> invocation \<Rightarrow> 'b cmdRun outcome" where
  "cmd_IpsetAdd x iv =
     ipsetCommand x iv IPSET_ADD (\<lambda>args. ''adding ['' @ args ! 2 @ ''] to ipset ['' @ args ! 1 @ '']'')"

definition cmd_IpsetDelete :: "'b cli \<Rightarrow> invocation \<Rightarrow> 'b cmdRun outcome" where
  "cmd_IpsetDelete x iv =
     ipsetCommand x iv IPSET_DEL (\<lambda>args. ''deleting ['' @ args ! 2 @ ''] from ipset ['' @ args ! 1 @ '']'')"

subsection \<open>downtime\<close>

text \<open>An error reading the host flag is only printed, and the empty value then stands for this host.\<close>

definition cmd_Downtime ::
  "'b cli \<Rightarrow> (DowntimeRequest \<Rightarrow> string + 'b) \<Rightarrow> (string \<Rightarrow> duration option) \<Rightarrow> invocation \<Rightarrow> 'b downtimeResult outcome" where
  "cmd_Downtime x marshal parse iv =
     outcome_bind (cli_Init x iv) (\<lambda>(cfg, rt).
       Ret (downtime_command (cx_zn x rt) marshal parse (rt_Certname rt) (hs_Hostname (ce_host (cx_env x)))
              (fst (GetString iv ''host'')) (iv_args iv)))"

section \<open>Lemmas\<close>

lemma lineage_simps [simp]:
  "lineage RvRoot = [RvRoot]"
  "lineage RvPuppet = [RvPuppet, RvRoot]" "lineage RvStatus = [RvStatus, RvRoot]"
  "lineage RvFence = [RvFence, RvRoot]" "lineage RvIpset = [RvIpset, RvRoot]"
  "lineage RvDowntime = [RvDowntime, RvRoot]" "lineage RvVersion = [RvVersion, RvRoot]"
  "lineage RvQuery = [RvQuery, RvRoot]"
  "lineage RvPuppetRun = [RvPuppetRun, RvPuppet, RvRoot]" "lineage RvPuppetStatus = [RvPuppetStatus, RvPuppet, RvRoot]"
  "lineage RvPuppetFact = [RvPuppetFact, RvPuppet, RvRoot]" "lineage RvStatusPuppet = [RvStatusPuppet, RvStatus, RvRoot]"
  "lineage RvStatusRodrev = [RvStatusRodrev, RvStatus, RvRoot]" "lineage RvFenceRun = [RvFenceRun, RvFence, RvRoot]"
  "lineage RvFenceStatus = [RvFenceStatus, RvFence, RvRoot]" "lineage RvIpsetAdd = [RvIpsetAdd, RvIpset, RvRoot]"
  "lineage RvIpsetDelete = [RvIpsetDelete, RvIpset, RvRoot]"
proof -
  have root: "lineage RvRoot = [RvRoot]" by (subst lineage.simps) simp
  have groups: "lineage c = [c, RvRoot]" if "commandParent c = Some RvRoot" for c
    using that root by (subst lineage.simps) simp
  have leaves: "lineage c = [c, p, RvRoot]" if "commandParent c = Some p" "commandParent p = Some RvRoot" for c p
    using that groups by (subst lineage.simps) simp
  show "lineage RvRoot = [RvRoot]"
    "lineage RvPuppet = [RvPuppet, RvRoot]" "lineage RvStatus = [RvStatus, RvRoot]"
    "lineage RvFence = [RvFence, RvRoot]" "lineage RvIpset = [RvIpset, RvRoot]"
    "lineage RvDowntime = [RvDowntime, RvRoot]" "lineage RvVersion = [RvVersion, RvRoot]"
    "lineage RvQuery = [RvQuery, RvRoot]"
    "lineage RvPuppetRun = [RvPuppetRun, RvPuppet, RvRoot]" "lineage RvPuppetStatus = [RvPuppetStatus, RvPuppet, RvRoot]"
    "lineage RvPuppetFact = [RvPuppetFact, RvPuppet, RvRoot]" "lineage RvStatusPuppet = [RvStatusPuppet, RvStatus, RvRoot]"
    "lineage RvStatusRodrev = [RvStatusRodrev, RvStatus, RvRoot]" "lineage RvFenceRun = [RvFenceRun, RvFence, RvRoot]"
    "lineage RvFenceStatus = [RvFenceStatus, RvFence, RvRoot]" "lineage RvIpsetAdd = [RvIpsetAdd, RvIpset, RvRoot]"
    "lineage RvIpsetDelete = [RvIpsetDelete, RvIpset, RvRoot]"
    by (rule root, (rule groups leaves, simp_all)+)
qed

fun sameKind :: "flagVal \<Rightarrow> flagVal \<Rightarrow> bool" where
  "sameKind (BoolV a) (BoolV b) = True"
| "sameKind (StringV a) (StringV b) = True"
| "sameKind (DurationV a) (DurationV b) = True"
| "sameKind (StringsV a) (StringsV b) = True"
| "sameKind a b = False"

text \<open>What the command line parser guarantees: the flags set exist and have their type.\<close>

definition flagDefOf :: "invocation \<Rightarrow> string \<Rightarrow> flagDef option" where
  "flagDefOf iv name = List.find (\<lambda>d. fd_name d = name) (visibleFlags (iv_getenv iv) (iv_command iv))"

definition well_typed :: "invocation \<Rightarrow> bool" where
  "well_typed iv \<longleftrightarrow> (\<forall>name v. gm_get (iv_set iv) name = Some v \<longrightarrow>
     (\<exists>d. flagDefOf iv name = Some d \<and> sameKind v (fd_default d)))"

lemma flagValue_kind:
  assumes "well_typed iv" and "flagDefOf iv name = Some d"
  shows "\<exists>v. flagValue iv name = Some v \<and> sameKind v (fd_default d)"
proof (cases "gm_get (iv_set iv) name")
  case None
  moreover have "sameKind v v" for v by (cases v) simp_all
  ultimately show ?thesis using assms(2) by (simp add: flagValue_def flagDefOf_def)
next
  case (Some v)
  with assms(1) obtain d' where "flagDefOf iv name = Some d'" "sameKind v (fd_default d')"
    unfolding well_typed_def by blast
  with assms(2) Some show ?thesis by (simp add: flagValue_def flagDefOf_def)
qed

lemma flag_readers:
  assumes "well_typed iv" and "flagDefOf iv name = Some d"
  shows "fd_default d = StringV s \<Longrightarrow> \<exists>v. stringFlag iv name = Ret v"
    and "fd_default d = BoolV b \<Longrightarrow> \<exists>v. boolFlag iv name = Ret v"
    and "fd_default d = DurationV t \<Longrightarrow> \<exists>v. durationFlag iv name = Ret v"
proof -
  from flagValue_kind [OF assms] obtain v where v: "flagValue iv name = Some v" "sameKind v (fd_default d)" by blast
  show "fd_default d = StringV s \<Longrightarrow> \<exists>v. stringFlag iv name = Ret v"
    using v by (cases v) (simp_all add: stringFlag_def GetString_def StringOrPanic_def)
  show "fd_default d = BoolV b \<Longrightarrow> \<exists>v. boolFlag iv name = Ret v"
    using v by (cases v) (simp_all add: boolFlag_def GetBool_def BoolOrPanic_def)
  show "fd_default d = DurationV t \<Longrightarrow> \<exists>v. durationFlag iv name = Ret v"
    using v by (cases v) (simp_all add: durationFlag_def GetDuration_def DurationOrPanic_def)
qed

text \<open>The readers whose error the commands look at themselves, or ignore.\<close>

lemma flag_found:
  assumes "well_typed iv" and "flagDefOf iv name = Some d"
  shows "fd_default d = StringV s \<Longrightarrow> \<exists>v. GetString iv name = (v, None)"
    and "fd_default d = StringsV l \<Longrightarrow> \<exists>v. GetStringArray iv name = (v, None)"
proof -
  from flagValue_kind [OF assms] obtain v where v: "flagValue iv name = Some v" "sameKind v (fd_default d)" by blast
  show "fd_default d = StringV s \<Longrightarrow> \<exists>v. GetString iv name = (v, None)"
    using v by (cases v) (simp_all add: GetString_def)
  show "fd_default d = StringsV l \<Longrightarrow> \<exists>v. GetStringArray iv name = (v, None)"
    using v by (cases v) (simp_all add: GetStringArray_def)
qed

text \<open>The flags of the root are visible everywhere, and none is shadowed.\<close>

lemma root_flags:
  "flagDefOf iv ''debug'' = Some (flag ''debug'' ''d'' (BoolV False))"
  "flagDefOf iv ''quiet'' = Some (flag ''quiet'' ''q'' (BoolV False))"
  "flagDefOf iv ''mqtt-url'' = Some (flag ''mqtt-url'' '''' (StringV (cobraDefaultString (iv_getenv iv) ''RF_MQTT_URL'' '''')))"
  "flagDefOf iv ''output-format'' = Some (flag ''output-format'' ''o'' (StringV ''stderr''))"
  "flagDefOf iv ''config'' = Some (flag ''config'' ''c'' (StringV ''''))"
  by (cases "iv_command iv"; simp add: flagDefOf_def visibleFlags_def)+

lemma puppet_flags:
  assumes "RvPuppet \<in> set (lineage (iv_command iv))"
  shows "flagDefOf iv ''node'' = Some (flag ''node'' ''n'' (StringV ''all''))"
    "flagDefOf iv ''target'' = Some (flag ''target'' '''' (StringV ''all''))"
    "flagDefOf iv ''filter'' = Some (flag ''filter'' ''f'' (StringV ''''))"
    "flagDefOf iv ''random-delay'' = Some (flag ''random-delay'' ''t'' (DurationV 0))"
    "flagDefOf iv ''noop'' = Some (flag ''noop'' '''' (BoolV False))"
  using assms by (cases "iv_command iv"; simp add: flagDefOf_def visibleFlags_def)+

lemma query_flags:
  assumes "iv_command iv = RvQuery"
  shows "flagDefOf iv ''facts'' = Some (flag ''facts'' '''' (StringV ''''))"
    "flagDefOf iv ''classes'' = Some (flag ''classes'' '''' (StringV ''''))"
    "flagDefOf iv ''last-run-summary'' = Some (flag ''last-run-summary'' '''' (StringV ''''))"
    "flagDefOf iv ''data-dir'' = Some (flag ''data-dir'' '''' (StringV ''''))"
    "flagDefOf iv ''snapshot'' = Some (flag ''snapshot'' '''' (StringV ''''))"
    "flagDefOf iv ''snapshot-file'' = Some (flag ''snapshot-file'' '''' (StringV ''''))"
    "flagDefOf iv ''history'' = Some (flag ''history'' '''' (StringV (cobraDefaultString (iv_getenv iv) ''RV_QUERY_HISTORY'' '''')))"
  using assms by (simp_all add: flagDefOf_def visibleFlags_def)

lemma query_flags_other:
  assumes "iv_command iv = RvQuery"
  shows "flagDefOf iv ''local'' = Some (flag ''local'' '''' (BoolV False))"
    "flagDefOf iv ''no-history'' = Some (flag ''no-history'' '''' (BoolV False))"
    "flagDefOf iv ''timeout'' = Some (flag ''timeout'' '''' (DurationV (second * 4)))"
    "flagDefOf iv ''node-meta'' = Some (flag ''node-meta'' '''' (StringsV []))"
    "flagDefOf iv ''eval'' = Some (flag ''eval'' ''e'' (StringsV []))"
  using assms by (simp_all add: flagDefOf_def visibleFlags_def)

lemma downtime_flag:
  "iv_command iv = RvDowntime \<Longrightarrow> flagDefOf iv ''host'' = Some (flag ''host'' '''' (StringV ''''))"
  by (simp add: flagDefOf_def visibleFlags_def)

lemma runFlagsOf_Ret:
  assumes "well_typed iv" and "RvPuppet \<in> set (lineage (iv_command iv))"
  shows "\<exists>node target noop delay flt. stringFlag iv ''node'' = Ret node \<and> stringFlag iv ''target'' = Ret target
    \<and> boolFlag iv ''noop'' = Ret noop \<and> durationFlag iv ''random-delay'' = Ret delay \<and> stringFlag iv ''filter'' = Ret flt
    \<and> runFlagsOf iv = Ret \<lparr>rn_node = node, rn_noop = noop, rn_target = (if node = '''' then target else node),
        rn_delay = delay, rn_filter = flt\<rparr>"
proof -
  note d = puppet_flags [OF assms(2)]
  obtain node where 1: "stringFlag iv ''node'' = Ret node"
    using flag_readers(1) [OF assms(1) d(1)] by auto
  obtain target where 2: "stringFlag iv ''target'' = Ret target"
    using flag_readers(1) [OF assms(1) d(2)] by auto
  obtain flt where 3: "stringFlag iv ''filter'' = Ret flt"
    using flag_readers(1) [OF assms(1) d(3)] by auto
  obtain delay where 4: "durationFlag iv ''random-delay'' = Ret delay"
    using flag_readers(3) [OF assms(1) d(4)] by auto
  obtain noop where 5: "boolFlag iv ''noop'' = Ret noop"
    using flag_readers(2) [OF assms(1) d(5)] by auto
  show ?thesis using 1 2 3 4 5 by (auto simp: runFlagsOf_def)
qed

lemma initFlagsOf_Ret:
  assumes "well_typed iv"
  shows "\<exists>f. initFlagsOf iv = Ret f \<and> GetString iv ''config'' = (if_config f, None)"
proof -
  obtain debug where 1: "boolFlag iv ''debug'' = Ret debug"
    using flag_readers(2) [OF assms root_flags(1)] by auto
  obtain quiet where 2: "boolFlag iv ''quiet'' = Ret quiet"
    using flag_readers(2) [OF assms root_flags(2)] by auto
  obtain mqtt where 3: "stringFlag iv ''mqtt-url'' = Ret mqtt"
    using flag_readers(1) [OF assms root_flags(3)] by auto
  obtain out where 4: "stringFlag iv ''output-format'' = Ret out"
    using flag_readers(1) [OF assms root_flags(4)] by auto
  obtain path where 5: "GetString iv ''config'' = (path, None)"
    using flag_found(1) [OF assms root_flags(5)] by auto
  show ?thesis using 1 2 3 4 5 by (simp add: initFlagsOf_def)
qed

lemma queryFlagsOf_Ret:
  assumes "well_typed iv" and "iv_command iv = RvQuery"
  shows "\<exists>f. queryFlagsOf iv = Ret f \<and> GetStringArray iv ''node-meta'' = (qf_nodeMeta f, None)
    \<and> GetStringArray iv ''eval'' = (qf_eval f, None)"
proof -
  note b = query_flags_other [OF assms(2)]
  obtain v1 v2 v3 v4 v5 v6 v7 where s: "stringFlag iv ''facts'' = Ret v1" "stringFlag iv ''classes'' = Ret v2"
      "stringFlag iv ''last-run-summary'' = Ret v3" "stringFlag iv ''data-dir'' = Ret v4" "stringFlag iv ''snapshot'' = Ret v5"
      "stringFlag iv ''snapshot-file'' = Ret v6" "stringFlag iv ''history'' = Ret v7"
    using query_flags [OF assms(2), THEN flag_readers(1) [OF assms(1)]] by auto
  obtain b1 b2 b3 b4 where "boolFlag iv ''local'' = Ret b1" "boolFlag iv ''no-history'' = Ret b2"
      "boolFlag iv ''debug'' = Ret b3" "boolFlag iv ''quiet'' = Ret b4"
    using flag_readers(2) [OF assms(1) b(1), of False] flag_readers(2) [OF assms(1) b(2), of False]
      flag_readers(2) [OF assms(1) root_flags(1), of False] flag_readers(2) [OF assms(1) root_flags(2), of False] by auto
  moreover obtain t1 o1 where "durationFlag iv ''timeout'' = Ret t1" "stringFlag iv ''output-format'' = Ret o1"
    using flag_readers(3) [OF assms(1) b(3)] flag_readers(1) [OF assms(1) root_flags(4)] by auto
  moreover obtain m e where "GetStringArray iv ''node-meta'' = (m, None)" "GetStringArray iv ''eval'' = (e, None)"
    using flag_found(2) [OF assms(1) b(4)] flag_found(2) [OF assms(1) b(5)] by auto
  ultimately show ?thesis using s by (simp add: queryFlagsOf_def)
qed

section \<open>Properties\<close>

text \<open>
  C27: Every command finds the flags it reads, with the type it reads them at, on every command
  line the parser accepts, also where it would swallow the error: the configuration file of all
  commands, the metadata and expressions of the query command, the host of a downtime. There is one
  exception: \<^verbatim>\<open>rv status puppet\<close> reads the filter flag of the puppet commands, which it does not have,
  and never completes.
\<close>

theorem commands_find_their_flags:
  assumes "well_typed iv"
  shows "(\<exists>f. initFlagsOf iv = Ret f \<and> GetString iv ''config'' = (if_config f, None))
    \<and> (\<exists>out. stringFlag iv ''output-format'' = Ret out)
    \<and> (iv_command iv \<in> {RvPuppetRun, RvPuppetStatus, RvPuppetFact} \<longrightarrow>
         (\<exists>f. runFlagsOf iv = Ret f) \<and> (\<exists>flt. stringFlag iv ''filter'' = Ret flt))
    \<and> (iv_command iv = RvQuery \<longrightarrow> (\<exists>f. queryFlagsOf iv = Ret f
         \<and> GetStringArray iv ''node-meta'' = (qf_nodeMeta f, None) \<and> GetStringArray iv ''eval'' = (qf_eval f, None)))
    \<and> (iv_command iv = RvDowntime \<longrightarrow> (\<exists>host. GetString iv ''host'' = (host, None)))
    \<and> (iv_command iv = RvStatusPuppet \<longrightarrow> (\<forall>r. cmd_PuppetStatus x iv \<noteq> Ret r))"
proof (intro conjI impI)
  show "\<exists>f. initFlagsOf iv = Ret f \<and> GetString iv ''config'' = (if_config f, None)" by (rule initFlagsOf_Ret [OF assms])
  show "\<exists>out. stringFlag iv ''output-format'' = Ret out" using flag_readers(1) [OF assms root_flags(4)] by auto
next
  assume "iv_command iv \<in> {RvPuppetRun, RvPuppetStatus, RvPuppetFact}"
  then have l: "RvPuppet \<in> set (lineage (iv_command iv))" by auto
  show "\<exists>f. runFlagsOf iv = Ret f" using runFlagsOf_Ret [OF assms l] by blast
  show "\<exists>flt. stringFlag iv ''filter'' = Ret flt" using flag_readers(1) [OF assms puppet_flags(3) [OF l]] by auto
next
  assume "iv_command iv = RvQuery"
  then show "\<exists>f. queryFlagsOf iv = Ret f \<and> GetStringArray iv ''node-meta'' = (qf_nodeMeta f, None)
      \<and> GetStringArray iv ''eval'' = (qf_eval f, None)" by (rule queryFlagsOf_Ret [OF assms])
next
  assume "iv_command iv = RvDowntime"
  from flag_found(1) [OF assms downtime_flag [OF this]] show "\<exists>host. GetString iv ''host'' = (host, None)" by auto
next
  assume "iv_command iv = RvStatusPuppet"
  then have "flagValue iv ''filter'' = None" by (simp add: flagValue_def visibleFlags_def)
  then have "stringFlag iv ''filter'' = Panic"
    by (simp add: stringFlag_def GetString_def flagError_def StringOrPanic_def)
  then show "\<forall>r. cmd_PuppetStatus x iv \<noteq> Ret r"
    by (cases "cli_Init x iv") (auto simp: cmd_PuppetStatus_def)
qed


text \<open>
  What the fencing commands tell the shell: the status command exits with 0 exactly if it only
  showed its help or the node answered, and the run command always does, whether the node was
  fenced or not.
\<close>

theorem fence_exit_codes:
  assumes "cmd_FenceStatus x iv = Ret r" and "cmd_FenceRun x iv = Ret r'"
  shows "(cr_exit r = 0 \<longleftrightarrow> iv_args iv = [] \<or> cr_sent r \<noteq> [] \<and> cx_answer x \<noteq> None) \<and> cr_exit r' = 0"
proof
  show "cr_exit r = 0 \<longleftrightarrow> iv_args iv = [] \<or> cr_sent r \<noteq> [] \<and> cx_answer x \<noteq> None"
    using assms(1)
    by (cases "cli_Init x iv")
      (auto simp: cmd_FenceStatus_def fence_Status_def cmdDone_def Let_def split: if_splits sum.splits option.splits)
  show "cr_exit r' = 0"
    using assms(2)
    by (cases "cli_Init x iv") (auto simp: cmd_FenceRun_def cmdDone_def Let_def split: if_splits prod.splits)
qed

section \<open>The properties at concrete inputs\<close>

definition anyUrl :: urlLib where
  "anyUrl = \<lparr>ul_Parse = (\<lambda>s. Inr \<lparr>u_Scheme = ''tcp'', u_Path = ''/'', u_RawQuery = '''', u_rest = s\<rparr>),
     ul_String = u_rest, ul_Redacted = u_rest, ul_QueryEscape = (\<lambda>s. s), ul_QueryUnescape = Some\<rparr>"

definition plainClientEnv :: clientEnv where
  "plainClientEnv = \<lparr>ce_transport = (\<lambda>i u. None), ce_build = (\<lambda>n. Inr []), ce_readFile = (\<lambda>p. Inl ''file''),
     ce_pem = (\<lambda>s. []), ce_x509 = (\<lambda>s. Inl ''cert''),
     ce_host = \<lparr>hs_Hostname = ''c1'', hs_command = None, hs_LookupIP = (\<lambda>h. None), hs_LookupAddr = (\<lambda>a. None)\<rparr>,
     ce_random = Some ''xxxx'', ce_now = 0\<rparr>"

definition plainCli :: "plainBody cli" where
  "plainCli = \<lparr>cx_urls = anyUrl, cx_env = plainClientEnv, cx_exists = (\<lambda>p. False), cx_load = (\<lambda>fs. zeroConfig),
     cx_codec = plainCodec,
     cx_fenceCodec = \<lparr>x_decodeCmd = (\<lambda>b. Inl ''no''), x_encodeCmd = (\<lambda>c. Inl ''no''), x_encodeResp = (\<lambda>r. Inl ''no'')\<rparr>,
     cx_ipsetEncode = (\<lambda>c. Inl ''no''), cx_zn = (\<lambda>rt. plainNode ''c1''), cx_replyChan = Inr ''reply'', cx_cid = ''1'',
     cx_arrived = [], cx_answer = Some (plainEvent (BParams NoParams)), cx_discovered = ([], [], [], None), cx_fmtUnix = itoa,
     cx_fmtTime = (\<lambda>t. ''''), cx_fmtFloat = (\<lambda>f. ''''), cx_pretty = (\<lambda>v. '''')\<rparr>"

definition plainCall :: "rvCommand \<Rightarrow> flagVal gomap \<Rightarrow> string list \<Rightarrow> invocation" where
  "plainCall c given args = \<lparr>iv_getenv = (\<lambda>n. ''''), iv_command = c, iv_set = given, iv_args = args\<rparr>"

lemma plain_defaults:
  "initFlagsOf (plainCall c [] args)
     = Ret \<lparr>if_mqttURL = '''', if_config = '''', if_output = ''stderr'', if_debug = False, if_quiet = False\<rparr>"
  by (cases c) (simp_all add: initFlagsOf_def stringFlag_def boolFlag_def GetString_def GetBool_def flagValue_def
      visibleFlags_def plainCall_def StringOrPanic_def BoolOrPanic_def cobraDefaultString_def)

lemma plain_client_Init:
  "\<exists>cfg rt. client_Init anyUrl plainClientEnv '''' (\<lambda>p. False) (\<lambda>fs. zeroConfig)
      \<lparr>if_mqttURL = '''', if_config = '''', if_output = ''stderr'', if_debug = False, if_quiet = False\<rparr> = Ret (cfg, rt)"
proof -
  have "query_Get anyUrl '''' key = ''''" for key
    by (simp add: query_Get_def query_pairs_def query_pair_def map_filter_def strSplit_def)
  then have "\<exists>cfg. readConfig anyUrl '''' (\<lambda>p. False) (\<lambda>fs. zeroConfig)
      \<lparr>if_mqttURL = '''', if_config = '''', if_output = ''stderr'', if_debug = False, if_quiet = False\<rparr> = Ret cfg
      \<and> ac_MQAddress cfg \<noteq> [] \<and> ac_ClientCert cfg = '''' \<and> ac_MQPrefix cfg = ''''"
    unfolding readConfig_def MergeCliConfig_def Let_def by (simp add: zeroConfig_def anyUrl_def addParam_def)
  then obtain cfg where cfg: "readConfig anyUrl '''' (\<lambda>p. False) (\<lambda>fs. zeroConfig)
      \<lparr>if_mqttURL = '''', if_config = '''', if_output = ''stderr'', if_debug = False, if_quiet = False\<rparr> = Ret cfg"
    "ac_MQAddress cfg \<noteq> []" "ac_ClientCert cfg = ''''" by blast
  have "outputModeOK ''stderr''" by (simp add: outputModeOK_def hasSuffix_def hasPrefix_def OutStderr_def)
  with cfg(1) have i: "initConfig anyUrl '''' (\<lambda>p. False) (\<lambda>fs. zeroConfig)
      \<lparr>if_mqttURL = '''', if_config = '''', if_output = ''stderr'', if_debug = False, if_quiet = False\<rparr> = Ret cfg"
    by (simp add: initConfig_def)
  have "\<exists>rt. client_connect anyUrl plainClientEnv False cfg = Ret rt"
    using cfg(2,3)
    by (simp add: client_connect_def client_certname_def NewNode_def TransportURL_def Let_def plainClientEnv_def)
      (simp add: anyUrl_def client_certname_def cfg(3))
  then show ?thesis using i by (auto simp: client_Init_def)
qed

lemma plain_cli_Init: "\<exists>cfg rt. cli_Init plainCli (plainCall c [] args) = Ret (cfg, rt)"
  using plain_client_Init plain_defaults [of c args] by (simp add: cli_Init_def plainCli_def plainCall_def)

lemma plain_well_typed: "well_typed (plainCall c [] args)"
  by (simp add: well_typed_def plainCall_def)

theorem commands_find_their_flags_witness:
  "\<forall>r. cmd_PuppetStatus plainCli (plainCall RvStatusPuppet [] []) \<noteq> Ret r"
  using commands_find_their_flags [OF plain_well_typed, of RvStatusPuppet "[]" plainCli] by (simp add: plainCall_def)

theorem fence_exit_codes_witness:
  "\<exists>r r'. cmd_FenceStatus plainCli (plainCall RvFenceStatus [] [''n1'']) = Ret r \<and> cr_exit r = 0
     \<and> cmd_FenceRun plainCli (plainCall RvFenceStatus [] [''n1'']) = Ret r' \<and> cr_exit r' = 0"
proof -
  let ?iv = "plainCall RvFenceStatus [] [''n1'']"
  obtain cfg rt where i: "cli_Init plainCli ?iv = Ret (cfg, rt)" using plain_cli_Init by blast
  have a: "iv_args ?iv = [''n1'']" by (simp add: plainCall_def)
  obtain r where r: "cmd_FenceStatus plainCli ?iv = Ret r" and s: "cr_sent r \<noteq> []"
    by (simp add: cmd_FenceStatus_def i a fence_Status_def cmdDone_def Let_def)
      (simp add: plainCli_def plainNode_def cmdDone_def)
  obtain sent err where f: "fence_Send (cx_fenceCodec plainCli) (cx_zn plainCli rt) (fc_Group (ac_Fence (rt_Cfg rt)))
      (cx_replyChan plainCli) ''n1'' (cx_answer plainCli) = (sent, err)" by (rule prod.exhaust)
  obtain r' where r': "cmd_FenceRun plainCli ?iv = Ret r'"
    by (simp add: cmd_FenceRun_def i a f cmdDone_def)
  show ?thesis using fence_exit_codes [OF r r'] r r' s by (simp add: plainCli_def)
qed


end
