(* ===== verification/Line_Reader.thy ===== *)
theory Line_Reader
  imports Repl_Session
begin

text \<open>
  The terminal of the query console, \<^verbatim>\<open>query/repl/term.go\<close>: the history file and its permissions, the
  reader around the line editor, and the choice between a terminal and a pipe. The editor is a
  parameter: what it does to the file system between two calls is not restricted.
\<close>

section \<open>Files\<close>

text \<open>
  The permissions of the files there are, and which of them can not be opened for writing or not
  have their permissions changed.
\<close>

record fsys =
  fs_mode :: "string \<Rightarrow> nat option"
  fs_openFails :: "string \<Rightarrow> string option"
  fs_chmodFails :: "string \<Rightarrow> string option"
  fs_umask :: "nat \<Rightarrow> nat"

definition modeOwner :: nat where
  "modeOwner = 384"

text \<open>\<^verbatim>\<open>os.OpenFile\<close> with \<^verbatim>\<open>O_CREATE\<close> gives the permissions, less the umask, only to a file it creates.\<close>

definition openCreate :: "string \<Rightarrow> nat \<Rightarrow> fsys \<Rightarrow> string option \<times> fsys" where
  "openCreate path perm fs =
     (case fs_openFails fs path of
        Some er \<Rightarrow> (Some er, fs)
      | None \<Rightarrow> (None, if fs_mode fs path = None
                      then fs\<lparr>fs_mode := (fs_mode fs)(path := Some (fs_umask fs perm))\<rparr> else fs))"

definition chmodFile :: "string \<Rightarrow> nat \<Rightarrow> fsys \<Rightarrow> string option \<times> fsys" where
  "chmodFile path perm fs =
     (case fs_chmodFails fs path of
        Some er \<Rightarrow> (Some er, fs)
      | None \<Rightarrow> (None, fs\<lparr>fs_mode := (fs_mode fs)(path := Some perm)\<rparr>))"

definition ensurePrivateFile :: "string \<Rightarrow> fsys \<Rightarrow> string option \<times> fsys" where
  "ensurePrivateFile path fs =
     (case openCreate path modeOwner fs of
        (Some er, fs1) \<Rightarrow> (Some er, fs1)
      | (None, fs1) \<Rightarrow> chmodFile path modeOwner fs1)"

definition DefaultHistoryFile :: "string + string \<Rightarrow> string" where
  "DefaultHistoryFile userHomeDir =
     (case userHomeDir of
        Inl er \<Rightarrow> ''''
      | Inr home \<Rightarrow> if length home = 0 then '''' else filepathJoin [home, ''.rv_query_history''])"

section \<open>The line editor\<close>

record readlineConfig =
  rl_Prompt :: string
  rl_HistoryFile :: string
  rl_HistoryLimit :: int
  rl_HistorySearchFold :: bool
  rl_AutoComplete :: "CompletionState \<Rightarrow> string \<Rightarrow> int \<Rightarrow> (string list \<times> int) outcome"
  rl_InterruptPrompt :: string

datatype readlineError = ErrInterrupt | ErrEOF | ErrOther string

text \<open>The completer holds the session: \<open>st\<close> is what the session is like when the key is pressed.\<close>

definition completer_Do :: "CompletionState \<Rightarrow> string \<Rightarrow> int \<Rightarrow> (string list \<times> int) outcome" where
  "completer_Do st line pos = completeRunes st line pos"

text \<open>The editor's operations; \<^verbatim>\<open>'l\<close> is its instance.\<close>

record 'l editor =
  ed_NewEx :: "readlineConfig \<Rightarrow> fsys \<Rightarrow> (string + 'l) \<times> fsys"
  ed_SetPrompt :: "string \<Rightarrow> 'l \<Rightarrow> 'l"
  ed_Readline :: "'l \<Rightarrow> fsys \<Rightarrow> (string \<times> readlineError option) \<times> 'l \<times> fsys"
  ed_Close :: "'l \<Rightarrow> fsys \<Rightarrow> string option \<times> fsys"

definition historyLimit :: int where
  "historyLimit = 1000"

record 'l termReader =
  tr_l :: 'l
  tr_historyFile :: string

text \<open>\<open>prompt\<close> is the session's at the start.\<close>

definition NewTermReader ::
  "'l editor \<Rightarrow> string \<Rightarrow> string \<Rightarrow> fsys \<Rightarrow> (string + 'l termReader) \<times> fsys" where
  "NewTermReader ed prompt historyFile0 fs0 =
     (let (historyFile, fs) =
        (if length historyFile0 > 0 then
           (case ensurePrivateFile historyFile0 fs0 of
              (Some er, fs1) \<Rightarrow> ('''', fs1)
            | (None, fs1) \<Rightarrow> (historyFile0, fs1))
         else (historyFile0, fs0))
      in case ed_NewEx ed
           \<lparr>rl_Prompt = prompt, rl_HistoryFile = historyFile, rl_HistoryLimit = historyLimit,
            rl_HistorySearchFold = True, rl_AutoComplete = completer_Do, rl_InterruptPrompt = ''^C''\<rparr> fs of
           (Inl er, fs2) \<Rightarrow> (Inl er, fs2)
         | (Inr l, fs2) \<Rightarrow> (Inr \<lparr>tr_l = l, tr_historyFile = historyFile\<rparr>, fs2))"

datatype promptError = LineError lineError | ReadError string

text \<open>What the reader makes of the editor's answer.\<close>

fun promptResult :: "string \<times> readlineError option \<Rightarrow> promptError + string" where
  "promptResult (line, None) = Inr line"
| "promptResult (line, Some ErrInterrupt) = Inl (LineError (interruptResult line))"
| "promptResult (line, Some ErrEOF) = Inl (LineError EOF)"
| "promptResult (line, Some (ErrOther er)) = Inl (ReadError er)"

definition termReader_Prompt ::
  "'l editor \<Rightarrow> string \<Rightarrow> 'l termReader \<Rightarrow> fsys \<Rightarrow> (promptError + string) \<times> 'l termReader \<times> fsys" where
  "termReader_Prompt ed prompt t fs =
     (case ed_Readline ed (ed_SetPrompt ed prompt (tr_l t)) fs of
        (r, l, fs1) \<Rightarrow> (promptResult r, t\<lparr>tr_l := l\<rparr>, fs1))"

text \<open>A failure to make the file private again is only logged.\<close>

definition termReader_Close :: "'l editor \<Rightarrow> 'l termReader \<Rightarrow> fsys \<Rightarrow> string option \<times> fsys" where
  "termReader_Close ed t fs =
     (case ed_Close ed (tr_l t) fs of
        (err, fs1) \<Rightarrow>
          (err, if length (tr_historyFile t) > 0 then snd (ensurePrivateFile (tr_historyFile t) fs1) else fs1))"

section \<open>Interrupting a query\<close>

text \<open>
  When the context of a query started at \<open>start\<close> is done, unless the query is finished before. A
  Ctrl-C ends the query and not the program, but only at a terminal; \<open>signals\<close> are the times of the
  interrupts.
\<close>

definition evalContext :: "duration \<Rightarrow> bool \<Rightarrow> gotime \<Rightarrow> gotime list \<Rightarrow> gotime" where
  "evalContext timeout interactive start signals =
     (let deadline = start + timeout
      in if \<not> interactive then deadline else fold min (filter (\<lambda>t. t \<ge> start) signals) deadline)"

section \<open>Terminal or pipe\<close>

text \<open>\<^verbatim>\<open>f.Stat()\<close>: whether the file is a character device, or an error.\<close>

definition isTerminal :: "string + bool \<Rightarrow> bool" where
  "isTerminal st = (case st of Inl er \<Rightarrow> False | Inr charDevice \<Rightarrow> charDevice)"

datatype 'l lineReader = TermReader "'l termReader" | ScriptReader

definition NewLineReader ::
  "'l editor \<Rightarrow> string \<Rightarrow> string \<Rightarrow> string + bool \<Rightarrow> string + bool \<Rightarrow> fsys
     \<Rightarrow> ('l lineReader \<times> bool) \<times> fsys" where
  "NewLineReader ed prompt historyFile stdin stdout fs =
     (if \<not> isTerminal stdin \<or> \<not> isTerminal stdout then ((ScriptReader, False), fs)
      else case NewTermReader ed prompt historyFile fs of
          (Inl er, fs1) \<Rightarrow> ((ScriptReader, False), fs1)
        | (Inr t, fs1) \<Rightarrow> ((TermReader t, True), fs1))"

text \<open>
  The prompts of a session at a terminal: the prompt shown each time, until the end of the input or
  an error; what the session makes of them is \<open>Run_loop\<close>.
\<close>

fun termPrompts :: "'l editor \<Rightarrow> string list \<Rightarrow> 'l termReader \<Rightarrow> fsys \<Rightarrow> prompted list \<times> 'l termReader \<times> fsys" where
  "termPrompts ed [] t fs = ([], t, fs)"
| "termPrompts ed (p # ps) t fs =
     (case termReader_Prompt ed p t fs of
        (Inl (LineError EOF), t1, fs1) \<Rightarrow> ([], t1, fs1)
      | (Inl (LineError lineError.Interrupted), t1, fs1) \<Rightarrow>
          (case termPrompts ed ps t1 fs1 of (rs, t2, fs2) \<Rightarrow> (Interrupted # rs, t2, fs2))
      | (Inl (ReadError er), t1, fs1) \<Rightarrow> ([PromptError er], t1, fs1)
      | (Inr line, t1, fs1) \<Rightarrow>
          (case termPrompts ed ps t1 fs1 of (rs, t2, fs2) \<Rightarrow> (Line line # rs, t2, fs2)))"

section \<open>Lemmas\<close>

text \<open>Every element of a cleaned path with an absolute start is a plain name.\<close>

lemma cleanStep_rooted:
  "\<forall>c \<in> set names. c \<noteq> '''' \<and> c \<noteq> ''.'' \<and> c \<noteq> ''..''
     \<Longrightarrow> \<forall>c \<in> set (cleanStep True names x). c \<noteq> '''' \<and> c \<noteq> ''.'' \<and> c \<noteq> ''..''"
  by (auto simp: cleanStep_def dest: in_set_butlastD)

lemma clean_rooted:
  "\<forall>c \<in> set names. c \<noteq> '''' \<and> c \<noteq> ''.'' \<and> c \<noteq> ''..''
     \<Longrightarrow> \<forall>c \<in> set (foldl (cleanStep True) names xs). c \<noteq> '''' \<and> c \<noteq> ''.'' \<and> c \<noteq> ''..''"
proof (induction xs arbitrary: names)
  case (Cons x xs)
  show ?case using Cons.IH [OF cleanStep_rooted [OF Cons.prems]] by simp
qed simp

lemma DefaultHistoryFile_root:
  "DefaultHistoryFile (Inr ''/root'') = ''/root/.rv_query_history''"
  by (simp add: DefaultHistoryFile_def filepathJoin_def filepathClean_def cleanStep_def strSplit_def hasPrefix_def Let_def)


lemma ensurePrivateFile_mode:
  "ensurePrivateFile p fs = (None, fs') \<Longrightarrow> fs_mode fs' p = Some modeOwner"
  by (auto simp: ensurePrivateFile_def openCreate_def chmodFile_def split: option.splits if_splits prod.splits)

text \<open>When both calls work, nothing but this file's permissions changes.\<close>

lemma ensurePrivateFile_ok:
  assumes "fs_openFails fs p = None" "fs_chmodFails fs p = None"
  shows "\<exists>fs'. ensurePrivateFile p fs = (None, fs') \<and> fs_mode fs' = (fs_mode fs)(p \<mapsto> modeOwner)"
  using assms by (auto simp: ensurePrivateFile_def openCreate_def chmodFile_def fun_eq_iff)

lemma ensurePrivateFile_others:
  "q \<noteq> p \<Longrightarrow> fs_mode (snd (ensurePrivateFile p fs)) q = fs_mode fs q"
  by (auto simp: ensurePrivateFile_def openCreate_def chmodFile_def split: option.splits if_splits prod.splits)

lemma termReader_Prompt_file [simp]:
  "termReader_Prompt ed p t fs = (r, t', fs') \<Longrightarrow> tr_historyFile t' = tr_historyFile t"
  by (auto simp: termReader_Prompt_def split: prod.splits)

text \<open>What every prompt keeps, a row of prompts keeps.\<close>

lemma termPrompts_keeps:
  assumes step: "\<And>p t fs r t' fs'. termReader_Prompt ed p t fs = (r, t', fs') \<Longrightarrow> P t fs \<Longrightarrow> P t' fs'"
  shows "termPrompts ed ps t fs = (rs, t', fs') \<Longrightarrow> P t fs \<Longrightarrow> P t' fs'"
proof (induction ps arbitrary: t fs rs)
  case (Cons p ps)
  obtain r t1 fs1 where R: "termReader_Prompt ed p t fs = (r, t1, fs1)" by (metis prod_cases3)
  have P1: "P t1 fs1" using step [OF R Cons.prems(2)] .
  obtain rs2 t2 fs2 where R2: "termPrompts ed ps t1 fs1 = (rs2, t2, fs2)" by (metis prod_cases3)
  have "(t', fs') = (t1, fs1) \<or> (t', fs') = (t2, fs2)"
    using Cons.prems(1) by (auto simp: R R2 split: sum.splits promptError.splits lineError.splits)
  then show ?case using P1 Cons.IH [OF _ P1] R2 by auto
qed simp

lemma termPrompts_file:
  "termPrompts ed ps t fs = (rs, t', fs') \<Longrightarrow> tr_historyFile t' = tr_historyFile t"
  using termPrompts_keeps [where P = "\<lambda>u fs. tr_historyFile u = tr_historyFile t"] by force

text \<open>
  The editor only ever gets a history file that is the owner's alone; without one it keeps no
  history.
\<close>

lemma NewTermReader_file:
  assumes "NewTermReader ed prompt h fs = (Inr t, fs')"
  shows "tr_historyFile t = '''' \<or> (tr_historyFile t = h \<and> fs_mode (snd (ensurePrivateFile h fs)) h = Some modeOwner)"
  using assms ensurePrivateFile_mode [of h fs]
  by (auto simp: NewTermReader_def Let_def split: prod.splits option.splits sum.splits if_splits)

lemma ensurePrivateFile_flags [simp]:
  "fs_openFails (snd (ensurePrivateFile p fs)) = fs_openFails fs"
  "fs_chmodFails (snd (ensurePrivateFile p fs)) = fs_chmodFails fs"
  by (auto simp: ensurePrivateFile_def openCreate_def chmodFile_def split: option.splits)

lemma termReader_Close_private:
  assumes "fs_openFails (snd (ed_Close ed (tr_l t) fs)) (tr_historyFile t) = None"
    "fs_chmodFails (snd (ed_Close ed (tr_l t) fs)) (tr_historyFile t) = None" "tr_historyFile t \<noteq> ''''"
  shows "fs_mode (snd (termReader_Close ed t fs)) (tr_historyFile t) = Some modeOwner"
proof -
  obtain err fs1 where c: "ed_Close ed (tr_l t) fs = (err, fs1)" by (cases "ed_Close ed (tr_l t) fs") auto
  obtain fs2 where "ensurePrivateFile (tr_historyFile t) fs1 = (None, fs2)"
    "fs_mode fs2 = (fs_mode fs1)(tr_historyFile t \<mapsto> modeOwner)"
    using ensurePrivateFile_ok [of fs1 "tr_historyFile t"] assms(1, 2) by (auto simp: c)
  then show ?thesis using assms(3) by (simp add: termReader_Close_def c)
qed

text \<open>Editors that leave alone who may open and change which file.\<close>

definition keepsFlags :: "'l editor \<Rightarrow> bool" where
  "keepsFlags ed \<longleftrightarrow>
     (\<forall>c fs. fs_openFails (snd (ed_NewEx ed c fs)) = fs_openFails fs \<and> fs_chmodFails (snd (ed_NewEx ed c fs)) = fs_chmodFails fs)
   \<and> (\<forall>l fs. fs_openFails (snd (snd (ed_Readline ed l fs))) = fs_openFails fs
        \<and> fs_chmodFails (snd (snd (ed_Readline ed l fs))) = fs_chmodFails fs)
   \<and> (\<forall>l fs. fs_openFails (snd (ed_Close ed l fs)) = fs_openFails fs \<and> fs_chmodFails (snd (ed_Close ed l fs)) = fs_chmodFails fs)"

lemma termReader_Prompt_flags:
  "\<lbrakk>keepsFlags ed; termReader_Prompt ed p t fs = (r, t', fs')\<rbrakk>
     \<Longrightarrow> fs_openFails fs' = fs_openFails fs \<and> fs_chmodFails fs' = fs_chmodFails fs"
  unfolding keepsFlags_def termReader_Prompt_def by (auto split: prod.splits) (metis snd_conv)+

lemma termPrompts_flags:
  assumes "keepsFlags ed" "termPrompts ed ps t fs = (rs, t', fs')"
  shows "fs_openFails fs' = fs_openFails fs \<and> fs_chmodFails fs' = fs_chmodFails fs"
  by (rule termPrompts_keeps [where P = "\<lambda>u g. fs_openFails g = fs_openFails fs \<and> fs_chmodFails g = fs_chmodFails fs",
        OF _ assms(2)])
    (use termReader_Prompt_flags [OF assms(1)] in auto)

text \<open>
  A whole session at the terminal: open, any number of prompts, close. Whatever the editor did to the
  history file's permissions on the way, afterwards it is the owner's alone.
\<close>

lemma history_private_after_session:
  assumes ed: "keepsFlags ed"
    and ok: "fs_openFails fs h = None" "fs_chmodFails fs h = None" and h: "h \<noteq> ''''"
    and new: "NewTermReader ed prompt h fs = (Inr t, fs1)"
    and run: "termPrompts ed ps t fs1 = (rs, t2, fs2)"
  shows "fs_mode (snd (termReader_Close ed t2 fs2)) h = Some modeOwner"
proof -
  obtain fs0 where e: "ensurePrivateFile h fs = (None, fs0)"
    using ensurePrivateFile_ok [OF ok] by blast
  have flags0: "fs_openFails fs0 = fs_openFails fs" "fs_chmodFails fs0 = fs_chmodFails fs"
    using ensurePrivateFile_flags [of h fs] by (simp_all add: e)
  have t: "tr_historyFile t = h"
    using new by (auto simp: NewTermReader_def Let_def h e split: sum.splits prod.splits)
  have flags1: "fs_openFails fs1 = fs_openFails fs" "fs_chmodFails fs1 = fs_chmodFails fs"
    using new ed flags0
    by (auto simp: NewTermReader_def Let_def h e keepsFlags_def split: sum.splits prod.splits) (metis snd_conv)+
  have t2: "tr_historyFile t2 = h" using termPrompts_file [OF run] t by simp
  show ?thesis
    using termReader_Close_private [of ed t2 fs2] termPrompts_flags [OF ed run] flags1 ok h t2 ed
    unfolding keepsFlags_def by simp
qed

text \<open>Ctrl-C on a blank line ends the session, on anything else it does not.\<close>

lemma interrupt_ends_session_iff_blank:
  assumes "ed_Readline ed (ed_SetPrompt ed p (tr_l t)) fs = ((line, Some ErrInterrupt), l, fs1)"
  shows "fst (termPrompts ed (p # ps) t fs) =
    (if trimSpace line = '''' then [] else Interrupted # fst (termPrompts ed ps (t\<lparr>tr_l := l\<rparr>) fs1))"
  using assms by (simp add: termReader_Prompt_def interruptResult_def split: prod.splits)

text \<open>A pipe on either side means no editor, and nothing is opened.\<close>

lemma pipe_opens_nothing:
  "\<not> (isTerminal stdin \<and> isTerminal stdout)
     \<Longrightarrow> NewLineReader ed prompt h stdin stdout fs = ((ScriptReader, False), fs)"
  by (auto simp: NewLineReader_def)

lemma interactive_iff_editor:
  "NewLineReader ed prompt h stdin stdout fs = ((r, i), fs') \<Longrightarrow> i \<longleftrightarrow> (\<exists>t. r = TermReader t)"
  by (auto simp: NewLineReader_def split: if_splits prod.splits sum.splits)

text \<open>A query never outlives its timeout, and no interrupt ends it before it started.\<close>

lemma fold_min_bounds:
  "fold min ts (d :: int) \<le> d \<and> (\<forall>t \<in> set ts. fold min ts d \<le> t)
     \<and> (fold min ts d = d \<or> fold min ts d \<in> set ts)"
proof (induction ts arbitrary: d)
  case (Cons t ts)
  show ?case using Cons [of "min t d"] by (auto simp: min_def split: if_splits)
qed simp

lemma evalContext_bounds:
  assumes "0 \<le> timeout"
  shows "start \<le> evalContext timeout interactive start signals"
    "evalContext timeout interactive start signals \<le> start + timeout"
    "\<lbrakk>interactive; t \<in> set signals; start \<le> t\<rbrakk> \<Longrightarrow> evalContext timeout interactive start signals \<le> t"
  using assms fold_min_bounds [of "filter (\<lambda>t. t \<ge> start) signals" "start + timeout"]
  by (auto simp: evalContext_def Let_def)

end
