(* ===== verification/Web.thy ===== *)
theory Web
  imports Go_Prelude
begin

text \<open>
  The daemon's status page, \<^verbatim>\<open>web/router.go\<close>: which routes it registers, where a static file is looked
  up, and which socket it listens on. The gin router and the file server are libraries; a route is
  the data registered with them.
\<close>

section \<open>Routes\<close>

datatype webPage = Health | Metrics | Static | Index

record webRoute =
  rt_Method :: string
  rt_Path :: string
  rt_page :: webPage

record 'l WebConfig =
  wc_Logger :: "'l option"
  wc_AccessLogger :: "'l option"

record 'l WebBackend =
  wb_l :: 'l
  wb_al :: 'l
  wb_cfg :: "'l WebConfig"
  wb_skipPaths :: "string list"
  wb_routes :: "webRoute list"

text \<open>
  \<open>templates\<close> is the outcome of parsing the embedded templates. The access log leaves out the two
  paths that monitoring polls.
\<close>

definition web_New :: "'l WebConfig \<Rightarrow> string option \<Rightarrow> (string + 'l WebBackend) outcome" where
  "web_New cfg templates =
     (case wc_Logger cfg of
        None \<Rightarrow> Panic
      | Some l \<Rightarrow>
          Ret (case templates of
             Some er \<Rightarrow> Inl (''error loading templates: '' @ er)
           | None \<Rightarrow> Inr
               \<lparr>wb_l = l, wb_al = (case wc_AccessLogger cfg of None \<Rightarrow> l | Some al \<Rightarrow> al), wb_cfg = cfg,
                wb_skipPaths = [''/_status/health'', ''/_status/metrics''],
                wb_routes =
                  [\<lparr>rt_Method = ''GET'', rt_Path = ''/_status/health'', rt_page = Health\<rparr>,
                   \<lparr>rt_Method = ''HEAD'', rt_Path = ''/_status/health'', rt_page = Health\<rparr>,
                   \<lparr>rt_Method = ''GET'', rt_Path = ''/_status/metrics'', rt_page = Metrics\<rparr>,
                   \<lparr>rt_Method = ''GET'', rt_Path = ''/s/*filepath'', rt_page = Static\<rparr>,
                   \<lparr>rt_Method = ''GET'', rt_Path = ''/'', rt_page = Index\<rparr>]\<rparr>))"

text \<open>\<^verbatim>\<open>strings.Replace\<close> with no limit, for a pattern that is not empty: every occurrence from the left.\<close>

function replaceAll :: "string \<Rightarrow> string \<Rightarrow> string \<Rightarrow> string" where
  "replaceAll [] old new = []"
| "replaceAll (c # s) old new =
     (if old \<noteq> [] \<and> hasPrefix (c # s) old then new @ replaceAll (drop (length old) (c # s)) old new
      else c # replaceAll s old new)"
  by pat_completeness auto
termination
  by (relation "measure (\<lambda>(s, _, _). length s)") auto

text \<open>The path the file server is asked for.\<close>

definition staticPath :: "string \<Rightarrow> string" where
  "staticPath path = replaceAll path ''/s/'' ''/static/''"

section \<open>The socket\<close>

text \<open>What the system says of \<^verbatim>\<open>/run/rodrev\<close>: missing, a directory, or something else.\<close>

datatype statResult = StatError | IsDir | NotDir

datatype webStep =
    WRemove string
  | WMkdir string nat
  | WChown string int int
  | WChmod string nat

text \<open>
  The calls made, and then the error or the socket to listen on. Only a failed \<^verbatim>\<open>Mkdir\<close> stops it;
  the other calls' errors are not looked at.
\<close>

definition web_Run :: "int \<Rightarrow> statResult \<Rightarrow> string option \<Rightarrow> webStep list \<times> (string + string)" where
  "web_Run uid st mkdir =
     (if uid \<noteq> 0 then ([WRemove ''./rvd.sock''], Inr ''./rvd.sock'')
      else let listen = (WRemove ''/run/rodrev/rvd.sock'', ''/run/rodrev/rvd.sock'')
        in case st of
          StatError \<Rightarrow>
            (case mkdir of
               Some er \<Rightarrow> ([WMkdir ''/run/rodrev'' 504], Inl er)
             | None \<Rightarrow> ([WMkdir ''/run/rodrev'' 504, fst listen], Inr (snd listen)))
        | NotDir \<Rightarrow> ([], Inl ''/run/rodrev is not a directory'')
        | IsDir \<Rightarrow> ([WChown ''/run/rodrev'' 0 0, WChmod ''/run/rodrev'' 504, fst listen], Inr (snd listen)))"

section \<open>Lemmas\<close>

text \<open>
  A file of the static directory is found under its own path, as long as the path does not have a
  directory called \<^verbatim>\<open>s\<close> of its own, which is rewritten too.
\<close>

lemma replaceAll_none:
  "\<not> strContains s old \<Longrightarrow> replaceAll s old new = s"
proof (induction s old new rule: replaceAll.induct)
  case (2 c s old new)
  then show ?case by (auto simp: strContains_def split: if_splits option.splits)
qed simp

lemma staticPath_file:
  assumes "\<not> strContains f ''/s/''"
  shows "staticPath (''/s/'' @ f) = ''/static/'' @ f"
  using replaceAll_none [OF assms] by (simp add: staticPath_def hasPrefix_def)

lemma staticPath_rewrites_inner_s:
  "staticPath ''/s/css/s/a.css'' = ''/static/css/static/a.css''"
  by (simp add: staticPath_def hasPrefix_def)

text \<open>A stale socket is always removed before the daemon listens on it.\<close>

lemma web_Run_removes_stale_socket:
  "web_Run uid st mkdir = (cs, Inr sock) \<Longrightarrow> cs \<noteq> [] \<and> last cs = WRemove sock"
  by (auto simp: web_Run_def Let_def split: if_splits statResult.splits option.splits)

lemma web_Run_root_directory:
  "web_Run 0 st mkdir = (cs, Inr sock) \<Longrightarrow> WMkdir ''/run/rodrev'' 504 \<in> set cs \<or> WChmod ''/run/rodrev'' 504 \<in> set cs"
  by (auto simp: web_Run_def Let_def split: statResult.splits option.splits)

lemma web_New_panics_iff: "web_New cfg t = Panic \<longleftrightarrow> wc_Logger cfg = None"
  by (simp add: web_New_def split: option.splits)

text \<open>What the access log leaves out are pages that are served.\<close>

lemma skipped_paths_are_routes:
  "web_New cfg t = Ret (Inr w) \<Longrightarrow> set (wb_skipPaths w) \<subseteq> rt_Path ` set (wb_routes w)"
  by (auto simp: web_New_def split: option.splits)

end
