(* ===== verification/Logging.thy ===== *)
theory Logging
  imports Setup
begin

text \<open>
  The loggers of the two programs and their \<^verbatim>\<open>main\<close> functions: \<^verbatim>\<open>cmd/rvd/rvd.go\<close>, \<^verbatim>\<open>cmd/rv/rv.go\<close> and
  \<^verbatim>\<open>cmd/rv/clinit/init.go\<close>. A logger is the list of its outputs, each with the messages it takes, and
  its options; how zap encodes a message is the library's.
\<close>

section \<open>Loggers\<close>

datatype severity = Debug | Info | Warn | Error | DPanic | PanicLevel | Fatal

fun severityRank :: "severity \<Rightarrow> int" where
  "severityRank Debug = -1"
| "severityRank Info = 0"
| "severityRank Warn = 1"
| "severityRank Error = 2"
| "severityRank DPanic = 3"
| "severityRank PanicLevel = 4"
| "severityRank Fatal = 5"

record logger =
  lg_cores :: "(severity \<Rightarrow> bool) list"
  lg_timestamps :: bool
  lg_development :: bool
  lg_addCaller :: bool
  lg_stacktrace :: "severity \<Rightarrow> bool"

definition atLeast :: "severity \<Rightarrow> severity \<Rightarrow> bool" where
  "atLeast bound lvl = (severityRank lvl \<ge> severityRank bound)"

text \<open>The daemon drops the times when systemd, which adds its own, runs it.\<close>

definition setupLogger :: "bool \<Rightarrow> string \<Rightarrow> string \<Rightarrow> logger" where
  "setupLogger debug invocationID journalStream =
     (let highPriority = atLeast Error;
          lowPriority = (\<lambda>lvl. \<not> atLeast Error lvl);
          infoPriority = atLeast Info;
          core = (if debug then [lowPriority, highPriority] else [infoPriority])
      in \<lparr>lg_cores = core, lg_timestamps = \<not> (invocationID \<noteq> '''' \<or> journalStream \<noteq> ''''),
          lg_development = debug, lg_addCaller = True,
          lg_stacktrace = (if debug then highPriority else (\<lambda>_. False))\<rparr>)"

definition rv_InitLog :: "bool \<Rightarrow> bool \<Rightarrow> logger" where
  "rv_InitLog debug quiet =
     (let filterAll = (\<lambda>_. True);
          filterHighPriority = atLeast Error;
          filterQuiet = atLeast Warn;
          filterInfo = atLeast Info
      in if debug then
           \<lparr>lg_cores = [filterAll], lg_timestamps = False, lg_development = True, lg_addCaller = True,
            lg_stacktrace = filterHighPriority\<rparr>
         else if quiet then
           \<lparr>lg_cores = [filterQuiet], lg_timestamps = False, lg_development = False, lg_addCaller = True,
            lg_stacktrace = \<lambda>_. False\<rparr>
         else
           \<lparr>lg_cores = [filterInfo], lg_timestamps = False, lg_development = False, lg_addCaller = True,
            lg_stacktrace = \<lambda>_. False\<rparr>)"

text \<open>How often a message of some severity is written.\<close>

definition timesWritten :: "logger \<Rightarrow> severity \<Rightarrow> nat" where
  "timesWritten lg lvl = length (filter (\<lambda>core. core lvl) (lg_cores lg))"

section \<open>The client's exit\<close>

text \<open>
  \<open>execute\<close> is the error of parsing the command line, \<open>debug\<close> the program's debug flag. The exit code
  comes with whether the error was logged; commands that fail leave by \<^verbatim>\<open>os.Exit\<close> or a panic of their
  own, so coming back without an error is a success.
\<close>

definition rv_main :: "bool \<Rightarrow> string option \<Rightarrow> string option \<times> int" where
  "rv_main debug execute =
     (case execute of
        None \<Rightarrow> (None, 0)
      | Some er \<Rightarrow> (if debug then Some (''error parsing commands: '' @ er) else None, 1))"

section \<open>Lemmas\<close>

text \<open>Nothing is written twice, although the daemon's debug logger has two outputs.\<close>

lemma daemon_logs_once:
  "timesWritten (setupLogger debug invocation journal) lvl = (if debug \<or> lvl \<noteq> Debug then 1 else 0)"
  by (cases lvl) (simp_all add: timesWritten_def setupLogger_def atLeast_def Let_def)

fun severityOf :: "level \<Rightarrow> severity" where
  "severityOf DebugLevel = Debug"
| "severityOf InfoLevel = Info"
| "severityOf WarnLevel = Warn"
| "severityOf ErrorLevel = Error"

text \<open>The two copies of the client's logger write the same messages, each of them once.\<close>

lemma client_logs_once:
  "timesWritten (rv_InitLog debug quiet) (severityOf lvl) = (if logEnabled debug quiet lvl then 1 else 0)"
  by (cases lvl) (simp_all add: timesWritten_def rv_InitLog_def logEnabled_def atLeast_def Let_def)

text \<open>Errors are written whatever the flags say.\<close>

lemma errors_are_always_logged:
  "atLeast Error lvl \<Longrightarrow>
     timesWritten (setupLogger debug invocation journal) lvl = 1 \<and> timesWritten (rv_InitLog debug' quiet) lvl = 1"
  by (cases lvl) (simp_all add: timesWritten_def setupLogger_def rv_InitLog_def atLeast_def Let_def)

lemma rv_main_fails_iff: "snd (rv_main debug execute) \<noteq> 0 \<longleftrightarrow> execute \<noteq> None"
  by (simp add: rv_main_def split: option.splits)

end
