(* ===== verification/Spec2Isabelle.thy ===== *)
theory Spec2Isabelle
  imports Rpc_Session Puppet_Server Heartbeat_Cleanup Fence Downtime Ipset Repl_Results Network Hvminfo Setup
    Listener Presence Commands Line_Reader Web Logging
begin

text \<open>
  A model of rodrev in Isabelle/HOL: a daemon on every node (\<^verbatim>\<open>rvd\<close>) answers commands sent to it
  over an MQTT broker, and a client (\<^verbatim>\<open>rv\<close>) sends them. Paths are relative to the repository's
  root; functions keep their Go names, with a prefix where a name is used twice.

  \<^bold>\<open>How the program works.\<close> The daemon announces itself on a retained presence topic and listens on
  \<^verbatim>\<open>puppet/#\<close>, \<^verbatim>\<open>fence/<fqdn>\<close>, one topic per ipset, and \<^verbatim>\<open>downtime/#\<close> if it serves the monitoring API.
  A client finds daemons by their presence, opens one reply channel and tells the answers to its
  requests apart by an identifier in the reply topic. A puppet command may carry a filter, an
  S-expression that the daemon evaluates over the node's facts, classes and metadata; nodes it
  does not match say so or stay quiet. The query console evaluates the same language on the
  cluster or offline, on files or on a snapshot of a node.

  \<^bold>\<open>Which theory models what.\<close>
  \<^item> \<open>Go_Prelude\<close>: what Go gives the program: outcomes (value, error, panic), maps as association
    lists, strings as byte lists, decimal conversion, 64-bit wrap-around, time, line scanning.
  \<^item> \<open>Query_Engine\<close>: \<^verbatim>\<open>query/query.go\<close>, \<^verbatim>\<open>query/functions.go\<close>: sandbox, registration, \<open>HashGet\<close>, results
    and their truth values. The zygomys interpreter is a parameter.
  \<^item> \<open>Puppet_Data\<close>: \<^verbatim>\<open>plugin/puppet/\<close> \<^verbatim>\<open>facts.go\<close>, \<^verbatim>\<open>classes.go\<close>, \<^verbatim>\<open>lastrun-schema.go\<close>, \<^verbatim>\<open>snapshot.go\<close>,
    \<^verbatim>\<open>query-harness.go\<close>: loading, reloading, snapshots and the offline harness. Its locale
    \<open>reloadable\<close> is the contract of everything reloaded once a minute.
  \<^item> \<open>Wire\<close>: \<^verbatim>\<open>common/runtime.go\<close>, \<^verbatim>\<open>common/rpc.go\<close>, \<^verbatim>\<open>plugin/puppet/puppet.go\<close>: events, message types, codec,
    replies, topics and call identifiers.
  \<^item> \<open>Rpc_Session\<close>: \<^verbatim>\<open>client/session.go\<close>: the state of a client session as a step relation.
  \<^item> \<open>Puppet_Server\<close>: \<^verbatim>\<open>plugin/puppet/server.go\<close>, \<^verbatim>\<open>run.go\<close>, \<^verbatim>\<open>puppet.go\<close>: the event handler with every command,
    and puppet runs as nondeterministic moves of a runner under a lock. A request reports its status
    at once in \<open>puppet_Run\<close>; \<open>Run_reports\<close> is what it may report when other goroutines come between.
  \<^item> \<open>Client_Query\<close>: \<^verbatim>\<open>client/query.go\<close>, \<^verbatim>\<open>client/puppet.go\<close>: collecting answers. Its locale \<open>node_tally\<close> is
    what both collectors owe: every node once, by its first answer.
  \<^item> \<open>Discovery\<close>: \<^verbatim>\<open>client/discovery.go\<close>, \<^verbatim>\<open>client/watch.go\<close>, \<^verbatim>\<open>common/node.go\<close>; \<open>Heartbeat_Cleanup\<close>:
    \<^verbatim>\<open>daemon/heartbeat-cleanup.go\<close>. Both follow retained messages, the locale \<open>retained_view\<close>.
  \<^item> \<open>Fence\<close>: \<^verbatim>\<open>plugin/fence/\<close>, \<^verbatim>\<open>sysrq/\<close>; \<open>Ipset\<close>: \<^verbatim>\<open>plugin/ipset/\<close>; \<open>Downtime\<close>: \<^verbatim>\<open>downtime/\<close> and its client
    command; \<open>Hvminfo\<close>: \<^verbatim>\<open>hvminfo/\<close>.
  \<^item> \<open>Repl_Complete\<close>, \<open>Repl_Backend\<close>, \<open>Repl_Session\<close>, \<open>Repl_Results\<close>, \<open>Line_Reader\<close>: \<^verbatim>\<open>query/repl/\<close> and
    \<^verbatim>\<open>cmd/rv/commands/query/\<close>: completion, the two backends (locale \<open>evaluator\<close>), the session with its
    meta commands and output formats, exit codes, and the terminal.
  \<^item> \<open>Fleet\<close>: client and daemons together, over the replies a fleet of \<open>Puppet_Server\<close> states gives.
  \<^item> \<open>Network\<close>: the running system, with any number of client sessions, clients that trigger runs and
    daemons on one broker, as a step relation over the operations of the components.
  \<^item> \<open>Setup\<close>: \<^verbatim>\<open>config/config.go\<close>, \<^verbatim>\<open>common/mq.go\<close>, \<^verbatim>\<open>common/util.go\<close>, \<^verbatim>\<open>util/\<close>, \<^verbatim>\<open>cmd/rv/clinit/\<close>: configuration,
    addresses, certificates, host names and the start of the client.
  \<^item> \<open>Listener\<close>, \<open>Daemon\<close>: \<^verbatim>\<open>daemon/daemon.go\<close>, \<^verbatim>\<open>cmd/rvd/\<close>: the reconnecting listeners (locales
    \<open>event_listener\<close> and \<open>robust_listener\<close>, interpreted on the three plugins) and the start and end
    of the daemon's process.
  \<^item> \<open>Presence\<close>: daemons that announce themselves, their cleanups and watching clients on one broker,
    with time: a step relation whose clock waits for heartbeats and messages that are due.
  \<^item> \<open>Commands\<close>: \<^verbatim>\<open>cmd/rv/cobra.go\<close> and the other commands of \<^verbatim>\<open>cmd/rv/\<close>: the command tree with its flags,
    what each command reads, sends, prints and exits with.
  \<^item> \<open>Web\<close>: \<^verbatim>\<open>web/router.go\<close>; \<open>Logging\<close>: the loggers and the exits of the two programs, \<^verbatim>\<open>cmd/rvd/rvd.go\<close> and
    \<^verbatim>\<open>cmd/rv/rv.go\<close>.

  \<^bold>\<open>State and steps.\<close> A Go struct is a record and a method a function from the old to the new
  state; a handler returns the events it sends along with the state. Where goroutines interleave
  (client sessions, puppet runs) an \<open>inductive\<close> step relation allows every order. \<open>net_step\<close> puts them
  on one broker that may lose, delay, reorder and repeat messages but makes none up; daemons may
  restart at any moment. \<open>presence_step\<close> has a clock: daemons announce themselves in time, and what is
  published arrives within a given delay. Elsewhere what arrives from outside is an argument: a
  list of replies, of retained messages with their times, of subscriptions, or a function from
  round numbers. Go's map order is the order of the list, and theorems hold for every list.

  \<^bold>\<open>What the lemmas show.\<close> Invariants by rule induction over the steps (\<open>session_inv\<close>, \<open>run_inv\<close>;
  \<open>net_inv\<close> for the whole system: replies, verdicts and puppet agents all go back to a request;
  \<open>lives\<close> for presence: what is on the way about a living daemon is never too old; \<open>status_inv\<close>: every
  status a run request may report) and over folds of
  handlers (\<open>retained_view\<close>, \<open>node_tally\<close>, \<open>reloadable\<close>, \<open>event_listener\<close>); agreement of different
  implementations of one thing (query command and filter, harness and daemon, completion and
  evaluation, pulled snapshot and node, listener with and without interruptions); round trips
  through the wire, snapshots, addresses and presence; fencing from the client's command through the
  daemon's topic and configuration to the keys; totality where a loop is unbounded; and
  bounds of times, counters and output. Every property with a hypothesis is applied at a concrete
  input by its witness, where library parameters are small total functions (\<open>plainCodec\<close> and the like).

  \<^bold>\<open>Loops and bounds.\<close> Loops over what arrives recurse over lists, so they end; the reader of random
  bytes (\<open>RngBlob_loop\<close>) counts its at most ten reads. The loop that serves downtimes may run for
  ever and is a \<^theory_text>\<open>partial_function (option)\<close>; \<open>Daemon.daemon_start_returns_iff\<close> says when it ends.
  The zygomys step limit of 1000 and the reply buffer of a call are the program's own constants.
  Integers are \<open>int\<close> with \<open>wrap64\<close> where the code can overflow (\<open>HashGet\<close>, \<open>staleAge\<close>); floating point
  occurs in one place, with rounding as a parameter (\<open>Heartbeat_Cleanup.jittered\<close>).

  \<^bold>\<open>Parameters and what is used of them.\<close> The interpreter, regular expressions, codecs (JSON, CBOR,
  YAML, PEM, X.509), URL parsing, the resolver, files, sockets, the broker, the ipset and
  monitoring libraries are arguments. What a property needs of one is a named hypothesis
  (\<open>codec_ok\<close>, \<open>zygo_errors_ok\<close>, \<open>urlLib_ok\<close>, \<open>topicMatch_ok\<close>, \<open>ieee_round\<close>, \<open>announced\<close>): decoding gives back what was
  encoded, errors have a text, a topic filter matches what MQTT says.

  \<^bold>\<open>Not modelled.\<close> Log messages, except where they are a command's output; how the gin library
  matches routes and serves the embedded files (\<^verbatim>\<open>embedfs/fs.go\<close>); the line editor, the parsing of
  command lines and the encoding of CSV and JSON, which are libraries; wall-clock waiting, except as
  the delays the code asks for and in \<open>Presence\<close>; and what happens between two steps of one
  goroutine unless a step relation says so.
\<close>

end
